(* ===== verification/Prelude.thy ===== *)
theory Prelude
  imports Main "HOL-Library.AList"
begin

text \<open>
  Shared vocabulary of the development: Rust's fixed-width integers as range-checked
  functions on \<^typ>\<open>int\<close> and \<^typ>\<open>nat\<close>, Rust strings as lists of Unicode code points, the
  fallible host calls as a state-and-error monad, the decimal rendering and parsing of
  integers that the storage and timer keys use, and the selection functions
  \<open>Iterator::min_by_key\<close> and \<open>Iterator::max_by_key\<close>.

  Integers. A signed Rust integer is an \<^typ>\<open>int\<close>; every operation that can leave the range
  of its type is written with the function of the operator the source uses: \<open>checked_\<close>
  returns \<^const>\<open>None\<close>, \<open>saturating_\<close> clamps, a plain operator wraps (the plugins are built in
  release mode, where Rust's operators wrap around).
\<close>

named_theorems rust_int \<open>definitions of the fixed-width operations\<close>
named_theorems host_simps \<open>evaluation of host calls\<close>

section \<open>Fixed-width integers\<close>

type_synonym i32 = int
type_synonym i64 = int
type_synonym u8 = nat

definition I32_MAX :: int where "I32_MAX = 2147483647"
definition I32_MIN :: int where "I32_MIN = -2147483648"
definition I64_MAX :: int where "I64_MAX = 9223372036854775807"
definition I64_MIN :: int where "I64_MIN = -9223372036854775808"

declare I32_MAX_def [rust_int] I32_MIN_def [rust_int] I64_MAX_def [rust_int] I64_MIN_def [rust_int]

definition is_i32 :: "int \<Rightarrow> bool" where
  [rust_int]: "is_i32 x \<longleftrightarrow> I32_MIN \<le> x \<and> x \<le> I32_MAX"

definition is_i64 :: "int \<Rightarrow> bool" where
  [rust_int]: "is_i64 x \<longleftrightarrow> I64_MIN \<le> x \<and> x \<le> I64_MAX"

definition wrap_i32 :: "int \<Rightarrow> i32" where
  [rust_int]: "wrap_i32 x = (x + 2147483648) mod 4294967296 - 2147483648"

definition wrap_i64 :: "int \<Rightarrow> i64" where
  [rust_int]: "wrap_i64 x = (x + 9223372036854775808) mod 18446744073709551616 - 9223372036854775808"

definition wrap_u8 :: "nat \<Rightarrow> u8" where
  [rust_int]: "wrap_u8 n = n mod 256"

definition sat_i64 :: "int \<Rightarrow> i64" where
  [rust_int]: "sat_i64 x = max I64_MIN (min I64_MAX x)"

definition check_i64 :: "int \<Rightarrow> i64 option" where
  [rust_int]: "check_i64 x = (if is_i64 x then Some x else None)"

abbreviation checked_add_i64 :: "i64 \<Rightarrow> i64 \<Rightarrow> i64 option" where
  "checked_add_i64 a b \<equiv> check_i64 (a + b)"

abbreviation checked_mul_i64 :: "i64 \<Rightarrow> i64 \<Rightarrow> i64 option" where
  "checked_mul_i64 a b \<equiv> check_i64 (a * b)"

abbreviation saturating_add_i64 :: "i64 \<Rightarrow> i64 \<Rightarrow> i64" where
  "saturating_add_i64 a b \<equiv> sat_i64 (a + b)"

abbreviation saturating_sub_i64 :: "i64 \<Rightarrow> i64 \<Rightarrow> i64" where
  "saturating_sub_i64 a b \<equiv> sat_i64 (a - b)"

abbreviation saturating_mul_i64 :: "i64 \<Rightarrow> i64 \<Rightarrow> i64" where
  "saturating_mul_i64 a b \<equiv> sat_i64 (a * b)"

text \<open>\<open>Ord::clamp\<close> for \<open>lo \<le> hi\<close>, and integer division truncating towards zero.\<close>

definition clamp_int :: "int \<Rightarrow> int \<Rightarrow> int \<Rightarrow> int" where
  [rust_int]: "clamp_int lo hi x = (if x < lo then lo else if x > hi then hi else x)"

definition trunc_div :: "int \<Rightarrow> int \<Rightarrow> int" where
  [rust_int]: "trunc_div a b = (if (0 \<le> a) = (0 \<le> b) then \<bar>a\<bar> div \<bar>b\<bar> else - (\<bar>a\<bar> div \<bar>b\<bar>))"

lemma is_i32_wrap [simp]: "is_i32 (wrap_i32 x)"
  by (simp add: rust_int)

lemma is_i64_wrap [simp]: "is_i64 (wrap_i64 x)"
  by (simp add: rust_int)

lemma wrap_i32_id: "is_i32 x \<Longrightarrow> wrap_i32 x = x"
  by (simp add: rust_int)

lemma wrap_i64_id: "is_i64 x \<Longrightarrow> wrap_i64 x = x"
  by (simp add: rust_int)

lemma is_i64_sat [simp]: "is_i64 (sat_i64 x)"
  by (auto simp: rust_int)

lemma sat_i64_id: "is_i64 x \<Longrightarrow> sat_i64 x = x"
  by (auto simp: rust_int)

lemma sat_i64_mono: "x \<le> y \<Longrightarrow> sat_i64 x \<le> sat_i64 y"
  by (auto simp: rust_int)

lemma check_i64_SomeD: "check_i64 x = Some y \<Longrightarrow> y = x \<and> is_i64 x"
  by (auto simp: check_i64_def split: if_splits)

lemma is_i32_is_i64: "is_i32 x \<Longrightarrow> is_i64 x"
  by (auto simp: rust_int)

lemma clamp_int_bounds: "lo \<le> hi \<Longrightarrow> lo \<le> clamp_int lo hi x \<and> clamp_int lo hi x \<le> hi"
  by (auto simp: clamp_int_def)

lemma clamp_int_id: "lo \<le> x \<Longrightarrow> x \<le> hi \<Longrightarrow> clamp_int lo hi x = x"
  by (auto simp: clamp_int_def)

section \<open>Strings as code points\<close>

text \<open>
  A Rust \<open>String\<close> or \<open>&str\<close> whose characters matter is a list of Unicode code points. A
  literal of the source, which is ASCII, is written \<open>lit ''abc''\<close>. Keys and codes that the
  code itself renders are plain \<^typ>\<open>string\<close>s.
\<close>

type_synonym rstr = "nat list"

definition lit :: "string \<Rightarrow> rstr" where
  "lit s = map of_char s"

lemma lit_inject [simp]: "lit s = lit t \<longleftrightarrow> s = t"
proof -
  have "inj (of_char :: char \<Rightarrow> nat)"
    by (rule injI) (metis char_of_char)
  then show ?thesis by (simp add: lit_def inj_map_eq_map)
qed

lemma length_lit [simp]: "length (lit s) = length s"
  by (simp add: lit_def)

lemma lit_append: "lit (s @ t) = lit s @ lit t"
  by (simp add: lit_def)

lemma lit_Nil [simp]: "lit [] = []"
  by (simp add: lit_def)

lemma lit_eq_Nil [simp]: "lit s = [] \<longleftrightarrow> s = []" "[] = lit s \<longleftrightarrow> s = []"
  by (auto simp: lit_def)

text \<open>The code points of \<open>char::is_whitespace\<close>: Unicode's \<open>White_Space\<close> property.\<close>

definition is_whitespace :: "nat \<Rightarrow> bool" where
  "is_whitespace c \<longleftrightarrow> (9 \<le> c \<and> c \<le> 13) \<or> c = 32 \<or> c = 133 \<or> c = 160 \<or> c = 5760
     \<or> (8192 \<le> c \<and> c \<le> 8202) \<or> c = 8232 \<or> c = 8233 \<or> c = 8239 \<or> c = 8287 \<or> c = 12288"

definition trim_start :: "rstr \<Rightarrow> rstr" where
  "trim_start s = dropWhile is_whitespace s"

definition trim_end :: "rstr \<Rightarrow> rstr" where
  "trim_end s = rev (dropWhile is_whitespace (rev s))"

definition trim :: "rstr \<Rightarrow> rstr" where
  "trim s = trim_end (trim_start s)"

definition strip_prefix :: "rstr \<Rightarrow> rstr \<Rightarrow> rstr option" where
  "strip_prefix p s = (if take (length p) s = p then Some (drop (length p) s) else None)"

definition strip_suffix :: "rstr \<Rightarrow> rstr \<Rightarrow> rstr option" where
  "strip_suffix p s = map_option rev (strip_prefix (rev p) (rev s))"

lemma trim_start_id: "s = [] \<or> \<not> is_whitespace (hd s) \<Longrightarrow> trim_start s = s"
  by (cases s) (auto simp: trim_start_def)

lemma trim_end_id: "s = [] \<or> \<not> is_whitespace (last s) \<Longrightarrow> trim_end s = s"
  by (cases s rule: rev_cases) (auto simp: trim_end_def)

lemma trim_id: "s = [] \<or> (\<not> is_whitespace (hd s) \<and> \<not> is_whitespace (last s)) \<Longrightarrow> trim s = s"
  by (auto simp: trim_def trim_start_id trim_end_id)

lemma trim_start_hd: "trim_start s = [] \<or> \<not> is_whitespace (hd (trim_start s))"
  unfolding trim_start_def using hd_dropWhile by blast

lemma trim_end_last: "trim_end s = [] \<or> \<not> is_whitespace (last (trim_end s))"
  unfolding trim_end_def using hd_dropWhile [of is_whitespace "rev s"]
  by (auto simp: last_rev)

lemma trim_end_prefix: "\<exists>ws. s = trim_end s @ ws"
proof
  show "s = trim_end s @ rev (takeWhile is_whitespace (rev s))"
    by (simp add: trim_end_def flip: rev_append)
qed

lemma trim_ends: "trim s = [] \<or> (\<not> is_whitespace (hd (trim s)) \<and> \<not> is_whitespace (last (trim s)))"
proof (cases "trim s = []")
  case False
  obtain ws where ws: "trim_start s = trim s @ ws"
    using trim_end_prefix [of "trim_start s"] by (auto simp: trim_def)
  with False have "hd (trim s) = hd (trim_start s)" and "trim_start s \<noteq> []"
    by (auto simp: hd_append)
  with trim_start_hd [of s] have "\<not> is_whitespace (hd (trim s))" by simp
  moreover from trim_end_last [of "trim_start s"] False
  have "\<not> is_whitespace (last (trim s))" by (simp add: trim_def)
  ultimately show ?thesis by simp
qed simp

lemma trim_idem [simp]: "trim (trim s) = trim s"
  using trim_ends [of s] by (rule trim_id)

section \<open>Decimal integers\<close>

text \<open>
  \<open>Display\<close> and \<open>FromStr\<close> of the integer types: decimal digits, an optional sign when
  parsing, and an error when the value is out of range.
\<close>

fun show_nat :: "nat \<Rightarrow> string" where
  "show_nat n = (if n < 10 then [char_of (48 + n)] else show_nat (n div 10) @ [char_of (48 + n mod 10)])"

declare show_nat.simps [simp del]

definition show_int :: "int \<Rightarrow> string" where
  "show_int i = (if i < 0 then CHR ''-'' # show_nat (nat (- i)) else show_nat (nat i))"

definition digit_value :: "char \<Rightarrow> nat option" where
  "digit_value c = (if 48 \<le> (of_char c :: nat) \<and> of_char c \<le> (57 :: nat) then Some (of_char c - 48) else None)"

fun digits_value :: "nat \<Rightarrow> string \<Rightarrow> nat option" where
  "digits_value acc [] = Some acc"
| "digits_value acc (c # cs) =
     (case digit_value c of None \<Rightarrow> None | Some k \<Rightarrow> digits_value (10 * acc + k) cs)"

definition parse_digits :: "string \<Rightarrow> nat option" where
  "parse_digits s = (if s = [] then None else digits_value 0 s)"

definition parse_signed :: "int \<Rightarrow> int \<Rightarrow> string \<Rightarrow> int option" where
  "parse_signed lo hi s =
    (let v = (case s of
                [] \<Rightarrow> None
              | c # cs \<Rightarrow> if c = CHR ''-'' then map_option (\<lambda>n. - int n) (parse_digits cs)
                         else if c = CHR ''+'' then map_option int (parse_digits cs)
                         else map_option int (parse_digits (c # cs)))
     in case v of Some x \<Rightarrow> if lo \<le> x \<and> x \<le> hi then Some x else None | None \<Rightarrow> None)"

definition parse_i32 :: "string \<Rightarrow> i32 option" where
  "parse_i32 s = parse_signed I32_MIN I32_MAX s"

definition parse_i64 :: "string \<Rightarrow> i64 option" where
  "parse_i64 s = parse_signed I64_MIN I64_MAX s"

lemma of_char_digit: "n < 10 \<Longrightarrow> (of_char (char_of (48 + n)) :: nat) = 48 + n"
  by simp

lemma digit_value_digit: "n < 10 \<Longrightarrow> digit_value (char_of (48 + n)) = Some n"
  by (simp add: digit_value_def)

lemma digits_value_append:
  "digits_value acc (s @ t) = (case digits_value acc s of None \<Rightarrow> None | Some a \<Rightarrow> digits_value a t)"
  by (induction s arbitrary: acc) (auto split: option.splits)

lemma show_nat_nonempty [simp]: "show_nat n \<noteq> []"
  by (subst show_nat.simps) simp

lemma digits_value_show: "digits_value 0 (show_nat n) = Some n"
proof (induction n rule: show_nat.induct)
  case (1 n)
  show ?case
  proof (cases "n < 10")
    case True
    then show ?thesis by (subst show_nat.simps) (simp add: digit_value_digit)
  next
    case False
    with 1 have "digits_value 0 (show_nat (n div 10)) = Some (n div 10)" by simp
    with False show ?thesis
      by (subst show_nat.simps) (simp add: digits_value_append digit_value_digit)
  qed
qed

lemma parse_digits_show [simp]: "parse_digits (show_nat n) = Some n"
  by (simp add: parse_digits_def digits_value_show)

lemma digits_of_show: "\<forall>c \<in> set (show_nat n). 48 \<le> (of_char c :: nat) \<and> of_char c \<le> (57 :: nat)"
proof (induction n rule: show_nat.induct)
  case (1 n)
  then show ?case
    by (cases "n < 10") (auto simp: show_nat.simps [of n] of_char_digit simp del: of_char_of)
qed

lemma show_nat_hd: "hd (show_nat n) \<noteq> CHR ''-''" "hd (show_nat n) \<noteq> CHR ''+''"
proof -
  have "48 \<le> (of_char (hd (show_nat n)) :: nat)"
    using digits_of_show [of n] hd_in_set [OF show_nat_nonempty [of n]] by blast
  then show "hd (show_nat n) \<noteq> CHR ''-''" "hd (show_nat n) \<noteq> CHR ''+''" by auto
qed

lemma parse_signed_show:
  assumes "lo \<le> i" and "i \<le> hi"
  shows "parse_signed lo hi (show_int i) = Some i"
proof (cases "i < 0")
  case True
  with assms show ?thesis by (simp add: parse_signed_def show_int_def)
next
  case False
  obtain c cs where c: "show_nat (nat i) = c # cs" by (cases "show_nat (nat i)") auto
  then have "c \<noteq> CHR ''-''" "c \<noteq> CHR ''+''" using show_nat_hd [of "nat i"] by simp_all
  with False assms c parse_digits_show [of "nat i"] show ?thesis
    by (simp add: parse_signed_def show_int_def)
qed

lemma parse_i32_show: "is_i32 i \<Longrightarrow> parse_i32 (show_int i) = Some i"
  by (simp add: parse_i32_def parse_signed_show is_i32_def)

lemma parse_i64_show: "is_i64 i \<Longrightarrow> parse_i64 (show_int i) = Some i"
  by (simp add: parse_i64_def parse_signed_show is_i64_def)

lemma parse_i32_range: "parse_i32 s = Some i \<Longrightarrow> is_i32 i"
  by (auto simp: parse_i32_def parse_signed_def is_i32_def Let_def split: option.splits if_splits)

lemma show_int_inject: "show_int i = show_int j \<longleftrightarrow> i = j"
proof
  assume eq: "show_int i = show_int j"
  define lo where "lo = min i j"
  define hi where "hi = max i j"
  have "Some i = parse_signed lo hi (show_int i)"
    by (rule parse_signed_show [symmetric]) (simp_all add: lo_def hi_def)
  also have "\<dots> = parse_signed lo hi (show_int j)" by (simp only: eq)
  also have "\<dots> = Some j" by (rule parse_signed_show) (simp_all add: lo_def hi_def)
  finally show "i = j" by (simp only: option.inject)
qed simp

definition parse_u8 :: "string \<Rightarrow> u8 option" where
  "parse_u8 s =
    (case (case s of [] \<Rightarrow> None | c # cs \<Rightarrow> if c = CHR ''+'' then parse_digits cs else parse_digits (c # cs)) of
       Some n \<Rightarrow> if n < 256 then Some n else None | None \<Rightarrow> None)"

lemma parse_u8_show:
  assumes "n < 256"
  shows "parse_u8 (show_nat n) = Some n"
proof -
  obtain c cs where c: "show_nat n = c # cs" by (cases "show_nat n") auto
  then have "c \<noteq> CHR ''+''" using show_nat_hd(2) [of n] by simp
  with assms c parse_digits_show [of n] show ?thesis by (simp add: parse_u8_def)
qed

lemma show_nat_inject: "show_nat m = show_nat n \<longleftrightarrow> m = n"
  by (metis parse_digits_show option.inject)

text \<open>The characters of a rendered integer: digits and a sign, never a separator.\<close>

lemma show_nat_no_colon: "CHR '':'' \<notin> set (show_nat n)"
  using digits_of_show [of n] by force

lemma show_int_no_colon: "CHR '':'' \<notin> set (show_int i)"
  using show_nat_no_colon by (simp add: show_int_def)

section \<open>Indexing\<close>

text \<open>\<open>slice::get\<close>, \<open>slice::first\<close> and \<open>slice::last\<close>: an index out of range gives \<^const>\<open>None\<close>.\<close>

definition list_get :: "'a list \<Rightarrow> nat \<Rightarrow> 'a option" where
  "list_get xs i = (if i < length xs then Some (xs ! i) else None)"

definition list_last :: "'a list \<Rightarrow> 'a option" where
  "list_last xs = (if xs = [] then None else Some (last xs))"

lemma list_get_Some: "list_get xs i = Some x \<longleftrightarrow> i < length xs \<and> xs ! i = x"
  by (auto simp: list_get_def)

lemma list_get_set: "list_get xs i = Some x \<Longrightarrow> x \<in> set xs"
  by (auto simp: list_get_Some)

lemma list_last_simps [simp]: "list_last [] = None" "list_last (xs @ [x]) = Some x"
  by (simp_all add: list_last_def)

lemma list_last_Some: "list_last xs = Some x \<longleftrightarrow> xs \<noteq> [] \<and> last xs = x"
  by (auto simp: list_last_def)

lemma list_last_None [simp]: "list_last xs = None \<longleftrightarrow> xs = []"
  by (simp add: list_last_def)

section \<open>Selecting an element\<close>

text \<open>
  \<open>Iterator::min_by_key\<close> returns the first element with the least key and
  \<open>Iterator::max_by_key\<close> the last one with the greatest key.
\<close>

fun min_by_key :: "('a \<Rightarrow> 'k::linorder) \<Rightarrow> 'a list \<Rightarrow> 'a option" where
  "min_by_key k [] = None"
| "min_by_key k (x # xs) =
     (case min_by_key k xs of None \<Rightarrow> Some x | Some y \<Rightarrow> Some (if k x \<le> k y then x else y))"

fun max_by_key :: "('a \<Rightarrow> 'k::linorder) \<Rightarrow> 'a list \<Rightarrow> 'a option" where
  "max_by_key k [] = None"
| "max_by_key k (x # xs) =
     (case max_by_key k xs of None \<Rightarrow> Some x | Some y \<Rightarrow> Some (if k x \<le> k y then y else x))"

lemma min_by_key_None [simp]: "min_by_key k xs = None \<longleftrightarrow> xs = []"
  by (cases xs) (auto split: option.splits)

lemma max_by_key_None [simp]: "max_by_key k xs = None \<longleftrightarrow> xs = []"
  by (cases xs) (auto split: option.splits)

lemma min_by_key_Some:
  "min_by_key k xs = Some x \<Longrightarrow> x \<in> set xs \<and> (\<forall>y \<in> set xs. k x \<le> k y)"
proof (induction xs arbitrary: x)
  case (Cons a xs)
  then show ?case by (cases "min_by_key k xs") (fastforce split: if_splits)+
qed simp

lemma max_by_key_Some:
  "max_by_key k xs = Some x \<Longrightarrow> x \<in> set xs \<and> (\<forall>y \<in> set xs. k y \<le> k x)"
proof (induction xs arbitrary: x)
  case (Cons a xs)
  then show ?case by (cases "max_by_key k xs") (fastforce split: if_splits)+
qed simp

lemma min_by_key_snoc:
  "min_by_key k (xs @ [s]) = (case min_by_key k xs of None \<Rightarrow> Some s | Some y \<Rightarrow> Some (if k y \<le> k s then y else s))"
  by (induction xs) (auto split: option.splits)

lemma min_by_key_unique:
  assumes "x \<in> set xs" and "\<And>y. y \<in> set xs \<Longrightarrow> y \<noteq> x \<Longrightarrow> k x < k y"
  shows "min_by_key k xs = Some x"
proof (cases "min_by_key k xs")
  case None
  with assms(1) show ?thesis by auto
next
  case (Some z)
  from min_by_key_Some [OF Some] assms(1) have "z \<in> set xs" and "k z \<le> k x"
    by auto
  with assms(2) have "z = x" by (meson leD)
  with Some show ?thesis by simp
qed

fun opt_max :: "('a::linorder) list \<Rightarrow> 'a option" where
  "opt_max [] = None"
| "opt_max (x # xs) = (case opt_max xs of None \<Rightarrow> Some x | Some y \<Rightarrow> Some (max x y))"

lemma opt_max_None [simp]: "opt_max xs = None \<longleftrightarrow> xs = []"
  by (cases xs) (auto split: option.splits)

lemma opt_max_Some: "opt_max xs = Some m \<Longrightarrow> m \<in> set xs \<and> (\<forall>y \<in> set xs. y \<le> m)"
proof (induction xs arbitrary: m)
  case (Cons a xs)
  then show ?case by (cases "opt_max xs") (fastforce simp: max_def split: if_splits)+
qed simp

text \<open>A chain of checks that succeeded passed every check.\<close>

lemma case_option_Inr:
  "(case a of None \<Rightarrow> Inl e | Some x \<Rightarrow> f x) = Inr y \<longleftrightarrow> (\<exists>x. a = Some x \<and> f x = Inr y)"
  by (cases a) auto

lemma case_sum_Inr:
  "(case a of Inl e \<Rightarrow> Inl (g e) | Inr x \<Rightarrow> f x) = Inr y \<longleftrightarrow> (\<exists>x. a = Inr x \<and> f x = Inr y)"
  by (cases a) auto

section \<open>Fallible calls over a state\<close>

text \<open>
  A host call returns an error (\<^const>\<open>Inl\<close>) or a value (\<^const>\<open>Inr\<close>) and the state after it;
  \<open>hbind\<close> is Rust's \<open>?\<close>: an error stops the computation and keeps the effects made so far.
\<close>

type_synonym ('s, 'e, 'a) call = "'s \<Rightarrow> ('e + 'a) \<times> 's"

definition hret :: "'a \<Rightarrow> ('s, 'e, 'a) call" where
  [host_simps]: "hret x s = (Inr x, s)"

definition hthrow :: "'e \<Rightarrow> ('s, 'e, 'a) call" where
  [host_simps]: "hthrow e s = (Inl e, s)"

definition hbind :: "('s, 'e, 'a) call \<Rightarrow> ('a \<Rightarrow> ('s, 'e, 'b) call) \<Rightarrow> ('s, 'e, 'b) call" where
  [host_simps]: "hbind m f s = (case m s of (Inl e, t) \<Rightarrow> (Inl e, t) | (Inr x, t) \<Rightarrow> f x t)"

text \<open>\<open>let _ = call;\<close> discards the outcome and keeps the effects.\<close>

definition hignore :: "('s, 'e, 'a) call \<Rightarrow> ('s, 'e, unit) call" where
  [host_simps]: "hignore m s = (Inr (), snd (m s))"

text \<open>\<open>call.ok()\<close>: the value if there is one.\<close>

definition hok :: "('s, 'e, 'a) call \<Rightarrow> ('s, 'f, 'a option) call" where
  [host_simps]: "hok m s = (Inr (case fst (m s) of Inl _ \<Rightarrow> None | Inr x \<Rightarrow> Some x), snd (m s))"

fun hmapM :: "('a \<Rightarrow> ('s, 'e, unit) call) \<Rightarrow> 'a list \<Rightarrow> ('s, 'e, unit) call" where
  "hmapM f [] = hret ()"
| "hmapM f (x # xs) = hbind (f x) (\<lambda>_. hmapM f xs)"

lemma hbind_hret [simp]: "hbind (hret x) f = f x"
  by (simp add: fun_eq_iff host_simps)

lemma hbind_hthrow [simp]: "hbind (hthrow e) f = hthrow e"
  by (simp add: fun_eq_iff host_simps)

lemma hbind_Inr:
  "hbind m f s = (Inr y, t) \<longleftrightarrow> (\<exists>x u. m s = (Inr x, u) \<and> f x u = (Inr y, t))"
  by (auto simp: hbind_def split: prod.splits sum.splits)

lemma hbind_step: "m s = (Inr x, t) \<Longrightarrow> hbind m f s = f x t"
  by (simp add: hbind_def)

lemma hbind_Inl:
  "hbind m f s = (Inl e, t) \<longleftrightarrow>
     m s = (Inl e, t) \<or> (\<exists>x u. m s = (Inr x, u) \<and> f x u = (Inl e, t))"
  by (auto simp: hbind_def split: prod.splits sum.splits)

lemma case_sum_call_Inr:
  "(case r of Inl e \<Rightarrow> hthrow (g e) | Inr x \<Rightarrow> f x) s = (Inr y, t) \<longleftrightarrow> (\<exists>x. r = Inr x \<and> f x s = (Inr y, t))"
  by (cases r) (auto simp: hthrow_def)

lemma case_option_call_Inr:
  "(case r of None \<Rightarrow> hthrow e | Some x \<Rightarrow> f x) s = (Inr y, t) \<longleftrightarrow> (\<exists>x. r = Some x \<and> f x s = (Inr y, t))"
  by (cases r) (auto simp: hthrow_def)

text \<open>Hoare-style rules: what a computation keeps whatever its outcome.\<close>

definition hkeeps :: "('s \<Rightarrow> 't) \<Rightarrow> ('s, 'e, 'a) call \<Rightarrow> bool" where
  "hkeeps g m \<longleftrightarrow> (\<forall>s. g (snd (m s)) = g s)"

lemma hkeepsD: "hkeeps g m \<Longrightarrow> m s = (r, t) \<Longrightarrow> g t = g s"
  by (metis hkeeps_def snd_conv)

lemma hkeeps_hret [simp]: "hkeeps g (hret x)"
  by (simp add: hkeeps_def hret_def)

lemma hkeeps_hthrow [simp]: "hkeeps g (hthrow x)"
  by (simp add: hkeeps_def hthrow_def)

lemma hkeeps_hbind: "hkeeps g m \<Longrightarrow> (\<And>x. hkeeps g (f x)) \<Longrightarrow> hkeeps g (hbind m f)"
  by (auto simp: hkeeps_def hbind_def split: prod.splits sum.splits) (metis snd_conv)+

lemma hkeeps_hmapM: "(\<And>x. hkeeps g (f x)) \<Longrightarrow> hkeeps g (hmapM f xs)"
  by (induction xs) (auto intro: hkeeps_hbind)

text \<open>
  How the state may change, whatever the outcome: a reflexive and transitive relation that every
  call of a computation stays within.
\<close>

definition hrel :: "('s \<Rightarrow> 's \<Rightarrow> bool) \<Rightarrow> ('s, 'e, 'a) call \<Rightarrow> bool" where
  "hrel R m \<longleftrightarrow> (\<forall>s. R s (snd (m s)))"

lemma hrelD: "hrel R m \<Longrightarrow> m s = (r, t) \<Longrightarrow> R s t"
  by (metis hrel_def snd_conv)

lemma hrelI: "(\<And>s r t. m s = (r, t) \<Longrightarrow> R s t) \<Longrightarrow> hrel R m"
  by (metis hrel_def surjective_pairing)

lemma hrel_if: "(P \<Longrightarrow> hrel R a) \<Longrightarrow> (\<not> P \<Longrightarrow> hrel R b) \<Longrightarrow> hrel R (if P then a else b)"
  by simp

lemma hrel_option:
  "hrel R a \<Longrightarrow> (\<And>x. r = Some x \<Longrightarrow> hrel R (f x)) \<Longrightarrow> hrel R (case r of None \<Rightarrow> a | Some x \<Rightarrow> f x)"
  by (cases r) auto

lemma hrel_sum:
  "(\<And>e. hrel R (g e)) \<Longrightarrow> (\<And>x. r = Inr x \<Longrightarrow> hrel R (f x)) \<Longrightarrow> hrel R (case r of Inl e \<Rightarrow> g e | Inr x \<Rightarrow> f x)"
  by (cases r) auto

lemma hrel_prod: "(\<And>x y. r = (x, y) \<Longrightarrow> hrel R (f x y)) \<Longrightarrow> hrel R (case r of (x, y) \<Rightarrow> f x y)"
  by (cases r) auto

lemma hrel_let: "(\<And>x. x = v \<Longrightarrow> hrel R (f x)) \<Longrightarrow> hrel R (Let v f)"
  by simp

locale state_rel =
  fixes R :: "'s \<Rightarrow> 's \<Rightarrow> bool"
  assumes rel_refl: "R s s"
    and rel_trans: "R s t \<Longrightarrow> R t u \<Longrightarrow> R s u"
begin

lemma hrel_hret: "hrel R (hret x)"
  by (simp add: hrel_def hret_def rel_refl)

lemma hrel_hthrow: "hrel R (hthrow e)"
  by (simp add: hrel_def hthrow_def rel_refl)

lemma hrel_hbind_value:
  assumes "hrel R m" and "\<And>x s t. m s = (Inr x, t) \<Longrightarrow> hrel R (f x)"
  shows "hrel R (hbind m f)"
proof (rule hrelI)
  fix s r t
  assume run: "hbind m f s = (r, t)"
  obtain r1 u where m: "m s = (r1, u)" by force
  have "R s u" using assms(1) m by (rule hrelD)
  moreover have "R u t"
  proof (cases r1)
    case (Inl e)
    with run m show ?thesis by (simp add: hbind_def rel_refl)
  next
    case (Inr x)
    with m have "hrel R (f x)" by (intro assms(2)) simp
    with run m Inr show ?thesis by (simp add: hbind_def hrelD)
  qed
  ultimately show "R s t" by (rule rel_trans)
qed

lemma hrel_hbind: "hrel R m \<Longrightarrow> (\<And>x. hrel R (f x)) \<Longrightarrow> hrel R (hbind m f)"
  by (rule hrel_hbind_value)

lemma hrel_hmapM: "(\<And>x. hrel R (f x)) \<Longrightarrow> hrel R (hmapM f xs)"
  by (induction xs) (auto intro: hrel_hbind hrel_hret)

lemma hrel_hignore: "hrel R m \<Longrightarrow> hrel R (hignore m)"
  by (simp add: hrel_def hignore_def)

lemma hrel_after: "(\<And>s. R s (g s)) \<Longrightarrow> hrel R m \<Longrightarrow> hrel R (\<lambda>s. m (g s))"
  unfolding hrel_def using rel_trans by blast

lemmas hrel_basic = hrel_hret hrel_hthrow hrel_hbind hrel_hmapM hrel_hignore hrel_if hrel_option hrel_sum hrel_prod hrel_let

end

section \<open>Splitting at a separator\<close>

text \<open>Rust's \<open>str::split\<close> at a character: the pieces between the separators, at least one.\<close>

fun split_on :: "char \<Rightarrow> string \<Rightarrow> string list" where
  "split_on c [] = [[]]"
| "split_on c (x # xs) =
     (if x = c then [] # split_on c xs
      else (case split_on c xs of [] \<Rightarrow> [[x]] | p # ps \<Rightarrow> (x # p) # ps))"

lemma split_on_ne: "split_on c s \<noteq> []"
  by (induction s) (auto split: list.splits)

end
