(* ===== verification/Verdicts.thy ===== *)
theory Verdicts
  imports Prelude
begin

text \<open>
  The verdict and status enums that every part of the judge exchanges:
  \<open>broccoli_types::types::Verdict\<close> (the plugin side, \<open>verdict\<close>), \<open>common::Verdict\<close> (the host
  side, \<open>host_verdict\<close>), \<open>common::SubmissionStatus\<close> (\<open>host_status\<close>) and the four states a
  plugin may write (\<open>submission_status\<close>); their severity ranking, their text forms and the
  parsers of those text forms.
\<close>

section \<open>The plugin-side verdict\<close>

datatype verdict =
    Accepted
  | WrongAnswer
  | TimeLimitExceeded
  | MemoryLimitExceeded
  | RuntimeError
  | SystemError
  | CompileError
  | Skipped
  | Cancelled
  | Other rstr

fun severity :: "verdict \<Rightarrow> nat" where
  "severity Accepted = 0"
| "severity Skipped = 0"
| "severity Cancelled = 0"
| "severity WrongAnswer = 1"
| "severity TimeLimitExceeded = 2"
| "severity MemoryLimitExceeded = 3"
| "severity RuntimeError = 4"
| "severity SystemError = 5"
| "severity (Other _) = 6"
| "severity CompileError = 7"

fun to_db_str :: "verdict \<Rightarrow> rstr" where
  "to_db_str Accepted = lit ''Accepted''"
| "to_db_str WrongAnswer = lit ''WrongAnswer''"
| "to_db_str TimeLimitExceeded = lit ''TimeLimitExceeded''"
| "to_db_str MemoryLimitExceeded = lit ''MemoryLimitExceeded''"
| "to_db_str RuntimeError = lit ''RuntimeError''"
| "to_db_str Skipped = lit ''Skipped''"
| "to_db_str Cancelled = lit ''Cancelled''"
| "to_db_str SystemError = lit ''SystemError''"
| "to_db_str CompileError = lit ''SystemError''"
| "to_db_str (Other custom) = custom"

definition is_accepted :: "verdict \<Rightarrow> bool" where
  "is_accepted v \<longleftrightarrow> v = Accepted"

definition is_skipped_or_cancelled :: "verdict \<Rightarrow> bool" where
  "is_skipped_or_cancelled v \<longleftrightarrow> v = Skipped \<or> v = Cancelled"

text \<open>\<open>Display\<close> and \<open>Serialize\<close> write the same text.\<close>

definition verdict_display :: "verdict \<Rightarrow> rstr" where
  "verdict_display v = (case v of CompileError \<Rightarrow> lit ''CompileError'' | other \<Rightarrow> to_db_str other)"

text \<open>The parse error carries the trimmed input.\<close>

datatype parse_verdict_error = ParseVerdictError rstr

definition parse_other :: "rstr \<Rightarrow> rstr option" where
  "parse_other s = (case strip_prefix (lit ''Other('') s of
     None \<Rightarrow> None
   | Some v \<Rightarrow> (case strip_suffix (lit '')'') v of
       None \<Rightarrow> None
     | Some custom \<Rightarrow> if trim custom \<noteq> [] then Some custom else None))"

definition verdict_from_str :: "rstr \<Rightarrow> parse_verdict_error + verdict" where
  "verdict_from_str input =
    (let s = trim input in
     if s = [] then Inl (ParseVerdictError s)
     else if s = lit ''Accepted'' then Inr Accepted
     else if s = lit ''WrongAnswer'' then Inr WrongAnswer
     else if s = lit ''TimeLimitExceeded'' then Inr TimeLimitExceeded
     else if s = lit ''MemoryLimitExceeded'' then Inr MemoryLimitExceeded
     else if s = lit ''RuntimeError'' then Inr RuntimeError
     else if s = lit ''SystemError'' then Inr SystemError
     else if s = lit ''CompileError'' then Inr CompileError
     else if s = lit ''Skipped'' then Inr Skipped
     else if s = lit ''Cancelled'' then Inr Cancelled
     else (case parse_other s of Some custom \<Rightarrow> Inr (Other custom) | None \<Rightarrow> Inr (Other s)))"

definition verdict_deserialize :: "rstr \<Rightarrow> verdict" where
  "verdict_deserialize raw =
    (if raw = lit ''CompileError'' then CompileError
     else (case verdict_from_str raw of Inr v \<Rightarrow> v | Inl _ \<Rightarrow> Other raw))"

section \<open>The host-side verdict\<close>

datatype host_verdict =
    HAccepted
  | HWrongAnswer
  | HTimeLimitExceeded
  | HMemoryLimitExceeded
  | HRuntimeError
  | HSystemError
  | HSkipped
  | HCancelled
  | HOther rstr

fun host_severity :: "host_verdict \<Rightarrow> nat" where
  "host_severity HAccepted = severity Accepted"
| "host_severity HWrongAnswer = severity WrongAnswer"
| "host_severity HTimeLimitExceeded = severity TimeLimitExceeded"
| "host_severity HMemoryLimitExceeded = severity MemoryLimitExceeded"
| "host_severity HRuntimeError = severity RuntimeError"
| "host_severity HSystemError = severity SystemError"
| "host_severity HSkipped = severity Skipped"
| "host_severity HCancelled = severity Cancelled"
| "host_severity (HOther _) = severity (Other [])"

fun host_verdict_as_str :: "host_verdict \<Rightarrow> rstr" where
  "host_verdict_as_str HAccepted = lit ''Accepted''"
| "host_verdict_as_str HWrongAnswer = lit ''WrongAnswer''"
| "host_verdict_as_str HTimeLimitExceeded = lit ''TimeLimitExceeded''"
| "host_verdict_as_str HMemoryLimitExceeded = lit ''MemoryLimitExceeded''"
| "host_verdict_as_str HRuntimeError = lit ''RuntimeError''"
| "host_verdict_as_str HSystemError = lit ''SystemError''"
| "host_verdict_as_str HSkipped = lit ''Skipped''"
| "host_verdict_as_str HCancelled = lit ''Cancelled''"
| "host_verdict_as_str (HOther custom) = custom"

definition host_verdict_from_str :: "rstr \<Rightarrow> parse_verdict_error + host_verdict" where
  "host_verdict_from_str input =
    (let s = trim input in
     if s = [] then Inl (ParseVerdictError s)
     else if s = lit ''Accepted'' then Inr HAccepted
     else if s = lit ''WrongAnswer'' then Inr HWrongAnswer
     else if s = lit ''TimeLimitExceeded'' then Inr HTimeLimitExceeded
     else if s = lit ''MemoryLimitExceeded'' then Inr HMemoryLimitExceeded
     else if s = lit ''RuntimeError'' then Inr HRuntimeError
     else if s = lit ''SystemError'' then Inr HSystemError
     else if s = lit ''Skipped'' then Inr HSkipped
     else if s = lit ''Cancelled'' then Inr HCancelled
     else (case parse_other s of Some custom \<Rightarrow> Inr (HOther custom) | None \<Rightarrow> Inr (HOther s)))"

definition host_verdict_deserialize :: "rstr \<Rightarrow> host_verdict" where
  "host_verdict_deserialize raw =
    (case host_verdict_from_str raw of Inr v \<Rightarrow> v | Inl _ \<Rightarrow> HOther raw)"

fun host_of_sdk :: "verdict \<Rightarrow> host_verdict" where
  "host_of_sdk Accepted = HAccepted"
| "host_of_sdk WrongAnswer = HWrongAnswer"
| "host_of_sdk TimeLimitExceeded = HTimeLimitExceeded"
| "host_of_sdk MemoryLimitExceeded = HMemoryLimitExceeded"
| "host_of_sdk RuntimeError = HRuntimeError"
| "host_of_sdk SystemError = HSystemError"
| "host_of_sdk CompileError = HSystemError"
| "host_of_sdk Skipped = HSkipped"
| "host_of_sdk Cancelled = HCancelled"
| "host_of_sdk (Other custom) = HOther custom"

section \<open>Submission statuses\<close>

datatype host_status =
  Queued | Pending | Compiling | Running | Judged | CompilationError | StatusSystemError

definition host_status_is_terminal :: "host_status \<Rightarrow> bool" where
  "host_status_is_terminal s \<longleftrightarrow> s = Judged \<or> s = CompilationError \<or> s = StatusSystemError"

definition host_status_all :: "host_status list" where
  "host_status_all =
     [Queued, Pending, Compiling, Running, Judged, CompilationError, StatusSystemError]"

fun host_status_as_str :: "host_status \<Rightarrow> rstr" where
  "host_status_as_str Queued = lit ''Queued''"
| "host_status_as_str Pending = lit ''Pending''"
| "host_status_as_str Compiling = lit ''Compiling''"
| "host_status_as_str Running = lit ''Running''"
| "host_status_as_str Judged = lit ''Judged''"
| "host_status_as_str CompilationError = lit ''CompilationError''"
| "host_status_as_str StatusSystemError = lit ''SystemError''"

datatype parse_status_error = ParseStatusError rstr

definition host_status_from_str :: "rstr \<Rightarrow> parse_status_error + host_status" where
  "host_status_from_str s =
    (if s = lit ''Queued'' then Inr Queued
     else if s = lit ''Pending'' then Inr Pending
     else if s = lit ''Compiling'' then Inr Compiling
     else if s = lit ''Running'' then Inr Running
     else if s = lit ''Judged'' then Inr Judged
     else if s = lit ''CompilationError'' then Inr CompilationError
     else if s = lit ''SystemError'' then Inr StatusSystemError
     else Inl (ParseStatusError s))"

text \<open>The statuses a plugin can write; they are four of the host's seven.\<close>

datatype submission_status = SCompiling | SRunning | SJudged | SCompilationError

fun submission_status_host :: "submission_status \<Rightarrow> host_status" where
  "submission_status_host SCompiling = Compiling"
| "submission_status_host SRunning = Running"
| "submission_status_host SJudged = Judged"
| "submission_status_host SCompilationError = CompilationError"

definition submission_status_is_terminal :: "submission_status \<Rightarrow> bool" where
  "submission_status_is_terminal s \<longleftrightarrow> s = SJudged \<or> s = SCompilationError"

section \<open>Facts\<close>

lemma submission_status_terminal_host:
  "submission_status_is_terminal s = host_status_is_terminal (submission_status_host s)"
  by (cases s) (auto simp: submission_status_is_terminal_def host_status_is_terminal_def)

lemma host_status_all_complete: "set host_status_all = UNIV"
proof -
  have "s \<in> set host_status_all" for s
    by (cases s) (simp_all add: host_status_all_def)
  then show ?thesis by blast
qed

text \<open>
  The custom verdicts that survive being written and read back: trimmed, non-empty, not the
  name of a built-in verdict and not of the form \<open>Other(\<dots>)\<close>.
\<close>

definition verdict_names :: "rstr list" where
  "verdict_names = map lit [''Accepted'', ''WrongAnswer'', ''TimeLimitExceeded'',
     ''MemoryLimitExceeded'', ''RuntimeError'', ''SystemError'', ''CompileError'',
     ''Skipped'', ''Cancelled'']"

definition canonical_custom :: "rstr \<Rightarrow> bool" where
  "canonical_custom s \<longleftrightarrow> s \<noteq> [] \<and> trim s = s \<and> s \<notin> set verdict_names \<and> parse_other s = None"

fun canonical_verdict :: "verdict \<Rightarrow> bool" where
  "canonical_verdict (Other s) = canonical_custom s"
| "canonical_verdict _ = True"

lemma trim_verdict_name: "s \<in> set verdict_names \<Longrightarrow> trim s = s"
  unfolding verdict_names_def
  by (rule trim_id) (auto simp: lit_def is_whitespace_def)

lemma strip_prefix_length: "strip_prefix p s = Some v \<Longrightarrow> length v + length p = length s"
  by (auto simp: strip_prefix_def split: if_splits) (metis le_add_diff_inverse2 length_take min_def nat_le_linear)

lemma parse_other_shorter: "parse_other s = Some t \<Longrightarrow> length t < length s"
  by (auto simp: parse_other_def strip_suffix_def split: option.splits if_splits
      dest!: strip_prefix_length)

text \<open>
  The text form of a verdict reads back as the verdict exactly for the canonical ones: a
  plugin's custom verdict named like a built-in one, or wrapped in \<open>Other(\<dots>)\<close>, comes back as
  something else.
\<close>

lemma verdict_display_from_str:
  "verdict_from_str (verdict_display v) = Inr v \<longleftrightarrow> canonical_verdict v"
proof (cases v)
  case (Other s)
  show ?thesis
  proof (cases "trim s = s")
    case True
    then show ?thesis using Other
      by (auto simp: verdict_from_str_def verdict_display_def canonical_custom_def
          verdict_names_def Let_def split: option.splits dest: parse_other_shorter)
  next
    case False
    have len: "length (trim s) \<le> length s"
      by (simp add: trim_def trim_end_def trim_start_def)
        (metis le_trans length_dropWhile_le length_rev)
    from False have "verdict_from_str s \<noteq> Inr (Other s)"
      by (auto simp: verdict_from_str_def Let_def split: option.splits if_splits
          dest!: parse_other_shorter) (use len in linarith)
    with False Other show ?thesis
      by (auto simp: verdict_display_def canonical_custom_def)
  qed
qed (simp_all add: verdict_from_str_def verdict_display_def Let_def trim_verdict_name verdict_names_def)

lemma verdict_from_str_Inl: "(\<exists>e. verdict_from_str s = Inl e) \<longleftrightarrow> trim s = []"
  by (auto simp: verdict_from_str_def Let_def split: option.splits)

lemma verdict_deserialize_display: "canonical_verdict v \<Longrightarrow> verdict_deserialize (verdict_display v) = v"
proof -
  assume "canonical_verdict v"
  then have rt: "verdict_from_str (verdict_display v) = Inr v"
    by (simp add: verdict_display_from_str)
  have "verdict_from_str (lit ''CompileError'') = Inr CompileError"
    using verdict_display_from_str [of CompileError] by (simp add: verdict_display_def)
  with rt show ?thesis by (auto simp: verdict_deserialize_def)
qed

lemma severity_host_of_sdk: "v \<noteq> CompileError \<Longrightarrow> host_severity (host_of_sdk v) = severity v"
  by (cases v) auto

lemma host_verdict_db_roundtrip:
  "host_verdict_as_str (host_of_sdk v) = to_db_str v"
  by (cases v) auto

end
