(* ===== verification/F64.thy ===== *)
theory F64
  imports Prelude Complex_Main
begin

text \<open>
  IEEE 754 binary64 values as the judge uses them for scores and for the epoch arithmetic of
  its SQL: not-a-number, the two infinities and the finite values, a finite value being the
  rational number it denotes. The two zeros are one value; no code modelled here observes the
  sign of a zero.
\<close>

datatype f64 = F64NaN | F64Inf bool | F64 rat

definition f64_zero :: f64 where "f64_zero = F64 0"
definition f64_one :: f64 where "f64_one = F64 1"

fun f64_is_finite :: "f64 \<Rightarrow> bool" where
  "f64_is_finite (F64 _) = True"
| "f64_is_finite _ = False"

text \<open>Order comparisons are false as soon as one side is not a number.\<close>

fun f64_le :: "f64 \<Rightarrow> f64 \<Rightarrow> bool" where
  "f64_le F64NaN _ = False"
| "f64_le _ F64NaN = False"
| "f64_le (F64Inf neg) y = (neg \<or> y = F64Inf False)"
| "f64_le (F64 x) (F64Inf neg) = (\<not> neg)"
| "f64_le (F64 x) (F64 y) = (x \<le> y)"

definition f64_lt :: "f64 \<Rightarrow> f64 \<Rightarrow> bool" where
  "f64_lt x y \<longleftrightarrow> f64_le x y \<and> \<not> f64_le y x"

text \<open>\<open>f64::max\<close> ignores an argument that is not a number.\<close>

definition f64_max :: "f64 \<Rightarrow> f64 \<Rightarrow> f64" where
  "f64_max x y = (if x = F64NaN then y else if y = F64NaN then x else if f64_le x y then y else x)"

text \<open>\<open>x as i64\<close>: truncation towards zero, saturating, and 0 for a value that is not a number.\<close>

definition rat_trunc :: "rat \<Rightarrow> int" where
  "rat_trunc x = (if 0 \<le> x then \<lfloor>x\<rfloor> else - \<lfloor>- x\<rfloor>)"

fun f64_as_i64 :: "f64 \<Rightarrow> i64" where
  "f64_as_i64 F64NaN = 0"
| "f64_as_i64 (F64Inf neg) = (if neg then I64_MIN else I64_MAX)"
| "f64_as_i64 (F64 x) = sat_i64 (rat_trunc x)"

text \<open>The coercion every score passes on its way to the database.\<close>

definition finite_or_zero :: "f64 \<Rightarrow> f64" where
  "finite_or_zero x = (if f64_is_finite x then x else f64_zero)"

lemma is_i64_f64_as_i64 [simp]: "is_i64 (f64_as_i64 x)"
  by (cases x rule: f64_as_i64.cases) (auto simp: rust_int)

lemma f64_is_finite_finite_or_zero [simp]: "f64_is_finite (finite_or_zero x)"
  by (simp add: finite_or_zero_def f64_zero_def)

lemma finite_or_zero_id: "f64_is_finite x \<Longrightarrow> finite_or_zero x = x"
  by (simp add: finite_or_zero_def)

lemma f64_as_i64_max_zero: "0 \<le> f64_as_i64 (f64_max x f64_zero)"
proof (cases x)
  case (F64 q)
  then show ?thesis
    by (auto simp: f64_max_def f64_zero_def rat_trunc_def rust_int max_def)
qed (auto simp: f64_max_def f64_zero_def rat_trunc_def rust_int)

end
