(* ===== verification/SubmissionStore.thy ===== *)
theory SubmissionStore
  imports Verdicts F64
begin

text \<open>
  The judge's write path to the database: the structured updates of
  \<open>broccoli-types/src/types/persistence.rs\<close>, the host functions \<open>submission_update\<close>,
  \<open>submission_insert_results\<close> and \<open>submission_delete_results\<close> of
  \<open>server/src/host_funcs/submissions.rs\<close> with the rows and the \<open>WHERE\<close> clauses of their SQL,
  and the SDK wrappers of \<open>server-sdk/src/sdk/submissions.rs\<close>. The tables are lists of rows;
  the database itself can fail, so the state carries the faults it will report, one entry per
  statement (\<^const>\<open>None\<close>: the statement runs). The record \<open>db\<close> is extended by the plugins
  that keep more state, so every call is polymorphic in the extension.
\<close>

section \<open>Rows, updates and errors\<close>

datatype sdk_error =
    Serialization rstr
  | HostCall rstr
  | Database rstr
  | StaleEpoch
  | OtherError string

record submission_update =
  u_submission_id :: i32
  u_judgement_id :: i32
  u_judge_epoch :: i32
  u_status :: "submission_status option"
  u_verdict :: "verdict option option"
  u_score :: "f64 option"
  u_time_used :: "i32 option option"
  u_memory_used :: "i32 option option"
  u_compile_output :: "rstr option option"
  u_error_code :: "rstr option option"
  u_error_message :: "rstr option option"

definition submission_update_new :: "i32 \<Rightarrow> i32 \<Rightarrow> i32 \<Rightarrow> submission_update" where
  "submission_update_new sid jid ep =
    \<lparr>u_submission_id = sid, u_judgement_id = jid, u_judge_epoch = ep, u_status = None,
     u_verdict = None, u_score = None, u_time_used = None, u_memory_used = None,
     u_compile_output = None, u_error_code = None, u_error_message = None\<rparr>"

text \<open>
  A test-case result as a plugin writes it carries a verdict, as the table stores it the text
  of the verdict column.
\<close>

record 'v tc_result =
  r_submission_id :: i32
  r_judgement_id :: i32
  r_judge_epoch :: i32
  r_test_case_id :: "i32 option"
  r_run_index :: "i32 option"
  r_verdict :: 'v
  r_score :: f64
  r_time_used :: "i32 option"
  r_memory_used :: "i32 option"
  r_message :: "rstr option"
  r_stdout :: "rstr option"
  r_stderr :: "rstr option"

type_synonym tc_result_row = "verdict tc_result"
type_synonym stored_result = "rstr tc_result"

text \<open>The result columns that \<open>submission\<close> and \<open>submission_judgement\<close> share.\<close>

record result_cols =
  c_status :: host_status
  c_verdict :: "rstr option"
  c_score :: "f64 option"
  c_time_used :: "i32 option"
  c_memory_used :: "i32 option"
  c_compile_output :: "rstr option"
  c_error_code :: "rstr option"
  c_error_message :: "rstr option"

record submission_row =
  s_id :: i32
  s_user_id :: i32
  s_problem_id :: i32
  s_contest_id :: "i32 option"
  s_language :: rstr
  s_mode :: rstr
  s_created_at :: i64
  s_judge_epoch :: i32
  s_cols :: result_cols
  s_judged_at :: "i64 option"

record judgement_row =
  j_id :: i32
  j_submission_id :: i32
  j_version :: i32
  j_judge_epoch :: i32
  j_is_current :: bool
  j_is_finalized :: bool
  j_cols :: result_cols
  j_finalized_at :: "i64 option"

record db =
  db_submissions :: "submission_row list"
  db_judgements :: "judgement_row list"
  db_results :: "stored_result list"
  db_faults :: "rstr option list"
  db_now :: i64

section \<open>Text columns\<close>

definition RESULT_TEXT_DB_LIMIT_CHARS :: nat where
  "RESULT_TEXT_DB_LIMIT_CHARS = 64 * 1024"

definition sanitize_text_field :: "rstr \<Rightarrow> rstr" where
  "sanitize_text_field s = (if 0 \<in> set s then map (\<lambda>c. if c = 0 then 65533 else c) s else s)"

definition truncation_mark :: rstr where
  "truncation_mark = 10 # lit ''... (truncated)''"

definition sanitize_result_text_field :: "rstr \<Rightarrow> rstr" where
  "sanitize_result_text_field s =
    (let sanitized = sanitize_text_field s in
     if length sanitized \<le> RESULT_TEXT_DB_LIMIT_CHARS then sanitized
     else take RESULT_TEXT_DB_LIMIT_CHARS sanitized @ truncation_mark)"

text \<open>The choke point every bound value passes: a NUL becomes the replacement character.\<close>

definition sanitize_nul_bytes :: "rstr \<Rightarrow> rstr" where
  "sanitize_nul_bytes s = map (\<lambda>c. if c = 0 then 65533 else c) s"

section \<open>The \<open>SET\<close> list\<close>

datatype col_set =
    SetStatus submission_status
  | SetJudgedAt
  | SetVerdict "rstr option"
  | SetScore f64
  | SetTimeUsed "i32 option"
  | SetMemoryUsed "i32 option"
  | SetCompileOutput "rstr option"
  | SetErrorCode "rstr option"
  | SetErrorMessage "rstr option"

definition push_double_opt :: "('a option \<Rightarrow> col_set) \<Rightarrow> 'a option option \<Rightarrow> col_set list" where
  "push_double_opt col v = (case v of None \<Rightarrow> [] | Some x \<Rightarrow> [col x])"

definition push_double_opt_str :: "(rstr option \<Rightarrow> col_set) \<Rightarrow> rstr option option \<Rightarrow> col_set list" where
  "push_double_opt_str col v =
    (case v of None \<Rightarrow> [] | Some x \<Rightarrow> [col (map_option (sanitize_nul_bytes \<circ> sanitize_result_text_field) x)])"

definition push_judge_sets :: "submission_update \<Rightarrow> col_set list" where
  "push_judge_sets u =
     (case u_status u of None \<Rightarrow> []
      | Some st \<Rightarrow> SetStatus st # (if submission_status_is_terminal st then [SetJudgedAt] else []))
   @ (case u_verdict u of Some (Some v) \<Rightarrow> [SetVerdict (Some (sanitize_nul_bytes (to_db_str v)))]
      | Some None \<Rightarrow> [SetVerdict None] | None \<Rightarrow> [])
   @ (case u_score u of Some sc \<Rightarrow> [SetScore (finite_or_zero sc)] | None \<Rightarrow> [])
   @ push_double_opt SetTimeUsed (u_time_used u)
   @ push_double_opt SetMemoryUsed (u_memory_used u)
   @ push_double_opt_str SetCompileOutput (u_compile_output u)
   @ push_double_opt_str SetErrorCode (u_error_code u)
   @ push_double_opt_str SetErrorMessage (u_error_message u)"

fun apply_set :: "col_set \<Rightarrow> result_cols \<Rightarrow> result_cols" where
  "apply_set (SetStatus st) c = c\<lparr>c_status := submission_status_host st\<rparr>"
| "apply_set SetJudgedAt c = c"
| "apply_set (SetVerdict v) c = c\<lparr>c_verdict := v\<rparr>"
| "apply_set (SetScore x) c = c\<lparr>c_score := Some x\<rparr>"
| "apply_set (SetTimeUsed x) c = c\<lparr>c_time_used := x\<rparr>"
| "apply_set (SetMemoryUsed x) c = c\<lparr>c_memory_used := x\<rparr>"
| "apply_set (SetCompileOutput x) c = c\<lparr>c_compile_output := x\<rparr>"
| "apply_set (SetErrorCode x) c = c\<lparr>c_error_code := x\<rparr>"
| "apply_set (SetErrorMessage x) c = c\<lparr>c_error_message := x\<rparr>"

definition apply_sets :: "col_set list \<Rightarrow> result_cols \<Rightarrow> result_cols" where
  "apply_sets sets c = fold apply_set sets c"

section \<open>Statements\<close>

type_synonym ('z, 'a) dbcall = "('z db_scheme, sdk_error, 'a) call"

text \<open>One statement on the pool: it fails with the next pending fault, or runs.\<close>

definition execute :: "('z db_scheme \<Rightarrow> nat \<times> 'z db_scheme) \<Rightarrow> ('z, nat) dbcall" where
  "execute stmt d =
    (case db_faults d of
       Some msg # rest \<Rightarrow> (Inl (Database msg), d\<lparr>db_faults := rest\<rparr>)
     | None # rest \<Rightarrow> (let (n, d') = stmt (d\<lparr>db_faults := rest\<rparr>) in (Inr n, d'))
     | [] \<Rightarrow> (let (n, d') = stmt d in (Inr n, d')))"

definition max_version :: "judgement_row list \<Rightarrow> i32 \<Rightarrow> i32 option" where
  "max_version js sid = opt_max (map j_version (filter (\<lambda>j. j_submission_id j = sid) js))"

definition judgement_update_matches :: "submission_update \<Rightarrow> judgement_row list \<Rightarrow> judgement_row \<Rightarrow> bool" where
  "judgement_update_matches u js j \<longleftrightarrow>
     j_id j = u_judgement_id u \<and> j_judge_epoch j = u_judge_epoch u \<and> \<not> j_is_finalized j \<and>
     (j_is_current j \<or> Some (j_version j) = max_version js (u_submission_id u))"

definition is_terminal_marker :: "submission_update \<Rightarrow> bool" where
  "is_terminal_marker u \<longleftrightarrow> u_status u = Some SJudged \<or> u_status u = Some SCompilationError"

definition update_judgement_row :: "submission_update \<Rightarrow> i64 \<Rightarrow> judgement_row \<Rightarrow> judgement_row" where
  "update_judgement_row u now j =
    (let j' = j\<lparr>j_cols := apply_sets (filter (\<lambda>c. c \<noteq> SetJudgedAt) (push_judge_sets u)) (j_cols j)\<rparr>
     in if is_terminal_marker u then j'\<lparr>j_is_finalized := True, j_finalized_at := Some now\<rparr> else j')"

definition update_judgements :: "submission_update \<Rightarrow> 'z db_scheme \<Rightarrow> nat \<times> 'z db_scheme" where
  "update_judgements u d =
    (let hit = judgement_update_matches u (db_judgements d) in
     (length (filter hit (db_judgements d)),
      d\<lparr>db_judgements := map (\<lambda>j. if hit j then update_judgement_row u (db_now d) j else j)
                            (db_judgements d)\<rparr>))"

definition submission_update_matches :: "submission_update \<Rightarrow> judgement_row list \<Rightarrow> submission_row \<Rightarrow> bool" where
  "submission_update_matches u js s \<longleftrightarrow>
     s_id s = u_submission_id u \<and> s_judge_epoch s = u_judge_epoch u \<and>
     \<not> host_status_is_terminal (c_status (s_cols s)) \<and>
     (\<exists>j \<in> set js. j_id j = u_judgement_id u \<and> j_submission_id j = s_id s \<and>
        j_judge_epoch j = s_judge_epoch s \<and> j_is_current j)"

definition update_submission_row :: "submission_update \<Rightarrow> i64 \<Rightarrow> submission_row \<Rightarrow> submission_row" where
  "update_submission_row u now s =
    (let sets = push_judge_sets u; s' = s\<lparr>s_cols := apply_sets sets (s_cols s)\<rparr>
     in if SetJudgedAt \<in> set sets then s'\<lparr>s_judged_at := Some now\<rparr> else s')"

definition update_submissions :: "submission_update \<Rightarrow> 'z db_scheme \<Rightarrow> nat \<times> 'z db_scheme" where
  "update_submissions u d =
    (let hit = submission_update_matches u (db_judgements d) in
     (length (filter hit (db_submissions d)),
      d\<lparr>db_submissions := map (\<lambda>s. if hit s then update_submission_row u (db_now d) s else s)
                             (db_submissions d)\<rparr>))"

section \<open>Host functions\<close>

text \<open>
  What crosses the plugin boundary as JSON: a verdict is written by \<open>Serialize\<close> and read by
  \<open>Deserialize\<close>, a score that is not finite becomes 0.
\<close>

definition wire_verdict :: "verdict \<Rightarrow> verdict" where
  "wire_verdict v = verdict_deserialize (verdict_display v)"

definition wire_update :: "submission_update \<Rightarrow> submission_update" where
  "wire_update u = u\<lparr>u_verdict := map_option (map_option wire_verdict) (u_verdict u),
                     u_score := map_option finite_or_zero (u_score u)\<rparr>"

definition host_submission_update :: "submission_update \<Rightarrow> ('z, nat) dbcall" where
  "host_submission_update u =
    (if push_judge_sets u = [] then hret 1
     else hbind (execute (update_judgements u)) (\<lambda>judgement_rows.
       if judgement_rows = 0 then hret 0
       else hbind (execute (update_submissions u)) (\<lambda>_. hret judgement_rows)))"

definition wire_row :: "tc_result_row \<Rightarrow> tc_result_row" where
  "wire_row r = r\<lparr>r_verdict := wire_verdict (r_verdict r), r_score := finite_or_zero (r_score r)\<rparr>"

text \<open>The row as stored: sanitized text columns, the verdict column as text.\<close>

definition stored_row :: "tc_result_row \<Rightarrow> stored_result" where
  "stored_row r =
    (let text = map_option (sanitize_nul_bytes \<circ> sanitize_result_text_field) in
     \<lparr>r_submission_id = r_submission_id r, r_judgement_id = r_judgement_id r,
      r_judge_epoch = r_judge_epoch r, r_test_case_id = r_test_case_id r, r_run_index = r_run_index r,
      r_verdict = sanitize_nul_bytes (to_db_str (r_verdict r)),
      r_score = finite_or_zero (r_score r), r_time_used = r_time_used r, r_memory_used = r_memory_used r,
      r_message = text (r_message r), r_stdout = text (r_stdout r), r_stderr = text (r_stderr r)\<rparr>)"

text \<open>The join of the inserted rows with the judgements that accept them.\<close>

definition row_accepted_by :: "tc_result_row \<Rightarrow> judgement_row \<Rightarrow> bool" where
  "row_accepted_by r j \<longleftrightarrow> j_id j = r_judgement_id r \<and> j_submission_id j = r_submission_id r \<and>
     j_judge_epoch j = r_judge_epoch r \<and> \<not> j_is_finalized j"

definition insert_rows :: "tc_result_row list \<Rightarrow> 'z db_scheme \<Rightarrow> nat \<times> 'z db_scheme" where
  "insert_rows rs d =
    (let new = concat (map (\<lambda>r. map (\<lambda>_. stored_row r) (filter (row_accepted_by r) (db_judgements d))) rs)
     in (length new, d\<lparr>db_results := db_results d @ new\<rparr>))"

definition host_insert_results :: "tc_result_row list \<Rightarrow> ('z, nat) dbcall" where
  "host_insert_results rs = (if rs = [] then hret 0 else execute (insert_rows rs))"

definition delete_rows :: "i32 \<Rightarrow> i32 \<Rightarrow> i32 \<Rightarrow> 'z db_scheme \<Rightarrow> nat \<times> 'z db_scheme" where
  "delete_rows sid jid ep d =
    (let hit = (\<lambda>r. r_submission_id r = sid \<and> r_judgement_id r = jid \<and> r_judge_epoch r = ep) in
     (length (filter hit (db_results d)), d\<lparr>db_results := filter (\<lambda>r. \<not> hit r) (db_results d)\<rparr>))"

section \<open>SDK wrappers\<close>

definition submission_update_call :: "submission_update \<Rightarrow> ('z, nat) dbcall" where
  "submission_update_call u =
    (if u_judgement_id u \<le> 0 then hthrow StaleEpoch else host_submission_update (wire_update u))"

definition set_compiling :: "i32 \<Rightarrow> i32 \<Rightarrow> i32 \<Rightarrow> ('z, nat) dbcall" where
  "set_compiling sid jid ep =
    submission_update_call ((submission_update_new sid jid ep)\<lparr>u_status := Some SCompiling\<rparr>)"

definition set_running :: "i32 \<Rightarrow> i32 \<Rightarrow> i32 \<Rightarrow> ('z, nat) dbcall" where
  "set_running sid jid ep =
    submission_update_call ((submission_update_new sid jid ep)\<lparr>u_status := Some SRunning\<rparr>)"

definition insert_results :: "tc_result_row list \<Rightarrow> ('z, unit) dbcall" where
  "insert_results rs =
    (if rs = [] then hret ()
     else if (\<exists>r \<in> set rs. r_judgement_id r \<le> 0) then hthrow StaleEpoch
     else hbind (host_insert_results (map wire_row rs)) (\<lambda>_. hret ()))"

definition delete_results :: "i32 \<Rightarrow> i32 \<Rightarrow> i32 \<Rightarrow> ('z, unit) dbcall" where
  "delete_results sid jid ep =
    (if jid \<le> 0 then hthrow StaleEpoch
     else hbind (execute (delete_rows sid jid ep)) (\<lambda>_. hret ()))"

section \<open>What the calls keep\<close>

lemma execute_cases [consumes 1, case_names fault ok]:
  assumes "execute stmt d = (r, d')"
  obtains (fault) msg rest where "db_faults d = Some msg # rest" "r = Inl (Database msg)"
      "d' = d\<lparr>db_faults := rest\<rparr>"
    | (ok) n rest where "stmt (d\<lparr>db_faults := rest\<rparr>) = (n, d')" "r = Inr n"
      "rest = tl (db_faults d)" "\<forall>msg. db_faults d = [] \<or> hd (db_faults d) \<noteq> Some msg"
proof (cases "db_faults d")
  case Nil
  then have "d\<lparr>db_faults := []\<rparr> = d" by (cases d) simp
  with Nil assms that(2) [of "[]" ] show ?thesis
    by (auto simp: execute_def split: prod.splits)
next
  case (Cons f rest)
  then show ?thesis using assms that
    by (cases f) (auto simp: execute_def split: prod.splits)
qed

lemma execute_no_fault:
  "db_faults d = [] \<Longrightarrow> execute stmt d = (Inr (fst (stmt d)), snd (stmt d))"
  by (auto simp: execute_def split: prod.splits)

lemma wire_verdict_id: "canonical_verdict v \<Longrightarrow> wire_verdict v = v"
  unfolding wire_verdict_def by (rule verdict_deserialize_display)

text \<open>
  The two order relations a judging run moves along: rows that are closed stay as they are.
\<close>

definition judgements_frozen :: "judgement_row list \<Rightarrow> judgement_row list \<Rightarrow> bool" where
  "judgements_frozen js js' \<longleftrightarrow> length js' = length js \<and>
     (\<forall>i < length js. j_is_finalized (js ! i) \<longrightarrow> js' ! i = js ! i)"

definition submissions_frozen :: "submission_row list \<Rightarrow> submission_row list \<Rightarrow> bool" where
  "submissions_frozen ss ss' \<longleftrightarrow> length ss' = length ss \<and>
     (\<forall>i < length ss. host_status_is_terminal (c_status (s_cols (ss ! i))) \<longrightarrow> ss' ! i = ss ! i)"

lemma judgements_frozen_refl [simp]: "judgements_frozen js js"
  by (simp add: judgements_frozen_def)

lemma judgements_frozen_trans:
  "judgements_frozen a b \<Longrightarrow> judgements_frozen b c \<Longrightarrow> judgements_frozen a c"
  by (simp add: judgements_frozen_def)

lemma submissions_frozen_refl [simp]: "submissions_frozen ss ss"
  by (simp add: submissions_frozen_def)

lemma submissions_frozen_trans:
  "submissions_frozen a b \<Longrightarrow> submissions_frozen b c \<Longrightarrow> submissions_frozen a c"
  by (simp add: submissions_frozen_def)

lemma update_judgements_frozen:
  "update_judgements u d = (n, d') \<Longrightarrow> judgements_frozen (db_judgements d) (db_judgements d')"
  by (auto simp: update_judgements_def Let_def judgements_frozen_def judgement_update_matches_def)

lemma update_judgements_keeps:
  "update_judgements u d = (n, d') \<Longrightarrow>
     db_submissions d' = db_submissions d \<and> db_results d' = db_results d \<and> db_faults d' = db_faults d"
  by (auto simp: update_judgements_def Let_def)

lemma update_submissions_frozen:
  "update_submissions u d = (n, d') \<Longrightarrow> submissions_frozen (db_submissions d) (db_submissions d')"
  by (auto simp: update_submissions_def Let_def submissions_frozen_def submission_update_matches_def)

lemma update_submissions_keeps:
  "update_submissions u d = (n, d') \<Longrightarrow>
     db_judgements d' = db_judgements d \<and> db_results d' = db_results d \<and> db_faults d' = db_faults d"
  by (auto simp: update_submissions_def Let_def)

lemma host_submission_update_frozen:
  assumes "host_submission_update u d = (r, d')"
  shows "judgements_frozen (db_judgements d) (db_judgements d') \<and>
    submissions_frozen (db_submissions d) (db_submissions d') \<and> db_results d' = db_results d"
proof (cases "push_judge_sets u = []")
  case True
  with assms show ?thesis by (auto simp: host_submission_update_def hret_def)
next
  case False
  obtain r1 d1 where ex: "execute (update_judgements u) d = (r1, d1)" by force
  then have one: "judgements_frozen (db_judgements d) (db_judgements d1) \<and>
      db_submissions d1 = db_submissions d \<and> db_results d1 = db_results d"
    by (cases rule: execute_cases)
      (auto dest: update_judgements_frozen update_judgements_keeps)
  show ?thesis
  proof (cases "\<exists>n. r1 = Inr n \<and> n \<noteq> 0")
    case False
    with ex one assms \<open>push_judge_sets u \<noteq> []\<close> show ?thesis
      by (cases r1) (auto simp: host_submission_update_def hbind_def hret_def)
  next
    case True
    then obtain n where n: "r1 = Inr n" "n \<noteq> 0" by blast
    obtain r2 d2 where ex2: "execute (update_submissions u) d1 = (r2, d2)" by force
    then have "submissions_frozen (db_submissions d1) (db_submissions d2) \<and>
        db_judgements d2 = db_judgements d1 \<and> db_results d2 = db_results d1"
      by (cases rule: execute_cases)
        (auto dest: update_submissions_frozen update_submissions_keeps)
    moreover have "d' = d2"
      using assms ex ex2 n \<open>push_judge_sets u \<noteq> []\<close>
      by (auto simp: host_submission_update_def hbind_def hret_def split: sum.splits)
    ultimately show ?thesis using one by simp
  qed
qed

lemma submission_update_call_frozen:
  assumes "submission_update_call u d = (r, d')"
  shows "judgements_frozen (db_judgements d) (db_judgements d') \<and>
    submissions_frozen (db_submissions d) (db_submissions d') \<and> db_results d' = db_results d"
  using assms host_submission_update_frozen
  by (auto simp: submission_update_call_def hthrow_def split: if_splits)

lemma insert_results_keeps:
  assumes "insert_results rs d = (r, d')"
  shows "db_judgements d' = db_judgements d \<and> db_submissions d' = db_submissions d"
proof (cases "rs = [] \<or> (\<exists>r \<in> set rs. r_judgement_id r \<le> 0)")
  case True
  with assms show ?thesis by (auto simp: insert_results_def hret_def hthrow_def split: if_splits)
next
  case False
  then obtain r1 where "execute (insert_rows (map wire_row rs)) d = (r1, d')"
    using assms by (cases "execute (insert_rows (map wire_row rs)) d")
      (auto simp: insert_results_def host_insert_results_def hbind_def hret_def split: sum.splits)
  then show ?thesis by (cases rule: execute_cases) (auto simp: insert_rows_def Let_def)
qed

lemma delete_results_keeps:
  assumes "delete_results sid jid ep d = (r, d')"
  shows "db_judgements d' = db_judgements d \<and> db_submissions d' = db_submissions d"
proof (cases "jid \<le> 0")
  case True
  with assms show ?thesis by (auto simp: delete_results_def hthrow_def)
next
  case False
  then obtain r1 where "execute (delete_rows sid jid ep) d = (r1, d')"
    using assms by (cases "execute (delete_rows sid jid ep) d")
      (auto simp: delete_results_def hbind_def hret_def split: sum.splits)
  then show ?thesis by (cases rule: execute_cases) (auto simp: delete_rows_def Let_def)
qed

section \<open>Any sequence of calls\<close>

text \<open>
  The calls of any number of judging runs, current and superseded, interleaved in any order.
\<close>

inductive store_step :: "'z db_scheme \<Rightarrow> 'z db_scheme \<Rightarrow> bool" where
  st_update: "submission_update_call u d = (r, d') \<Longrightarrow> store_step d d'"
| st_insert: "insert_results rs d = (r', d') \<Longrightarrow> store_step d d'"
| st_delete: "delete_results sid jid ep d = (r', d') \<Longrightarrow> store_step d d'"

lemma store_step_frozen:
  "store_step d d' \<Longrightarrow> judgements_frozen (db_judgements d) (db_judgements d') \<and>
     submissions_frozen (db_submissions d) (db_submissions d')"
proof (induction rule: store_step.induct)
  case (st_update u d r d')
  then show ?case using submission_update_call_frozen by blast
next
  case (st_insert rs d r' d')
  from insert_results_keeps [OF st_insert] show ?case by simp
next
  case (st_delete sid jid ep d r' d')
  from delete_results_keeps [OF st_delete] show ?case by simp
qed

lemma store_run_frozen:
  "store_step\<^sup>*\<^sup>* d d' \<Longrightarrow> judgements_frozen (db_judgements d) (db_judgements d') \<and>
     submissions_frozen (db_submissions d) (db_submissions d')"
proof (induction rule: rtranclp_induct)
  case (step y z)
  then show ?case
    using store_step_frozen judgements_frozen_trans submissions_frozen_trans by blast
qed simp

text \<open>
  A judgement that accepts no more updates: its rows are closed, or belong to another epoch.
\<close>

definition judgement_closed :: "'z db_scheme \<Rightarrow> i32 \<Rightarrow> i32 \<Rightarrow> bool" where
  "judgement_closed d jid ep \<longleftrightarrow>
     (\<forall>j \<in> set (db_judgements d). j_id j = jid \<longrightarrow> j_judge_epoch j \<noteq> ep \<or> j_is_finalized j)"

lemma update_judgements_closed:
  "judgement_closed d (u_judgement_id u) (u_judge_epoch u) \<Longrightarrow> update_judgements u d = (0, d)"
proof -
  assume c: "judgement_closed d (u_judgement_id u) (u_judge_epoch u)"
  then have no: "\<forall>j \<in> set (db_judgements d). \<not> judgement_update_matches u (db_judgements d) j"
    by (auto simp: judgement_closed_def judgement_update_matches_def)
  then have "filter (judgement_update_matches u (db_judgements d)) (db_judgements d) = []"
    by (simp add: filter_empty_conv)
  moreover have "map (\<lambda>j. if judgement_update_matches u (db_judgements d) j
      then update_judgement_row u (db_now d) j else j) (db_judgements d) = db_judgements d"
    using no by (simp add: map_idI)
  ultimately show ?thesis by (simp add: update_judgements_def Let_def)
qed

lemma submission_update_call_closed:
  assumes "judgement_closed d (u_judgement_id u) (u_judge_epoch u)"
    and "submission_update_call u d = (r, d')" and "push_judge_sets u \<noteq> []"
  shows "d' = d\<lparr>db_faults := db_faults d'\<rparr> \<and> (\<forall>n. r = Inr n \<longrightarrow> n = 0)"
proof (cases "u_judgement_id u \<le> 0")
  case True
  with assms show ?thesis by (auto simp: submission_update_call_def hthrow_def)
next
  case False
  have sets: "push_judge_sets (wire_update u) \<noteq> []"
    using assms(3) by (auto simp: push_judge_sets_def wire_update_def push_double_opt_def
        push_double_opt_str_def split: option.splits)
  obtain r1 d1 where ex: "execute (update_judgements (wire_update u)) d = (r1, d1)" by force
  have "d1 = d\<lparr>db_faults := db_faults d1\<rparr> \<and> (\<forall>n. r1 = Inr n \<longrightarrow> n = 0)"
    using ex
  proof (cases rule: execute_cases)
    case (fault msg rest)
    then show ?thesis by simp
  next
    case (ok n rest)
    have "judgement_closed (d\<lparr>db_faults := rest\<rparr>) (u_judgement_id (wire_update u))
        (u_judge_epoch (wire_update u))"
      using assms(1) by (simp add: judgement_closed_def wire_update_def)
    from update_judgements_closed [OF this] ok show ?thesis by auto
  qed
  with ex assms(2) False sets show ?thesis
    by (auto simp: submission_update_call_def host_submission_update_def hbind_def hret_def
        split: sum.splits)
qed

text \<open>
  An update that is not terminal leaves the identity and the open/closed flag of every
  judgement as it was, whatever the outcome of its two statements.
\<close>

definition judgement_key :: "judgement_row \<Rightarrow> i32 \<times> i32 \<times> i32 \<times> bool \<times> bool" where
  "judgement_key j = (j_id j, j_submission_id j, j_judge_epoch j, j_is_finalized j, j_is_current j)"

lemma update_judgements_key:
  "\<not> is_terminal_marker u \<Longrightarrow> update_judgements u d = (n, d') \<Longrightarrow>
     map judgement_key (db_judgements d') = map judgement_key (db_judgements d)"
  by (auto simp: update_judgements_def Let_def judgement_key_def update_judgement_row_def)

lemma submission_update_call_key:
  assumes "submission_update_call u d = (r, d')" and nt: "\<not> is_terminal_marker u"
  shows "map judgement_key (db_judgements d') = map judgement_key (db_judgements d)"
proof -
  let ?w = "wire_update u"
  have nt': "\<not> is_terminal_marker ?w" using nt by (simp add: is_terminal_marker_def wire_update_def)
  obtain r1 d1 where ex: "execute (update_judgements ?w) d = (r1, d1)" by force
  then have one: "map judgement_key (db_judgements d1) = map judgement_key (db_judgements d)"
    by (cases rule: execute_cases) (auto dest: update_judgements_key [OF nt'])
  obtain r2 d2 where ex2: "execute (update_submissions ?w) d1 = (r2, d2)" by force
  then have two: "db_judgements d2 = db_judgements d1"
    by (cases rule: execute_cases) (auto dest: update_submissions_keeps)
  have "d' \<in> {d, d1, d2}"
    using assms(1) ex ex2
    by (auto simp: submission_update_call_def host_submission_update_def hbind_def hret_def
        hthrow_def split: if_splits sum.splits)
  with one two show ?thesis by auto
qed

text \<open>
  Without faults, an update that addresses an open current judgement goes through and
  reports the rows it changed.
\<close>

lemma host_submission_update_no_fault:
  assumes "db_faults d = []" and "push_judge_sets u \<noteq> []"
    and "filter (judgement_update_matches u (db_judgements d)) (db_judgements d) \<noteq> []"
  shows "host_submission_update u d =
    (Inr (fst (update_judgements u d)), snd (update_submissions u (snd (update_judgements u d))))"
proof -
  have "fst (update_judgements u d) \<noteq> 0"
    using assms(3) by (simp add: update_judgements_def Let_def)
  moreover have "db_faults (snd (update_judgements u d)) = []"
    using assms(1) by (simp add: update_judgements_def Let_def)
  ultimately show ?thesis using assms(1,2)
    by (simp add: host_submission_update_def hbind_def hret_def execute_no_fault)
qed

lemma submission_update_call_no_fault:
  assumes "db_faults d = []" and "push_judge_sets (wire_update u) \<noteq> []" and "0 < u_judgement_id u"
    and "j \<in> set (db_judgements d)" and "judgement_update_matches u (db_judgements d) j"
  shows "\<exists>n d'. submission_update_call u d = (Inr n, d') \<and> 0 < n \<and> db_faults d' = [] \<and>
    d' = snd (update_submissions (wire_update u) (snd (update_judgements (wire_update u) d)))"
proof -
  have "judgement_update_matches (wire_update u) (db_judgements d) j"
    using assms(5) by (simp add: judgement_update_matches_def wire_update_def)
  with assms(4) have ne: "filter (judgement_update_matches (wire_update u) (db_judgements d))
      (db_judgements d) \<noteq> []"
    by (auto simp: filter_empty_conv)
  with host_submission_update_no_fault [OF assms(1,2) ne] assms(1,3) show ?thesis
    by (simp add: submission_update_call_def update_judgements_def update_submissions_def Let_def)
qed

end
