(* ===== verification/Detached.thy ===== *)
theory Detached
  imports SubmissionStore
begin

text \<open>
  The shared driver of a judging session, \<open>server-sdk/src/evaluator/detached.rs\<close>. The host
  streams one result per callback; the driver records it, asks the contest type's policy
  (the trait \<open>ContestJudge\<close>, here the record \<open>judge_ops\<close>) how to go on, and replies. The
  session state \<open>det_eval\<close> crosses the plugin boundary as JSON between callbacks.
\<close>

section \<open>Requests, cases and outcomes\<close>

record source_file =
  filename :: rstr
  content :: rstr

datatype body_ref = Inline rstr | Blob rstr | Missing

record test_case_row =
  tc_id :: i32
  tc_score :: f64
  tc_is_sample :: bool
  tc_position :: i32
  tc_description :: "rstr option"
  tc_label :: "rstr option"
  tc_input :: body_ref
  tc_expected_output :: body_ref
  tc_is_custom :: bool

record on_submission_input =
  os_submission_id :: i32
  os_judgement_id :: i32
  os_fire_after_judging :: bool
  os_user_id :: i32
  os_problem_id :: i32
  os_contest_id :: "i32 option"
  os_files :: "source_file list"
  os_language :: rstr
  os_time_limit_ms :: i32
  os_memory_limit_kb :: i32
  os_problem_type :: rstr
  os_test_cases :: "test_case_row list"
  os_judge_epoch :: i32
  os_target_worker_id :: "rstr option"

record on_submission_output =
  out_success :: bool
  out_error_message :: "rstr option"

record start_evaluate_case =
  ec_problem_id :: i32
  ec_test_case_id :: i32
  ec_solution_source :: "source_file list"
  ec_solution_language :: rstr
  ec_time_limit_ms :: i32
  ec_memory_limit_kb :: i32
  ec_contest_id :: "i32 option"
  ec_input :: body_ref
  ec_expected_output :: body_ref
  ec_is_custom :: bool
  ec_target_worker_id :: "rstr option"

record start_evaluate_batch =
  eb_problem_type :: rstr
  eb_test_cases :: "start_evaluate_case list"

record test_case_verdict =
  tv_test_case_id :: i32
  tv_verdict :: verdict
  tv_score :: f64
  tv_time_used_ms :: "i64 option"
  tv_memory_used_kb :: "i64 option"
  tv_message :: "rstr option"
  tv_stdout :: "rstr option"
  tv_stderr :: "rstr option"

record case_outcome =
  co_test_case_id :: i32
  co_verdict :: verdict
  co_score :: f64
  co_time_used :: "i32 option"
  co_memory_used :: "i32 option"
  co_message :: "rstr option"
  co_stdout :: "rstr option"
  co_stderr :: "rstr option"

definition clamp_i32 :: "i64 \<Rightarrow> i32" where
  "clamp_i32 v = clamp_int 0 I32_MAX v"

definition outcome_from_verdict :: "test_case_verdict \<Rightarrow> f64 \<Rightarrow> case_outcome" where
  "outcome_from_verdict v score =
    \<lparr>co_test_case_id = tv_test_case_id v, co_verdict = tv_verdict v, co_score = score,
     co_time_used = map_option clamp_i32 (tv_time_used_ms v),
     co_memory_used = map_option clamp_i32 (tv_memory_used_kb v),
     co_message = tv_message v, co_stdout = tv_stdout v, co_stderr = tv_stderr v\<rparr>"

definition outcome_filled :: "i32 \<Rightarrow> verdict \<Rightarrow> rstr \<Rightarrow> case_outcome" where
  "outcome_filled tcid v message =
    \<lparr>co_test_case_id = tcid, co_verdict = v, co_score = f64_zero, co_time_used = None,
     co_memory_used = None, co_message = Some message, co_stdout = None, co_stderr = None\<rparr>"

record judged_submission =
  js_submission_id :: i32
  js_judgement_id :: i32
  js_judge_epoch :: i32
  js_fire_after_judging :: bool
  js_user_id :: i32
  js_problem_id :: i32
  js_contest_id :: "i32 option"
  js_language :: rstr
  js_time_limit_ms :: i32
  js_memory_limit_kb :: i32
  js_problem_type :: rstr
  js_target_worker_id :: "rstr option"

definition judged_submission_from :: "on_submission_input \<Rightarrow> judged_submission" where
  "judged_submission_from r =
    \<lparr>js_submission_id = os_submission_id r, js_judgement_id = os_judgement_id r,
     js_judge_epoch = os_judge_epoch r, js_fire_after_judging = os_fire_after_judging r,
     js_user_id = os_user_id r, js_problem_id = os_problem_id r, js_contest_id = os_contest_id r,
     js_language = os_language r, js_time_limit_ms = os_time_limit_ms r,
     js_memory_limit_kb = os_memory_limit_kb r, js_problem_type = os_problem_type r,
     js_target_worker_id = os_target_worker_id r\<rparr>"

record scoring_case =
  sc_id :: i32
  sc_score :: f64
  sc_is_sample :: bool
  sc_position :: i32
  sc_description :: "rstr option"
  sc_label :: "rstr option"
  sc_is_custom :: bool

definition scoring_case_from :: "test_case_row \<Rightarrow> scoring_case" where
  "scoring_case_from tc =
    \<lparr>sc_id = tc_id tc, sc_score = tc_score tc, sc_is_sample = tc_is_sample tc,
     sc_position = tc_position tc, sc_description = tc_description tc, sc_label = tc_label tc,
     sc_is_custom = tc_is_custom tc\<rparr>"

definition build_eval_batch_input :: "on_submission_input \<Rightarrow> test_case_row list \<Rightarrow> start_evaluate_batch" where
  "build_eval_batch_input r tcs =
    \<lparr>eb_problem_type = os_problem_type r,
     eb_test_cases = map (\<lambda>tc.
       \<lparr>ec_problem_id = os_problem_id r, ec_test_case_id = tc_id tc,
        ec_solution_source = os_files r, ec_solution_language = os_language r,
        ec_time_limit_ms = os_time_limit_ms r, ec_memory_limit_kb = os_memory_limit_kb r,
        ec_contest_id = os_contest_id r, ec_input = tc_input tc,
        ec_expected_output = tc_expected_output tc, ec_is_custom = tc_is_custom tc,
        ec_target_worker_id = os_target_worker_id r\<rparr>) tcs\<rparr>"

definition sanitize_optional_text :: "rstr option \<Rightarrow> rstr option" where
  "sanitize_optional_text v = map_option sanitize_result_text_field v"

definition build_tc_row ::
  "judged_submission \<Rightarrow> case_outcome \<Rightarrow> f64 \<Rightarrow> scoring_case option \<Rightarrow> tc_result_row" where
  "build_tc_row req outcome score tc =
    (let is_custom = (case tc of Some t \<Rightarrow> sc_is_custom t | None \<Rightarrow> False) in
     \<lparr>r_submission_id = js_submission_id req, r_judgement_id = js_judgement_id req,
      r_judge_epoch = js_judge_epoch req,
      r_test_case_id = (if is_custom then None else Some (co_test_case_id outcome)),
      r_run_index = (if is_custom then Some (co_test_case_id outcome) else None),
      r_verdict = co_verdict outcome, r_score = score, r_time_used = co_time_used outcome,
      r_memory_used = co_memory_used outcome,
      r_message = sanitize_optional_text (co_message outcome),
      r_stdout = sanitize_optional_text (co_stdout outcome),
      r_stderr = sanitize_optional_text (co_stderr outcome)\<rparr>)"

section \<open>Policies and session state\<close>

definition SKIPPED_SHORT_CIRCUIT :: rstr where
  "SKIPPED_SHORT_CIRCUIT = lit ''SKIPPED_SHORT_CIRCUIT''"
definition EVALUATION_TIMEOUT :: rstr where
  "EVALUATION_TIMEOUT = lit ''EVALUATION_TIMEOUT''"
definition BATCH_START_FAILED :: rstr where
  "BATCH_START_FAILED = lit ''BATCH_START_FAILED''"
definition EVALUATION_PERSIST_FAILED :: rstr where
  "EVALUATION_PERSIST_FAILED = lit ''EVALUATION_PERSIST_FAILED''"

record judge_progress =
  pr_submission :: judged_submission
  pr_scoring_cases :: "scoring_case list"
  pr_outcomes :: "case_outcome list"
  pr_last :: "case_outcome option"
  pr_recorded_ids :: "i32 set"

definition progress_all_recorded :: "judge_progress \<Rightarrow> bool" where
  "progress_all_recorded p \<longleftrightarrow> (\<forall>tc \<in> set (pr_scoring_cases p). sc_id tc \<in> pr_recorded_ids p)"

datatype judge_step = Continue | Cancel "i32 list" | Finish "(verdict \<times> rstr) option"

definition short_circuit :: judge_step where
  "short_circuit = Finish (Some (Skipped, SKIPPED_SHORT_CIRCUIT))"

record ('p, 'z) judge_ops =
  jo_score :: "'p \<Rightarrow> test_case_verdict \<Rightarrow> case_outcome"
  jo_db_score :: "'p \<Rightarrow> case_outcome \<Rightarrow> scoring_case \<Rightarrow> f64"
  jo_next_step :: "'p \<Rightarrow> judge_progress \<Rightarrow> judge_step \<times> 'p"
  jo_finalize :: "'p \<Rightarrow> judge_progress \<Rightarrow> ('z, unit) dbcall"

text \<open>The trait's default \<open>db_score\<close>: the outcome's own score.\<close>

definition default_db_score :: "'p \<Rightarrow> case_outcome \<Rightarrow> scoring_case \<Rightarrow> f64" where
  "default_db_score p outcome tc = co_score outcome"

record 'p det_eval =
  de_request :: judged_submission
  de_scoring_cases :: "scoring_case list"
  de_outcomes :: "case_outcome list"
  de_recorded_ids :: "i32 set"
  de_marked_running :: bool
  de_policy :: 'p

text \<open>
  The state as JSON. Writing it cannot fail; reading it back parses the verdict names again
  and fails on a score that JSON could not represent.
\<close>

definition state_from_value :: "'p det_eval \<Rightarrow> sdk_error + 'p det_eval" where
  "state_from_value st =
    (if (\<forall>oc \<in> set (de_outcomes st). f64_is_finite (co_score oc)) \<and>
        (\<forall>tc \<in> set (de_scoring_cases st). f64_is_finite (sc_score tc))
     then Inr (st\<lparr>de_outcomes := map (\<lambda>oc. oc\<lparr>co_verdict := wire_verdict (co_verdict oc)\<rparr>) (de_outcomes st)\<rparr>)
     else Inl (Serialization []))"

datatype callback_action = ActContinue | ActFinish | ActCancel

record 'p callback_output =
  cb_state :: "'p det_eval"
  cb_action :: callback_action
  cb_refill :: bool
  cb_cancel_ids :: "i32 list"

definition cb_continue_with :: "'p det_eval \<Rightarrow> 'p callback_output" where
  "cb_continue_with st = \<lparr>cb_state = st, cb_action = ActContinue, cb_refill = True, cb_cancel_ids = []\<rparr>"

definition cb_finish :: "'p det_eval \<Rightarrow> 'p callback_output" where
  "cb_finish st = \<lparr>cb_state = st, cb_action = ActFinish, cb_refill = False, cb_cancel_ids = []\<rparr>"

definition cb_cancel :: "'p det_eval \<Rightarrow> 'p callback_output" where
  "cb_cancel st = \<lparr>cb_state = st, cb_action = ActCancel, cb_refill = False, cb_cancel_ids = []\<rparr>"

datatype callback_event = EvResult test_case_verdict | EvTimeout rstr | EvExhausted

section \<open>The driver\<close>

text \<open>
  A method of \<open>DetachedEval\<close> takes \<open>&mut self\<close> and the host: a call over the pair of the
  session state and the database. An error keeps what was changed before it, in both.
\<close>

type_synonym ('p, 'z, 'a) detcall = "('p det_eval \<times> 'z db_scheme, sdk_error, 'a) call"

definition on_db :: "('z, 'a) dbcall \<Rightarrow> ('p, 'z, 'a) detcall" where
  [host_simps]: "on_db c = (\<lambda>(st, d). (fst (c d), (st, snd (c d))))"

definition with_state :: "('p det_eval \<Rightarrow> ('p, 'z, 'a) detcall) \<Rightarrow> ('p, 'z, 'a) detcall" where
  [host_simps]: "with_state f = (\<lambda>(st, d). f st (st, d))"

definition set_state :: "('p det_eval \<Rightarrow> 'p det_eval) \<Rightarrow> ('p, 'z, unit) detcall" where
  [host_simps]: "set_state g = (\<lambda>(st, d). (Inr (), (g st, d)))"

definition progress_of :: "'p det_eval \<Rightarrow> case_outcome option \<Rightarrow> judge_progress" where
  "progress_of st latest =
    \<lparr>pr_submission = de_request st, pr_scoring_cases = de_scoring_cases st,
     pr_outcomes = de_outcomes st, pr_last = latest, pr_recorded_ids = de_recorded_ids st\<rparr>"

definition all_recorded :: "'p det_eval \<Rightarrow> bool" where
  "all_recorded st \<longleftrightarrow> (\<forall>tc \<in> set (de_scoring_cases st). sc_id tc \<in> de_recorded_ids st)"

definition any_unrecorded :: "'p det_eval \<Rightarrow> bool" where
  "any_unrecorded st \<longleftrightarrow> (\<exists>tc \<in> set (de_scoring_cases st). sc_id tc \<notin> de_recorded_ids st)"

definition find_case :: "'p det_eval \<Rightarrow> i32 \<Rightarrow> scoring_case option" where
  "find_case st i = List.find (\<lambda>tc. sc_id tc = i) (de_scoring_cases st)"

definition outcome_row :: "('p, 'z) judge_ops \<Rightarrow> 'p det_eval \<Rightarrow> case_outcome \<Rightarrow> tc_result_row" where
  "outcome_row J st outcome =
    (let tc = find_case st (co_test_case_id outcome);
         score = (case tc of Some t \<Rightarrow> jo_db_score J (de_policy st) outcome t | None \<Rightarrow> f64_zero)
     in build_tc_row (de_request st) outcome score tc)"

definition retain_outcome :: "case_outcome \<Rightarrow> 'p det_eval \<Rightarrow> 'p det_eval" where
  "retain_outcome outcome st =
    st\<lparr>de_recorded_ids := insert (co_test_case_id outcome) (de_recorded_ids st),
       de_outcomes := de_outcomes st @ [outcome\<lparr>co_stdout := None, co_stderr := None\<rparr>]\<rparr>"

definition det_record :: "('p, 'z) judge_ops \<Rightarrow> case_outcome \<Rightarrow> ('p, 'z, unit) detcall" where
  "det_record J outcome =
    with_state (\<lambda>st. hbind (on_db (insert_results [outcome_row J st outcome]))
      (\<lambda>_. set_state (retain_outcome outcome)))"

definition unrecorded_ids :: "'p det_eval \<Rightarrow> i32 list" where
  "unrecorded_ids st = filter (\<lambda>i. i \<notin> de_recorded_ids st) (map sc_id (de_scoring_cases st))"

definition fill_unrecorded :: "('p, 'z) judge_ops \<Rightarrow> verdict \<Rightarrow> rstr \<Rightarrow> ('p, 'z, unit) detcall" where
  "fill_unrecorded J v message =
    with_state (\<lambda>st. hmapM (\<lambda>i. det_record J (outcome_filled i v message)) (unrecorded_ids st))"

definition det_finalize :: "('p, 'z) judge_ops \<Rightarrow> ('p, 'z, unit) detcall" where
  "det_finalize J = with_state (\<lambda>st. on_db (jo_finalize J (de_policy st) (progress_of st None)))"

definition continue_or_finish ::
  "('p, 'z) judge_ops \<Rightarrow> i32 list \<Rightarrow> ('p, 'z, 'p callback_output) detcall" where
  "continue_or_finish J cancel_ids =
    with_state (\<lambda>st.
      if all_recorded st
      then hbind (det_finalize J) (\<lambda>_. with_state (\<lambda>st'. hret (cb_finish st')))
      else hret ((cb_continue_with st)\<lparr>cb_refill := any_unrecorded st, cb_cancel_ids := cancel_ids\<rparr>))"

definition mark_running :: "('p, 'z, unit) detcall" where
  "mark_running =
    with_state (\<lambda>st.
      if de_marked_running st then hret ()
      else hbind (on_db (set_running (js_submission_id (de_request st))
                   (js_judgement_id (de_request st)) (js_judge_epoch (de_request st))))
        (\<lambda>affected. if affected = 0 then hthrow StaleEpoch
                    else set_state (\<lambda>st. st\<lparr>de_marked_running := True\<rparr>)))"

definition policy_step :: "('p, 'z) judge_ops \<Rightarrow> ('p, 'z, judge_step) detcall" where
  "policy_step J =
    with_state (\<lambda>st.
      let (step, p') = jo_next_step J (de_policy st)
            (progress_of st (if de_outcomes st = [] then None else Some (last (de_outcomes st))))
      in hbind (set_state (\<lambda>st. st\<lparr>de_policy := p'\<rparr>)) (\<lambda>_. hret step))"

definition apply_step :: "('p, 'z) judge_ops \<Rightarrow> judge_step \<Rightarrow> ('p, 'z, 'p callback_output) detcall" where
  "apply_step J step =
    (case step of
       Continue \<Rightarrow> continue_or_finish J []
     | Cancel ids \<Rightarrow>
         hbind (hmapM (\<lambda>i. det_record J (outcome_filled i Skipped SKIPPED_SHORT_CIRCUIT)) ids)
           (\<lambda>_. continue_or_finish J ids)
     | Finish fill \<Rightarrow>
         hbind (case fill of Some (v, message) \<Rightarrow> fill_unrecorded J v message | None \<Rightarrow> hret ())
           (\<lambda>_. hbind (det_finalize J) (\<lambda>_. with_state (\<lambda>st. hret (cb_finish st)))))"

definition on_result :: "('p, 'z) judge_ops \<Rightarrow> test_case_verdict \<Rightarrow> ('p, 'z, 'p callback_output) detcall" where
  "on_result J result =
    with_state (\<lambda>st.
      if tv_test_case_id result \<in> de_recorded_ids st
      then hret ((cb_continue_with st)\<lparr>cb_refill := any_unrecorded st\<rparr>)
      else
        (let outcome = jo_score J (de_policy st) result in
         if co_verdict outcome = CompileError
         then hbind (det_record J outcome)
           (\<lambda>_. hbind (fill_unrecorded J Skipped SKIPPED_SHORT_CIRCUIT)
             (\<lambda>_. hbind (det_finalize J) (\<lambda>_. with_state (\<lambda>st. hret (cb_finish st)))))
         else hbind mark_running
           (\<lambda>_. hbind (det_record J outcome)
             (\<lambda>_. hbind (policy_step J) (apply_step J)))))"

text \<open>\<open>handle_callback\<close>: the state comes from the host; only the reply carries it back.\<close>

definition handle_callback ::
  "('p, 'z) judge_ops \<Rightarrow> 'p det_eval \<Rightarrow> callback_event \<Rightarrow> ('z, 'p callback_output) dbcall" where
  "handle_callback J value ev d =
    (case state_from_value value of
       Inl e \<Rightarrow> (Inl e, d)
     | Inr st \<Rightarrow>
         (let (r, (st', d')) =
            (case ev of
               EvResult result \<Rightarrow> on_result J result (st, d)
             | _ \<Rightarrow> hbind (fill_unrecorded J SystemError EVALUATION_TIMEOUT)
                     (\<lambda>_. hbind (det_finalize J) (\<lambda>_. with_state (\<lambda>st. hret (cb_cancel st)))) (st, d))
          in (r, d')))"

definition recover :: "('p, 'z) judge_ops \<Rightarrow> 'p det_eval \<Rightarrow> 'z db_scheme \<Rightarrow> 'z db_scheme" where
  "recover J value d =
    (case state_from_value value of
       Inl _ \<Rightarrow> d
     | Inr st \<Rightarrow>
         snd (snd (hbind (hignore (fill_unrecorded J SystemError EVALUATION_PERSIST_FAILED))
           (\<lambda>_. hignore (det_finalize J)) (st, d))))"

text \<open>
  \<open>start\<close>. The host's evaluate service is the parameter \<open>start_detached\<close> (batch, window,
  time limit, state); \<open>debug\<close> renders its error into the message.
\<close>

definition det_start ::
  "('p, 'z) judge_ops \<Rightarrow>
   (start_evaluate_batch \<Rightarrow> nat \<Rightarrow> i32 \<Rightarrow> 'p det_eval \<Rightarrow> ('z, unit) dbcall) \<Rightarrow> (sdk_error \<Rightarrow> rstr) \<Rightarrow>
   on_submission_input \<Rightarrow> test_case_row list \<Rightarrow> 'p \<Rightarrow> nat \<Rightarrow> ('z, unit) dbcall" where
  "det_start J start_detached debug request scoring_cases policy concurrency =
    hbind (hignore (delete_results (os_submission_id request) (os_judgement_id request)
                      (os_judge_epoch request)))
     (\<lambda>_. hbind (set_compiling (os_submission_id request) (os_judgement_id request)
                      (os_judge_epoch request))
      (\<lambda>affected.
        if affected = 0 then hthrow StaleEpoch
        else (\<lambda>d.
          let st = \<lparr>de_request = judged_submission_from request,
                    de_scoring_cases = map scoring_case_from scoring_cases, de_outcomes = [],
                    de_recorded_ids = {}, de_marked_running = False, de_policy = policy\<rparr>
          in case start_detached (build_eval_batch_input request scoring_cases) concurrency
                    (os_time_limit_ms request) st d of
               (Inr _, d') \<Rightarrow> (Inr (), d')
             | (Inl e, d') \<Rightarrow>
                 (let (r, (_, d'')) =
                    hbind (fill_unrecorded J SystemError
                             (BATCH_START_FAILED @ lit '': '' @ debug e))
                      (\<lambda>_. det_finalize J) (st, d')
                  in (r, d'')))))"

lemma on_result_compile_error:
  assumes "tv_test_case_id result \<notin> de_recorded_ids st" and "oc = jo_score J (de_policy st) result"
    and "co_verdict oc = CompileError"
  shows "on_result J result (st, d) =
    hbind (det_record J oc) (\<lambda>_. hbind (fill_unrecorded J Skipped SKIPPED_SHORT_CIRCUIT)
      (\<lambda>_. hbind (det_finalize J) (\<lambda>_. with_state (\<lambda>st. hret (cb_finish st))))) (st, d)"
  using assms by (simp add: on_result_def with_state_def [of "\<lambda>st. if _ st then _ st else _ st"] Let_def)

lemma on_result_run:
  assumes "tv_test_case_id result \<notin> de_recorded_ids st" and "oc = jo_score J (de_policy st) result"
    and "co_verdict oc \<noteq> CompileError"
  shows "on_result J result (st, d) =
    hbind mark_running (\<lambda>_. hbind (det_record J oc) (\<lambda>_. hbind (policy_step J) (apply_step J))) (st, d)"
  using assms by (simp add: on_result_def with_state_def [of "\<lambda>st. if _ st then _ st else _ st"] Let_def)

section \<open>Rows of a session\<close>

lemma any_unrecorded_eq [simp]: "any_unrecorded st \<longleftrightarrow> \<not> all_recorded st"
  by (auto simp: any_unrecorded_def all_recorded_def)

definition case_key :: "'v tc_result \<Rightarrow> i32" where
  "case_key r = (case r_test_case_id r of Some i \<Rightarrow> i | None \<Rightarrow> (case r_run_index r of Some i \<Rightarrow> i | None \<Rightarrow> 0))"

definition row_of_session :: "judged_submission \<Rightarrow> 'v tc_result \<Rightarrow> bool" where
  "row_of_session req r \<longleftrightarrow> r_submission_id r = js_submission_id req \<and>
     r_judgement_id r = js_judgement_id req \<and> r_judge_epoch r = js_judge_epoch req"

definition session_rows :: "'z db_scheme \<Rightarrow> judged_submission \<Rightarrow> stored_result list" where
  "session_rows d req = filter (row_of_session req) (db_results d)"

text \<open>The judgement this session writes for exists once, in its epoch, and is still open.\<close>

definition judgement_open :: "judgement_row list \<Rightarrow> judged_submission \<Rightarrow> bool" where
  "judgement_open js req \<longleftrightarrow>
     length (filter (\<lambda>j. j_id j = js_judgement_id req \<and> j_submission_id j = js_submission_id req \<and>
       j_judge_epoch j = js_judge_epoch req \<and> \<not> j_is_finalized j) js) = 1"

lemma judgement_open_alt:
  "judgement_open js req \<longleftrightarrow> length (filter (\<lambda>k. fst k = js_judgement_id req \<and>
     fst (snd k) = js_submission_id req \<and> fst (snd (snd k)) = js_judge_epoch req \<and>
     \<not> fst (snd (snd (snd k)))) (map judgement_key js)) = 1"
  by (simp add: judgement_open_def filter_map comp_def judgement_key_def)

lemma judgement_open_cong:
  "map judgement_key js' = map judgement_key js \<Longrightarrow> judgement_open js' req = judgement_open js req"
  by (simp only: judgement_open_alt)

text \<open>The judgement is open and current, so the epoch guards of the host let its updates pass.\<close>

definition judgement_live :: "judgement_row list \<Rightarrow> judged_submission \<Rightarrow> bool" where
  "judgement_live js req \<longleftrightarrow> 0 < js_judgement_id req \<and> judgement_open js req \<and>
     length (filter (\<lambda>k. fst k = js_judgement_id req) (map judgement_key js)) = 1 \<and>
     (js_judgement_id req, js_submission_id req, js_judge_epoch req, False, True) \<in> set (map judgement_key js)"

text \<open>The judgement takes no further update of its session.\<close>

definition sealed :: "'z db_scheme \<Rightarrow> judged_submission \<Rightarrow> bool" where
  "sealed d req \<longleftrightarrow> judgement_closed d (js_judgement_id req) (js_judge_epoch req)"

lemma judgement_live_open: "judgement_live js req \<Longrightarrow> judgement_open js req"
  by (simp add: judgement_live_def)

lemma judgement_live_cong:
  "map judgement_key js' = map judgement_key js \<Longrightarrow> judgement_live js' req = judgement_live js req"
  unfolding judgement_live_def by (simp only: judgement_open_cong [of js' js req])

lemma judgement_live_matches:
  assumes "judgement_live js req" and "u_judgement_id u = js_judgement_id req"
    and "u_judge_epoch u = js_judge_epoch req"
  obtains j where "j \<in> set js" "judgement_update_matches u js j"
  using assms by (auto simp: judgement_live_def judgement_key_def judgement_update_matches_def)

definition outcome_ids :: "'p det_eval \<Rightarrow> i32 list" where
  "outcome_ids st = map co_test_case_id (de_outcomes st)"

text \<open>
  What a session keeps between callbacks: the recorded ids are the ids of the retained
  outcomes, no case is recorded twice, no retained outcome carries program output, and the
  database holds exactly one row per recorded case, in record order.
\<close>

definition session_inv :: "'p det_eval \<Rightarrow> 'z db_scheme \<Rightarrow> bool" where
  "session_inv st d \<longleftrightarrow>
     distinct (map sc_id (de_scoring_cases st)) \<and>
     de_recorded_ids st = set (outcome_ids st) \<and> distinct (outcome_ids st) \<and>
     (\<forall>oc \<in> set (de_outcomes st). co_stdout oc = None \<and> co_stderr oc = None) \<and>
     map case_key (session_rows d (de_request st)) = outcome_ids st"

lemma case_key_build_tc_row [simp]: "case_key (build_tc_row req oc sc tc) = co_test_case_id oc"
  by (auto simp: case_key_def build_tc_row_def Let_def split: option.splits)

lemma case_key_stored [simp]: "case_key (stored_row r) = case_key r" "case_key (wire_row r) = case_key r"
  by (auto simp: case_key_def stored_row_def wire_row_def Let_def split: option.splits)

lemma row_of_session_stored [simp]:
  "row_of_session req (stored_row r) = row_of_session req r"
  "row_of_session req (wire_row r) = row_of_session req r"
  by (simp_all add: row_of_session_def stored_row_def wire_row_def Let_def)

lemma row_of_session_build [simp]: "row_of_session req (build_tc_row req oc sc tc)"
  by (simp add: row_of_session_def build_tc_row_def Let_def)

lemma insert_results_single:
  assumes "insert_results [r] d = (Inr (), d')" and "row_of_session req r"
    and "judgement_open (db_judgements d) req"
  shows "db_results d' = db_results d @ [stored_row (wire_row r)] \<and>
    db_judgements d' = db_judgements d \<and> db_submissions d' = db_submissions d"
proof -
  from assms(1) have pos: "\<not> r_judgement_id r \<le> 0"
    by (auto simp: insert_results_def hthrow_def split: if_splits)
  with assms(1) obtain n where "execute (insert_rows [wire_row r]) d = (Inr n, d')"
    by (cases "execute (insert_rows [wire_row r]) d")
      (auto simp: insert_results_def host_insert_results_def hbind_def hret_def split: sum.splits)
  then obtain rest where ins: "insert_rows [wire_row r] (d\<lparr>db_faults := rest\<rparr>) = (n, d')"
    by (cases rule: execute_cases) auto
  have "row_accepted_by (wire_row r) = (\<lambda>j. j_id j = js_judgement_id req \<and>
      j_submission_id j = js_submission_id req \<and> j_judge_epoch j = js_judge_epoch req \<and> \<not> j_is_finalized j)"
    using assms(2) by (auto simp: fun_eq_iff row_accepted_by_def wire_row_def row_of_session_def)
  with assms(3) have "length (filter (row_accepted_by (wire_row r)) (db_judgements d)) = 1"
    by (simp add: judgement_open_def)
  then obtain j where "filter (row_accepted_by (wire_row r)) (db_judgements d) = [j]"
    by (cases "filter (row_accepted_by (wire_row r)) (db_judgements d)") auto
  with ins show ?thesis by (auto simp: insert_rows_def Let_def)
qed

lemma det_record_ok:
  assumes rec: "det_record J oc (st, d) = (Inr (), (st', d'))"
    and inv: "session_inv st d" and opn: "judgement_open (db_judgements d) (de_request st)"
    and fresh: "co_test_case_id oc \<notin> de_recorded_ids st"
  shows "session_inv st' d' \<and> st' = retain_outcome oc st \<and> db_judgements d' = db_judgements d"
proof -
  from rec have ins: "insert_results [outcome_row J st oc] d = (Inr (), d')"
    and st': "st' = retain_outcome oc st"
    by (auto simp: det_record_def with_state_def on_db_def hbind_def set_state_def
        split: sum.splits prod.splits) (metis prod.collapse)+
  have sess: "row_of_session (de_request st) (outcome_row J st oc)"
    by (simp add: outcome_row_def Let_def)
  from insert_results_single [OF ins sess opn]
  have rows: "session_rows d' (de_request st) =
      session_rows d (de_request st) @ [stored_row (wire_row (outcome_row J st oc))]"
    and "db_judgements d' = db_judgements d"
    using sess by (simp_all add: session_rows_def)
  moreover have "case_key (outcome_row J st oc) = co_test_case_id oc"
    by (simp add: outcome_row_def Let_def)
  ultimately show ?thesis using inv fresh st'
    by (auto simp: session_inv_def retain_outcome_def outcome_ids_def)
qed

definition retain_all :: "case_outcome list \<Rightarrow> 'p det_eval \<Rightarrow> 'p det_eval" where
  "retain_all ocs st = fold retain_outcome ocs st"

lemma retain_outcome_simps [simp]:
  "de_request (retain_outcome oc st) = de_request st"
  "de_scoring_cases (retain_outcome oc st) = de_scoring_cases st"
  "de_policy (retain_outcome oc st) = de_policy st"
  "de_marked_running (retain_outcome oc st) = de_marked_running st"
  "de_recorded_ids (retain_outcome oc st) = insert (co_test_case_id oc) (de_recorded_ids st)"
  "outcome_ids (retain_outcome oc st) = outcome_ids st @ [co_test_case_id oc]"
  by (simp_all add: retain_outcome_def outcome_ids_def)

lemma retain_all_simps [simp]:
  "de_request (retain_all ocs st) = de_request st"
  "de_scoring_cases (retain_all ocs st) = de_scoring_cases st"
  "de_policy (retain_all ocs st) = de_policy st"
  "de_marked_running (retain_all ocs st) = de_marked_running st"
  "de_recorded_ids (retain_all ocs st) = set (map co_test_case_id ocs) \<union> de_recorded_ids st"
  by (induction ocs arbitrary: st) (auto simp: retain_all_def)

lemma record_many_ok:
  assumes "hmapM (\<lambda>i. det_record J (f i)) ids (st, d) = (Inr (), (st', d'))"
    and "session_inv st d" and "judgement_open (db_judgements d) (de_request st)"
    and "\<forall>i. co_test_case_id (f i) = i" and "distinct ids" and "set ids \<inter> de_recorded_ids st = {}"
  shows "session_inv st' d' \<and> st' = retain_all (map f ids) st \<and> db_judgements d' = db_judgements d"
  using assms
proof (induction ids arbitrary: st d)
  case Nil
  then show ?case by (auto simp: hret_def retain_all_def)
next
  case (Cons i ids)
  from Cons.prems(1) obtain st1 d1 where
    one: "det_record J (f i) (st, d) = (Inr (), (st1, d1))" and
    rest: "hmapM (\<lambda>i. det_record J (f i)) ids (st1, d1) = (Inr (), (st', d'))"
    by (auto simp: hbind_Inr)
  have ok: "session_inv st1 d1 \<and> st1 = retain_outcome (f i) st \<and> db_judgements d1 = db_judgements d"
    by (rule det_record_ok [OF one]) (use Cons.prems in auto)
  have "session_inv st' d' \<and> st' = retain_all (map f ids) st1 \<and> db_judgements d' = db_judgements d1"
    by (rule Cons.IH [OF rest]) (use ok Cons.prems in auto)
  with ok show ?case by (auto simp: retain_all_def)
qed

lemma outcome_filled_id [simp]: "co_test_case_id (outcome_filled i v m) = i"
  by (simp add: outcome_filled_def)

lemma fill_unrecorded_ok:
  assumes "fill_unrecorded J v m (st, d) = (Inr (), (st', d'))"
    and "session_inv st d" and "judgement_open (db_judgements d) (de_request st)"
  shows "session_inv st' d' \<and> all_recorded st' \<and> db_judgements d' = db_judgements d \<and>
    st' = retain_all (map (\<lambda>i. outcome_filled i v m) (unrecorded_ids st)) st"
proof -
  from assms(1) have run:
    "hmapM (\<lambda>i. det_record J (outcome_filled i v m)) (unrecorded_ids st) (st, d) = (Inr (), (st', d'))"
    by (simp add: fill_unrecorded_def with_state_def)
  have "session_inv st' d' \<and> st' = retain_all (map (\<lambda>i. outcome_filled i v m) (unrecorded_ids st)) st
      \<and> db_judgements d' = db_judgements d"
    by (rule record_many_ok [OF run assms(2,3)])
      (use assms(2) in \<open>auto simp: unrecorded_ids_def session_inv_def distinct_filter\<close>)
  then show ?thesis
    by (auto simp: all_recorded_def unrecorded_ids_def image_iff)
qed

section \<open>Contest policies\<close>

text \<open>
  What the driver relies on from a contest type: scoring keeps the case, a policy in a good state
  stays in one and cancels only pending cases, each once, and finalizing writes no test-case row.
\<close>

locale contest_judge =
  fixes J :: "('p, 'z) judge_ops"
    and policy_ok :: "'p \<Rightarrow> bool"
  assumes score_id: "co_test_case_id (jo_score J p v) = tv_test_case_id v"
    and cancel_pending: "policy_ok p \<Longrightarrow> pr_recorded_ids pr = set (map co_test_case_id (pr_outcomes pr)) \<Longrightarrow>
      jo_next_step J p pr = (Cancel ids, p') \<Longrightarrow> distinct ids \<and> set ids \<inter> pr_recorded_ids pr = {}"
    and next_policy_ok: "policy_ok p \<Longrightarrow> policy_ok (snd (jo_next_step J p pr))"
    and finalize_rows: "jo_finalize J p pr d = (r, d') \<Longrightarrow> db_results d' = db_results d"
begin

lemma det_finalize_ok:
  assumes "det_finalize J (st, d) = (r, (st', d'))"
  shows "st' = st \<and> db_results d' = db_results d"
proof -
  obtain r1 d1 where fin: "jo_finalize J (de_policy st) (progress_of st None) d = (r1, d1)" by force
  with assms have "st' = st" "d' = d1"
    by (auto simp: det_finalize_def with_state_def on_db_def)
  with finalize_rows [OF fin] show ?thesis by simp
qed

lemma finish_ok:
  assumes "hbind (det_finalize J) (\<lambda>_. with_state (\<lambda>st. hret (g st))) (st, d) = (Inr out, (st', d'))"
    and "session_inv st d"
  shows "session_inv st' d' \<and> st' = st \<and> out = g st"
proof -
  from assms(1) obtain u where u: "det_finalize J (st, d) = (Inr (), u)"
    and out: "with_state (\<lambda>st. hret (g st)) u = (Inr out, (st', d'))"
    by (auto simp: hbind_Inr)
  obtain st1 d1 where u': "u = (st1, d1)" by force
  from det_finalize_ok [of st d] u u' have "st1 = st" "db_results d1 = db_results d" by auto
  with out u' assms(2) show ?thesis
    by (auto simp: with_state_def hret_def session_inv_def session_rows_def)
qed

lemma continue_or_finish_ok:
  assumes "continue_or_finish J ids (st, d) = (Inr out, (st', d'))" and "session_inv st d"
  shows "session_inv st' d' \<and> st' = st \<and> cb_state out = st \<and>
    (cb_action out = ActFinish \<longrightarrow> all_recorded st) \<and>
    (cb_action out = ActContinue \<longrightarrow> cb_refill out \<and> \<not> all_recorded st) \<and>
    cb_action out \<noteq> ActCancel"
proof (cases "all_recorded st")
  case True
  with assms(1) have "hbind (det_finalize J) (\<lambda>_. with_state (\<lambda>st'. hret (cb_finish st'))) (st, d) =
      (Inr out, (st', d'))"
    by (simp add: continue_or_finish_def with_state_def)
  from finish_ok [OF this assms(2)] True show ?thesis by (auto simp: cb_finish_def)
next
  case False
  with assms show ?thesis
    by (auto simp: continue_or_finish_def with_state_def hret_def cb_continue_with_def
        any_unrecorded_eq)
qed

lemma mark_running_ok:
  assumes "mark_running (st, d) = (Inr (), (st', d'))"
  shows "st' = st\<lparr>de_marked_running := True\<rparr> \<and> db_results d' = db_results d \<and>
    judgement_open (db_judgements d') (de_request st) = judgement_open (db_judgements d) (de_request st)"
proof (cases "de_marked_running st")
  case True
  then have "st\<lparr>de_marked_running := True\<rparr> = st" by (cases st) simp
  with True assms show ?thesis by (auto simp: mark_running_def with_state_def hret_def)
next
  case False
  let ?c = "set_running (js_submission_id (de_request st)) (js_judgement_id (de_request st))
     (js_judge_epoch (de_request st))"
  obtain r1 d1 where run: "?c d = (r1, d1)" by force
  with submission_update_call_frozen have "db_results d1 = db_results d"
    unfolding set_running_def by blast
  moreover from run have "map judgement_key (db_judgements d1) = map judgement_key (db_judgements d)"
    unfolding set_running_def
    by (rule submission_update_call_key) (simp add: is_terminal_marker_def submission_update_new_def)
  then have "judgement_open (db_judgements d1) (de_request st) = judgement_open (db_judgements d) (de_request st)"
    by (rule judgement_open_cong)
  ultimately show ?thesis using False run assms
    by (auto simp: mark_running_def with_state_def on_db_def hbind_def set_state_def hthrow_def
        split: sum.splits if_splits)
qed

lemma policy_step_ok:
  assumes "policy_step J (st, d) = (Inr step, (st', d'))"
    and "policy_ok (de_policy st)" and "de_recorded_ids st = set (outcome_ids st)"
  shows "d' = d \<and> (\<exists>p. st' = st\<lparr>de_policy := p\<rparr> \<and> policy_ok p) \<and> (\<exists>p pr. fst (jo_next_step J p pr) = step) \<and>
    (\<forall>ids. step = Cancel ids \<longrightarrow> distinct ids \<and> set ids \<inter> de_recorded_ids st = {})"
proof -
  define pr where "pr = progress_of st (if de_outcomes st = [] then None else Some (last (de_outcomes st)))"
  obtain s p where ns: "jo_next_step J (de_policy st) pr = (s, p)" by force
  with assms have "s = step" "d' = d" "st' = st\<lparr>de_policy := p\<rparr>"
    by (auto simp: policy_step_def with_state_def hbind_def set_state_def hret_def pr_def)
  moreover have rec: "pr_recorded_ids pr = set (map co_test_case_id (pr_outcomes pr))"
    using assms(3) by (simp add: pr_def progress_of_def outcome_ids_def)
  from cancel_pending [OF assms(2) rec] ns \<open>s = step\<close>
  have "step = Cancel ids \<Longrightarrow> distinct ids \<and> set ids \<inter> pr_recorded_ids pr = {}" for ids by blast
  moreover have "policy_ok p" using next_policy_ok [OF assms(2), of pr] ns by simp
  moreover from ns \<open>s = step\<close> have "fst (jo_next_step J (de_policy st) pr) = step" by simp
  ultimately show ?thesis by (auto simp: pr_def progress_of_def)
qed

lemma apply_step_ok:
  assumes "apply_step J step (st, d) = (Inr out, (st', d'))" and "session_inv st d"
    and "judgement_open (db_judgements d) (de_request st)"
    and "\<forall>ids. step = Cancel ids \<longrightarrow> distinct ids \<and> set ids \<inter> de_recorded_ids st = {}"
  shows "session_inv st' d' \<and> cb_state out = st' \<and> de_recorded_ids st \<subseteq> de_recorded_ids st' \<and>
    (cb_action out = ActContinue \<longrightarrow> cb_refill out \<and> \<not> all_recorded st') \<and>
    (cb_action out = ActFinish \<and> step \<noteq> Finish None \<longrightarrow> all_recorded st') \<and>
    cb_action out \<noteq> ActCancel \<and> de_scoring_cases st' = de_scoring_cases st \<and> de_request st' = de_request st \<and>
    de_policy st' = de_policy st"
proof (cases step)
  case Continue
  then have "continue_or_finish J [] (st, d) = (Inr out, (st', d'))"
    using assms(1) by (simp add: apply_step_def)
  from continue_or_finish_ok [OF this assms(2)] show ?thesis by auto
next
  case (Cancel ids)
  with assms(1) obtain st1 d1 where
    rec: "hmapM (\<lambda>i. det_record J (outcome_filled i Skipped SKIPPED_SHORT_CIRCUIT)) ids (st, d) =
      (Inr (), (st1, d1))" and
    cont: "continue_or_finish J ids (st1, d1) = (Inr out, (st', d'))"
    by (auto simp: apply_step_def hbind_Inr)
  have ok: "session_inv st1 d1 \<and>
      st1 = retain_all (map (\<lambda>i. outcome_filled i Skipped SKIPPED_SHORT_CIRCUIT) ids) st \<and>
      db_judgements d1 = db_judgements d"
    by (rule record_many_ok [OF rec assms(2,3)]) (use assms(4) Cancel in auto)
  from ok have inv1: "session_inv st1 d1" by blast
  from continue_or_finish_ok [OF cont inv1] ok show ?thesis by auto
next
  case (Finish fill)
  show ?thesis
  proof (cases fill)
    case None
    with Finish assms(1) have "hbind (det_finalize J) (\<lambda>_. with_state (\<lambda>st. hret (cb_finish st))) (st, d) =
        (Inr out, (st', d'))"
      by (simp add: apply_step_def)
    from finish_ok [OF this assms(2)] Finish None show ?thesis by (auto simp: cb_finish_def)
  next
    case (Some vm)
    obtain v m where "vm = (v, m)" by force
    with Finish Some assms(1) obtain st1 d1 where
      fill: "fill_unrecorded J v m (st, d) = (Inr (), (st1, d1))" and
      fin: "hbind (det_finalize J) (\<lambda>_. with_state (\<lambda>st. hret (cb_finish st))) (st1, d1) =
        (Inr out, (st', d'))"
      by (auto simp: apply_step_def hbind_Inr)
    from fill_unrecorded_ok [OF fill assms(2,3)]
    have ok: "session_inv st1 d1" "all_recorded st1"
      and st1: "st1 = retain_all (map (\<lambda>i. outcome_filled i v m) (unrecorded_ids st)) st" by auto
    from finish_ok [OF fin ok(1)] ok st1 show ?thesis by (auto simp: cb_finish_def)
  qed
qed

text \<open>
  One result callback that succeeds: the session invariant is kept, the delivered case is
  recorded, and the reply asks for more work exactly when a case is still missing.
\<close>

lemma on_result_ok:
  assumes res: "on_result J result (st, d) = (Inr out, (st', d'))" and inv: "session_inv st d"
    and opn: "judgement_open (db_judgements d) (de_request st)" and pok: "policy_ok (de_policy st)"
  shows "session_inv st' d' \<and> cb_state out = st' \<and> policy_ok (de_policy st') \<and>
    insert (tv_test_case_id result) (de_recorded_ids st) \<subseteq> de_recorded_ids st' \<and>
    de_scoring_cases st' = de_scoring_cases st \<and> de_request st' = de_request st \<and>
    cb_action out \<noteq> ActCancel \<and>
    (cb_action out = ActContinue \<longrightarrow> cb_refill out = (\<not> all_recorded st') \<and> (all_recorded st' \<longrightarrow> all_recorded st)) \<and>
    (cb_action out = ActFinish \<longrightarrow> all_recorded st' \<or> (\<exists>p pr. fst (jo_next_step J p pr) = Finish None))"
proof (cases "tv_test_case_id result \<in> de_recorded_ids st")
  case True
  with res inv pok show ?thesis
    by (auto simp: on_result_def with_state_def hret_def cb_continue_with_def)
next
  case False
  define oc where "oc = jo_score J (de_policy st) result"
  have id: "co_test_case_id oc = tv_test_case_id result" by (simp add: oc_def score_id)
  show ?thesis
  proof (cases "co_verdict oc = CompileError")
    case True
    with False res obtain st1 d1 st2 d2 where
      rec: "det_record J oc (st, d) = (Inr (), (st1, d1))" and
      fill: "fill_unrecorded J Skipped SKIPPED_SHORT_CIRCUIT (st1, d1) = (Inr (), (st2, d2))" and
      fin: "hbind (det_finalize J) (\<lambda>_. with_state (\<lambda>st. hret (cb_finish st))) (st2, d2) =
        (Inr out, (st', d'))"
      by (auto simp: on_result_compile_error [OF False oc_def] hbind_Inr)
    have r: "session_inv st1 d1" "st1 = retain_outcome oc st" "db_judgements d1 = db_judgements d"
      using det_record_ok [OF rec inv opn] False id by auto
    have f: "session_inv st2 d2" "all_recorded st2"
      "st2 = retain_all (map (\<lambda>i. outcome_filled i Skipped SKIPPED_SHORT_CIRCUIT) (unrecorded_ids st1)) st1"
      using fill_unrecorded_ok [OF fill r(1)] r opn by auto
    from finish_ok [OF fin f(1)] f r id pok show ?thesis by (auto simp: cb_finish_def)
  next
    case nce: False
    from False nce res obtain st1 d1 st2 d2 step st3 d3 where
      run: "mark_running (st, d) = (Inr (), (st1, d1))" and
      rec: "det_record J oc (st1, d1) = (Inr (), (st2, d2))" and
      pol: "policy_step J (st2, d2) = (Inr step, (st3, d3))" and
      app: "apply_step J step (st3, d3) = (Inr out, (st', d'))"
      by (auto simp: on_result_run [OF False oc_def] hbind_Inr)
    from mark_running_ok [OF run] have m: "st1 = st\<lparr>de_marked_running := True\<rparr>"
      "db_results d1 = db_results d" "judgement_open (db_judgements d1) (de_request st)"
      using opn by auto
    then have inv1: "session_inv st1 d1"
      using inv by (simp add: session_inv_def session_rows_def outcome_ids_def)
    have r: "session_inv st2 d2" "st2 = retain_outcome oc st1" "db_judgements d2 = db_judgements d1"
      using det_record_ok [OF rec inv1] m False id by auto
    have "policy_ok (de_policy st2)" "de_recorded_ids st2 = set (outcome_ids st2)"
      using r m pok by (simp_all add: session_inv_def)
    from policy_step_ok [OF pol this] obtain p where p: "d3 = d2" "st3 = st2\<lparr>de_policy := p\<rparr>"
      "\<forall>ids. step = Cancel ids \<longrightarrow> distinct ids \<and> set ids \<inter> de_recorded_ids st3 = {}" "policy_ok p"
      and pstep: "\<exists>p pr. fst (jo_next_step J p pr) = step" by auto
    then have inv3: "session_inv st3 d3"
      using r(1) by (simp add: session_inv_def session_rows_def outcome_ids_def)
    from apply_step_ok [OF app inv3 _ p(3)] p r m id pstep show ?thesis by auto
  qed
qed

end

section \<open>The driver without its effects\<close>

text \<open>
  The session state after a result, as a pure function of the state before it: what the
  driver computes once the database calls are left out.
\<close>

definition fill_state :: "verdict \<Rightarrow> rstr \<Rightarrow> 'p det_eval \<Rightarrow> 'p det_eval" where
  "fill_state v m st = retain_all (map (\<lambda>i. outcome_filled i v m) (unrecorded_ids st)) st"

definition step_state :: "judge_step \<Rightarrow> 'p det_eval \<Rightarrow> 'p det_eval" where
  "step_state step st =
    (case step of Continue \<Rightarrow> st
     | Cancel ids \<Rightarrow> retain_all (map (\<lambda>i. outcome_filled i Skipped SKIPPED_SHORT_CIRCUIT) ids) st
     | Finish None \<Rightarrow> st
     | Finish (Some (v, m)) \<Rightarrow> fill_state v m st)"

definition det_next :: "('p, 'z) judge_ops \<Rightarrow> 'p det_eval \<Rightarrow> test_case_verdict \<Rightarrow> 'p det_eval" where
  "det_next J st result =
    (if tv_test_case_id result \<in> de_recorded_ids st then st
     else let oc = jo_score J (de_policy st) result in
       if co_verdict oc = CompileError
       then fill_state Skipped SKIPPED_SHORT_CIRCUIT (retain_outcome oc st)
       else let st1 = retain_outcome oc (st\<lparr>de_marked_running := True\<rparr>);
                (step, p) = jo_next_step J (de_policy st1) (progress_of st1 (Some (last (de_outcomes st1))))
            in step_state step (st1\<lparr>de_policy := p\<rparr>))"

lemma det_record_state: "det_record J oc (st, d) = (Inr u, (st', d')) \<Longrightarrow> st' = retain_outcome oc st"
  by (auto simp: det_record_def with_state_def on_db_def hbind_def set_state_def split: sum.splits prod.splits)

lemma record_many_state:
  "hmapM (\<lambda>i. det_record J (f i)) ids (st, d) = (Inr u, (st', d')) \<Longrightarrow> st' = retain_all (map f ids) st"
proof (induction ids arbitrary: st d)
  case Nil
  then show ?case by (simp add: hret_def retain_all_def)
next
  case (Cons i ids)
  then show ?case by (auto simp: hbind_Inr retain_all_def dest!: det_record_state)
qed

lemma fill_unrecorded_state: "fill_unrecorded J v m (st, d) = (Inr u, (st', d')) \<Longrightarrow> st' = fill_state v m st"
  unfolding fill_unrecorded_def with_state_def fill_state_def by (auto dest: record_many_state)

lemma finish_state:
  "hbind (det_finalize J) (\<lambda>_. with_state (\<lambda>st. hret (g st))) (st, d) = (Inr out, (st', d')) \<Longrightarrow>
     st' = st \<and> out = g st"
  by (auto simp: hbind_Inr det_finalize_def with_state_def on_db_def hret_def)

lemma mark_running_state: "mark_running (st, d) = (Inr u, (st', d')) \<Longrightarrow> st' = st\<lparr>de_marked_running := True\<rparr>"
  by (cases "de_marked_running st"; cases st)
    (auto simp: mark_running_def with_state_def on_db_def hret_def hbind_def set_state_def hthrow_def
      split: sum.splits if_splits prod.splits)

lemma policy_step_state:
  "policy_step J (st, d) = (Inr step, (st', d')) \<Longrightarrow> de_outcomes st \<noteq> [] \<Longrightarrow>
     jo_next_step J (de_policy st) (progress_of st (Some (last (de_outcomes st)))) = (step, de_policy st') \<and>
     st' = st\<lparr>de_policy := de_policy st'\<rparr>"
  by (auto simp: policy_step_def with_state_def hbind_def set_state_def hret_def split: prod.splits)

lemma continue_or_finish_state:
  "continue_or_finish J ids (st, d) = (Inr out, (st', d')) \<Longrightarrow> st' = st \<and> cb_state out = st"
  by (auto simp: continue_or_finish_def with_state_def [of "\<lambda>st. if _ st then _ st else _ st"]
      cb_finish_def cb_continue_with_def hret_def dest!: finish_state split: if_splits)

lemma apply_step_state:
  assumes "apply_step J step (st, d) = (Inr out, (st', d'))"
  shows "st' = step_state step st \<and> cb_state out = st'"
proof (cases step)
  case (Finish fill)
  with assms show ?thesis
    by (cases fill) (auto simp: apply_step_def step_state_def hbind_Inr [of "fill_unrecorded J _ _"]
        cb_finish_def dest!: finish_state fill_unrecorded_state)
qed (use assms in \<open>auto simp: apply_step_def step_state_def hbind_Inr
      dest!: continue_or_finish_state record_many_state\<close>)

lemma on_result_state:
  assumes "on_result J result (st, d) = (Inr out, (st', d'))"
  shows "st' = det_next J st result \<and> cb_state out = st'"
proof (cases "tv_test_case_id result \<in> de_recorded_ids st")
  case True
  with assms show ?thesis
    by (auto simp: on_result_def with_state_def hret_def cb_continue_with_def det_next_def)
next
  case False
  define oc where "oc = jo_score J (de_policy st) result"
  show ?thesis
  proof (cases "co_verdict oc = CompileError")
    case True
    with assms False show ?thesis
      by (auto simp: on_result_compile_error [OF False oc_def True] det_next_def oc_def [symmetric] Let_def
          hbind_Inr [of "det_record J oc"] hbind_Inr [of "fill_unrecorded J _ _"] cb_finish_def
          dest!: det_record_state fill_unrecorded_state finish_state)
  next
    case nce: False
    with assms False obtain st1 d1 st2 d2 step st3 d3 where
      run: "mark_running (st, d) = (Inr (), (st1, d1))" and
      rec: "det_record J oc (st1, d1) = (Inr (), (st2, d2))" and
      pol: "policy_step J (st2, d2) = (Inr step, (st3, d3))" and
      app: "apply_step J step (st3, d3) = (Inr out, (st', d'))"
      by (auto simp: on_result_run [OF False oc_def nce] hbind_Inr)
    have st2: "st2 = retain_outcome oc (st\<lparr>de_marked_running := True\<rparr>)"
      using mark_running_state [OF run] det_record_state [OF rec] by simp
    then have "de_outcomes st2 \<noteq> []" by (simp add: retain_outcome_def)
    from policy_step_state [OF pol this] apply_step_state [OF app] st2 False nce show ?thesis
      by (auto simp: det_next_def oc_def [symmetric] Let_def split: prod.splits)
  qed
qed

section \<open>Runs that meet no fault\<close>

text \<open>
  Without database faults and with a live judgement every step of the driver succeeds.
  \<open>quiet\<close> relates the databases before and after a step that does not finalize.
\<close>

definition quiet :: "'z db_scheme \<Rightarrow> 'z db_scheme \<Rightarrow> bool" where
  "quiet d d' \<longleftrightarrow> db_faults d' = [] \<and>
     map judgement_key (db_judgements d') = map judgement_key (db_judgements d)"

lemma quiet_refl: "db_faults d = [] \<Longrightarrow> quiet d d"
  by (simp add: quiet_def)

lemma quiet_trans: "quiet a b \<Longrightarrow> quiet b c \<Longrightarrow> quiet a c"
  by (simp add: quiet_def)

lemma quiet_live: "quiet d d' \<Longrightarrow> judgement_live (db_judgements d') req = judgement_live (db_judgements d) req"
  unfolding quiet_def by (elim conjE) (rule judgement_live_cong)

text \<open>The scores of a state that JSON can carry.\<close>

definition finite_state :: "'p det_eval \<Rightarrow> bool" where
  "finite_state st \<longleftrightarrow> (\<forall>oc \<in> set (de_outcomes st). f64_is_finite (co_score oc)) \<and>
     (\<forall>tc \<in> set (de_scoring_cases st). f64_is_finite (sc_score tc))"

lemma finite_state_retain:
  "finite_state (retain_outcome oc st) \<longleftrightarrow> f64_is_finite (co_score oc) \<and> finite_state st"
  "finite_state (st\<lparr>de_policy := p\<rparr>) = finite_state st"
  "finite_state (st\<lparr>de_marked_running := b\<rparr>) = finite_state st"
  by (auto simp: finite_state_def retain_outcome_def)

lemma finite_state_filled:
  "finite_state (retain_all (map (\<lambda>i. outcome_filled i v m) ids) st) = finite_state st"
  by (induction ids arbitrary: st)
    (auto simp: retain_all_def finite_state_retain outcome_filled_def f64_zero_def)

lemma det_record_total:
  assumes "db_faults d = []" and "0 < js_judgement_id (de_request st)"
  shows "\<exists>d'. det_record J oc (st, d) = (Inr (), (retain_outcome oc st, d')) \<and> quiet d d'"
proof -
  let ?r = "outcome_row J st oc"
  have "r_judgement_id ?r = js_judgement_id (de_request st)"
    by (simp add: outcome_row_def build_tc_row_def Let_def)
  with assms have "insert_results [?r] d = (Inr (), snd (insert_rows [wire_row ?r] d))"
    by (simp add: insert_results_def host_insert_results_def hbind_def hret_def execute_no_fault)
  moreover have "quiet d (snd (insert_rows [wire_row ?r] d))"
    using assms(1) by (simp add: quiet_def insert_rows_def Let_def)
  ultimately show ?thesis
    by (simp add: det_record_def with_state_def on_db_def hbind_def set_state_def)
qed

lemma record_many_total:
  assumes "db_faults d = []" and "0 < js_judgement_id (de_request st)"
  shows "\<exists>d'. hmapM (\<lambda>i. det_record J (f i)) ids (st, d) = (Inr (), (retain_all (map f ids) st, d')) \<and> quiet d d'"
  using assms
proof (induction ids arbitrary: st d)
  case Nil
  then show ?case by (simp add: hret_def retain_all_def quiet_refl)
next
  case (Cons i ids)
  from det_record_total [OF Cons.prems, of J "f i"] obtain d1 where
    one: "det_record J (f i) (st, d) = (Inr (), (retain_outcome (f i) st, d1))" and q: "quiet d d1" by blast
  from Cons.IH [of d1 "retain_outcome (f i) st"] q Cons.prems obtain d2 where
    "hmapM (\<lambda>i. det_record J (f i)) ids (retain_outcome (f i) st, d1) =
       (Inr (), (retain_all (map f ids) (retain_outcome (f i) st), d2))" "quiet d1 d2"
    by (auto simp: quiet_def)
  with one quiet_trans [OF q] show ?case by (auto simp: hbind_def retain_all_def)
qed

lemma fill_unrecorded_total:
  assumes "db_faults d = []" and "0 < js_judgement_id (de_request st)"
  shows "\<exists>d'. fill_unrecorded J v m (st, d) =
    (Inr (), (retain_all (map (\<lambda>i. outcome_filled i v m) (unrecorded_ids st)) st, d')) \<and> quiet d d'"
  using record_many_total [OF assms] by (simp add: fill_unrecorded_def with_state_def)

lemma mark_running_total:
  assumes "db_faults d = []" and live: "judgement_live (db_judgements d) (de_request st)"
  shows "\<exists>d'. mark_running (st, d) = (Inr (), (st\<lparr>de_marked_running := True\<rparr>, d')) \<and> quiet d d'"
proof (cases "de_marked_running st")
  case True
  then have "st\<lparr>de_marked_running := True\<rparr> = st" by (cases st) simp
  with True assms(1) show ?thesis by (simp add: mark_running_def with_state_def hret_def quiet_refl)
next
  case False
  let ?q = "de_request st"
  let ?u = "(submission_update_new (js_submission_id ?q) (js_judgement_id ?q) (js_judge_epoch ?q))
    \<lparr>u_status := Some SRunning\<rparr>"
  obtain j where "j \<in> set (db_judgements d)" "judgement_update_matches ?u (db_judgements d) j"
    by (rule judgement_live_matches [OF live, of ?u]) (auto simp: submission_update_new_def)
  moreover have "0 < u_judgement_id ?u"
    using live by (simp add: submission_update_new_def judgement_live_def)
  moreover have "push_judge_sets (wire_update ?u) \<noteq> []"
    by (simp add: push_judge_sets_def wire_update_def)
  ultimately obtain n d' where run: "submission_update_call ?u d = (Inr n, d')" "0 < n" "db_faults d' = []"
    using submission_update_call_no_fault [OF assms(1)] by blast
  moreover have "map judgement_key (db_judgements d') = map judgement_key (db_judgements d)"
    by (rule submission_update_call_key [OF run(1)]) (simp add: is_terminal_marker_def)
  ultimately show ?thesis using False
    by (simp add: mark_running_def with_state_def on_db_def hbind_def set_state_def set_running_def
        quiet_def)
qed

text \<open>
  A terminal update of a live judgement goes through, writes its columns into the one row of
  that judgement and closes it.
\<close>

lemma judgement_live_row:
  assumes "judgement_live js req"
  obtains j where "j \<in> set js" "j_id j = js_judgement_id req" "j_judge_epoch j = js_judge_epoch req"
    "\<not> j_is_finalized j" "j_is_current j"
    "\<And>j'. j' \<in> set js \<Longrightarrow> j_id j' = js_judgement_id req \<Longrightarrow> j' = j"
proof -
  from assms have "length (filter (\<lambda>j. j_id j = js_judgement_id req) js) = 1"
    by (simp add: judgement_live_def filter_map comp_def judgement_key_def)
  then obtain j0 where j0: "filter (\<lambda>j. j_id j = js_judgement_id req) js = [j0]"
    by (auto simp: length_Suc_conv)
  from assms obtain j where j: "j \<in> set js" "j_id j = js_judgement_id req"
    "j_judge_epoch j = js_judge_epoch req" "\<not> j_is_finalized j" "j_is_current j"
    by (auto simp: judgement_live_def judgement_key_def)
  have uniq: "j' = j0" if "j' \<in> set js" "j_id j' = js_judgement_id req" for j'
  proof -
    from that have "j' \<in> set (filter (\<lambda>j. j_id j = js_judgement_id req) js)" by simp
    with j0 show ?thesis by simp
  qed
  show ?thesis using that [OF j] uniq j by metis
qed

lemma update_judgements_live:
  assumes live: "judgement_live (db_judgements d) req"
    and ids: "u_judgement_id u = js_judgement_id req" "u_judge_epoch u = js_judge_epoch req"
    and trm: "is_terminal_marker u"
  obtains j where "j \<in> set (db_judgements d)" "judgement_update_matches u (db_judgements d) j"
    "j_id j = js_judgement_id req" "0 < fst (update_judgements u d)"
    "sealed (snd (update_judgements u d)) req"
    "update_judgement_row u (db_now d) j \<in> set (db_judgements (snd (update_judgements u d)))"
    "\<And>y. y \<in> set (db_judgements (snd (update_judgements u d))) \<Longrightarrow> j_id y = js_judgement_id req \<Longrightarrow>
      y = update_judgement_row u (db_now d) j"
proof -
  let ?js = "db_judgements d"
  let ?d1 = "snd (update_judgements u d)"
  let ?upd = "\<lambda>j. if judgement_update_matches u ?js j then update_judgement_row u (db_now d) j else j"
  obtain j where j: "j \<in> set ?js" "j_id j = js_judgement_id req" "j_judge_epoch j = js_judge_epoch req"
    "\<not> j_is_finalized j" "j_is_current j"
    and uniq: "\<And>j'. j' \<in> set ?js \<Longrightarrow> j_id j' = js_judgement_id req \<Longrightarrow> j' = j"
    by (rule judgement_live_row [OF live]) blast
  have hit: "judgement_update_matches u ?js j"
    using j ids by (simp add: judgement_update_matches_def)
  have js': "db_judgements ?d1 = map ?upd ?js" by (simp add: update_judgements_def Let_def)
  have idk: "j_id (?upd x) = j_id x" for x by (simp add: update_judgement_row_def Let_def)
  have row: "y = update_judgement_row u (db_now d) j"
    if "y \<in> set (db_judgements ?d1)" "j_id y = js_judgement_id req" for y
  proof -
    from that(1) obtain x where x: "x \<in> set ?js" "y = ?upd x" by (auto simp: js')
    with that(2) idk have "j_id x = js_judgement_id req" by metis
    from uniq [OF x(1) this] x(2) hit show ?thesis by simp
  qed
  have "j_is_finalized (update_judgement_row u (db_now d) j)"
    using trm by (simp add: update_judgement_row_def Let_def)
  with row have "sealed ?d1 req" by (auto simp: sealed_def judgement_closed_def)
  moreover have "update_judgement_row u (db_now d) j \<in> set (db_judgements ?d1)"
    using j(1) hit by (force simp: js')
  moreover have "0 < fst (update_judgements u d)"
  proof -
    have "j \<in> set (filter (judgement_update_matches u ?js) ?js)" using j(1) hit by simp
    then have "filter (judgement_update_matches u ?js) ?js \<noteq> []" by (metis empty_iff empty_set)
    then show ?thesis by (simp add: update_judgements_def Let_def)
  qed
  ultimately show ?thesis using that j(1,2) hit row by blast
qed

lemma wire_update_simps [simp]:
  "u_judgement_id (wire_update u) = u_judgement_id u" "u_judge_epoch (wire_update u) = u_judge_epoch u"
  "u_submission_id (wire_update u) = u_submission_id u"
  "is_terminal_marker (wire_update u) = is_terminal_marker u"
  by (simp_all add: wire_update_def is_terminal_marker_def)

lemma terminal_push_sets: "is_terminal_marker u \<Longrightarrow> push_judge_sets u \<noteq> []"
  by (auto simp: is_terminal_marker_def push_judge_sets_def)

lemma terminal_update_total:
  assumes nf: "db_faults d = []" and live: "judgement_live (db_judgements d) req"
    and ids: "u_judgement_id u = js_judgement_id req" "u_judge_epoch u = js_judge_epoch req"
    and trm: "is_terminal_marker u"
  shows "\<exists>n d' j. submission_update_call u d = (Inr n, d') \<and> 0 < n \<and> db_faults d' = [] \<and>
    sealed d' req \<and> j \<in> set (db_judgements d) \<and> j_id j = js_judgement_id req \<and>
    (\<forall>j' \<in> set (db_judgements d'). j_id j' = js_judgement_id req \<longrightarrow>
       j' = update_judgement_row (wire_update u) (db_now d) j) \<and>
    update_judgement_row (wire_update u) (db_now d) j \<in> set (db_judgements d')"
proof -
  let ?w = "wire_update u"
  obtain j where j: "j \<in> set (db_judgements d)" "judgement_update_matches ?w (db_judgements d) j"
    "j_id j = js_judgement_id req" "sealed (snd (update_judgements ?w d)) req"
    "update_judgement_row ?w (db_now d) j \<in> set (db_judgements (snd (update_judgements ?w d)))"
    "\<And>y. y \<in> set (db_judgements (snd (update_judgements ?w d))) \<Longrightarrow> j_id y = js_judgement_id req \<Longrightarrow>
      y = update_judgement_row ?w (db_now d) j"
    by (rule update_judgements_live [OF live, of ?w]) (use ids trm in auto)
  have "judgement_update_matches u (db_judgements d) j"
    using j(2) by (simp add: judgement_update_matches_def)
  moreover have "0 < u_judgement_id u" using live ids by (simp add: judgement_live_def)
  moreover have "push_judge_sets ?w \<noteq> []" using trm by (simp add: terminal_push_sets)
  ultimately obtain n d' where run: "submission_update_call u d = (Inr n, d')" "0 < n" "db_faults d' = []"
    and d': "d' = snd (update_submissions ?w (snd (update_judgements ?w d)))"
    using submission_update_call_no_fault [OF nf _ _ j(1)] by blast
  have js': "db_judgements d' = db_judgements (snd (update_judgements ?w d))"
    by (simp add: d' update_submissions_def Let_def)
  then have "sealed d' req" using j(4) by (simp add: sealed_def judgement_closed_def)
  with run j js' show ?thesis by metis
qed

text \<open>
  The two statements of an update are not one transaction: when the second one fails the
  judgement is already closed, and no later update of that judgement reaches the submission.
\<close>

lemma terminal_update_half_done:
  assumes f: "db_faults d = [None, Some msg]" and live: "judgement_live (db_judgements d) req"
    and ids: "u_judgement_id u = js_judgement_id req" "u_judge_epoch u = js_judge_epoch req"
    and trm: "is_terminal_marker u"
  shows "\<exists>d'. submission_update_call u d = (Inl (Database msg), d') \<and> sealed d' req \<and>
    db_submissions d' = db_submissions d"
proof -
  let ?w = "wire_update u"
  let ?d0 = "d\<lparr>db_faults := [Some msg]\<rparr>"
  have "judgement_live (db_judgements ?d0) req" using live by simp
  then obtain "0 < fst (update_judgements ?w ?d0)" "sealed (snd (update_judgements ?w ?d0)) req"
    by (rule update_judgements_live [of ?d0 req ?w]) (use ids trm in auto)
  moreover have "0 < u_judgement_id u" using live ids by (simp add: judgement_live_def)
  moreover have "push_judge_sets ?w \<noteq> []" using trm by (simp add: terminal_push_sets)
  moreover have "db_faults (snd (update_judgements ?w ?d0)) = [Some msg]"
    "db_submissions (snd (update_judgements ?w ?d0)) = db_submissions d"
    by (simp_all add: update_judgements_def Let_def)
  ultimately show ?thesis using f
    by (auto simp: submission_update_call_def host_submission_update_def hbind_def hret_def
        execute_def sealed_def judgement_closed_def split: prod.splits)
qed

text \<open>The database that the policy's finalizer left, called on a live judgement with this state.\<close>

definition finalized_by :: "('p, 'z) judge_ops \<Rightarrow> 'p det_eval \<Rightarrow> 'z db_scheme \<Rightarrow> bool" where
  "finalized_by J st d' \<longleftrightarrow> (\<exists>d. db_faults d = [] \<and> judgement_live (db_judgements d) (de_request st) \<and>
     jo_finalize J (de_policy st) (progress_of st None) d = (Inr (), d'))"

text \<open>
  A contest type whose finalizer succeeds on a live judgement, whose scores are finite and
  that never stops with cases missing.
\<close>

locale contest_judge_total = contest_judge J policy_ok
  for J :: "('p, 'z) judge_ops" and policy_ok +
  assumes finalize_total: "db_faults d = [] \<Longrightarrow> judgement_live (db_judgements d) (pr_submission pr) \<Longrightarrow>
      \<exists>d'. jo_finalize J p pr d = (Inr (), d') \<and> sealed d' (pr_submission pr)"
    and score_finite: "f64_is_finite (co_score (jo_score J p v))"
    and finish_fills: "fst (jo_next_step J p pr) \<noteq> Finish None"
begin

lemma finalized_by_sealed:
  assumes "finalized_by J st d'"
  shows "sealed d' (de_request st)"
proof -
  have req: "pr_submission (progress_of st None) = de_request st" by (simp add: progress_of_def)
  from assms obtain d where "db_faults d = []" "judgement_live (db_judgements d) (de_request st)"
    and run: "jo_finalize J (de_policy st) (progress_of st None) d = (Inr (), d')"
    by (auto simp: finalized_by_def)
  with finalize_total [of d "progress_of st None" "de_policy st"] req show ?thesis by auto
qed

lemma det_finalize_total:
  assumes "db_faults d = []" and "judgement_live (db_judgements d) (de_request st)"
  shows "\<exists>d'. hbind (det_finalize J) (\<lambda>_. with_state (\<lambda>st. hret (g st))) (st, d) = (Inr (g st), (st, d')) \<and>
    finalized_by J st d'"
proof -
  from finalize_total [OF assms(1), of "progress_of st None"] assms(2) obtain d' where
    "jo_finalize J (de_policy st) (progress_of st None) d = (Inr (), d')"
    by (fastforce simp: progress_of_def)
  with assms show ?thesis
    by (auto simp: det_finalize_def with_state_def on_db_def hbind_def hret_def finalized_by_def)
qed

lemma continue_or_finish_total:
  assumes "db_faults d = []" and "judgement_live (db_judgements d) (de_request st)"
  shows "\<exists>out d'. continue_or_finish J ids (st, d) = (Inr out, (st, d')) \<and>
    (cb_action out = ActFinish \<and> finalized_by J st d' \<or> cb_action out = ActContinue \<and> quiet d d')"
proof (cases "all_recorded st")
  case True
  with det_finalize_total [OF assms, of cb_finish] show ?thesis
    by (auto simp: continue_or_finish_def with_state_def cb_finish_def)
next
  case False
  with assms show ?thesis
    by (simp add: continue_or_finish_def with_state_def hret_def cb_continue_with_def quiet_refl)
qed

lemma apply_step_total:
  assumes "db_faults d = []" and live: "judgement_live (db_judgements d) (de_request st)"
    and "step \<noteq> Finish None" and fin: "finite_state st"
  shows "\<exists>out st' d'. apply_step J step (st, d) = (Inr out, (st', d')) \<and> finite_state st' \<and>
    (cb_action out = ActFinish \<and> finalized_by J st' d' \<or> cb_action out = ActContinue \<and> quiet d d')"
proof -
  have pos: "0 < js_judgement_id (de_request st)" using live by (simp add: judgement_live_def)
  show ?thesis
  proof (cases step)
    case Continue
    with continue_or_finish_total [OF assms(1,2)] fin show ?thesis by (fastforce simp: apply_step_def)
  next
    case (Cancel ids)
    let ?f = "\<lambda>i. outcome_filled i Skipped SKIPPED_SHORT_CIRCUIT"
    from record_many_total [OF assms(1) pos, of J ?f ids] obtain d1 where
      rec: "hmapM (\<lambda>i. det_record J (?f i)) ids (st, d) = (Inr (), (retain_all (map ?f ids) st, d1))"
      and q: "quiet d d1" by blast
    have "judgement_live (db_judgements d1) (de_request (retain_all (map ?f ids) st))"
      using quiet_live [OF q] live by simp
    from continue_or_finish_total [OF _ this] q obtain out d2 where
      "continue_or_finish J ids (retain_all (map ?f ids) st, d1) = (Inr out, (retain_all (map ?f ids) st, d2))"
      "cb_action out = ActFinish \<and> finalized_by J (retain_all (map ?f ids) st) d2 \<or> cb_action out = ActContinue \<and> quiet d1 d2"
      by (fastforce simp: quiet_def)
    with rec q Cancel fin quiet_trans [OF q] show ?thesis
      by (auto simp: apply_step_def hbind_def finite_state_filled)
  next
    case (Finish fill)
    with assms(3) obtain v m where vm: "fill = Some (v, m)" by (cases fill) auto
    let ?st = "retain_all (map (\<lambda>i. outcome_filled i v m) (unrecorded_ids st)) st"
    from fill_unrecorded_total [OF assms(1) pos, of J v m] obtain d1 where
      fl: "fill_unrecorded J v m (st, d) = (Inr (), (?st, d1))" and q: "quiet d d1" by blast
    have "judgement_live (db_judgements d1) (de_request ?st)" using quiet_live [OF q] live by simp
    from det_finalize_total [OF _ this, of cb_finish] q obtain d2 where
      "hbind (det_finalize J) (\<lambda>_. with_state (\<lambda>st. hret (cb_finish st))) (?st, d1) =
        (Inr (cb_finish ?st), (?st, d2))" "finalized_by J ?st d2" by (fastforce simp: quiet_def)
    with fl Finish vm fin show ?thesis
      by (simp add: apply_step_def hbind_def [of "fill_unrecorded J v m"] finite_state_filled cb_finish_def)
  qed
qed

lemma policy_step_total:
  obtains step p where "policy_step J (st, d) = (Inr step, (st\<lparr>de_policy := p\<rparr>, d))" "step \<noteq> Finish None"
proof -
  obtain step p where ns: "jo_next_step J (de_policy st)
      (progress_of st (if de_outcomes st = [] then None else Some (last (de_outcomes st)))) = (step, p)"
    by force
  with finish_fills have "step \<noteq> Finish None" by (metis fst_conv)
  moreover from ns have "policy_step J (st, d) = (Inr step, (st\<lparr>de_policy := p\<rparr>, d))"
    by (simp add: policy_step_def with_state_def hbind_def set_state_def hret_def)
  ultimately show ?thesis using that by blast
qed

lemma on_result_total:
  assumes nf: "db_faults d = []" and live: "judgement_live (db_judgements d) (de_request st)"
    and fin: "finite_state st"
  shows "\<exists>out st' d'. on_result J result (st, d) = (Inr out, (st', d')) \<and> finite_state st' \<and>
    (cb_action out = ActFinish \<and> finalized_by J st' d' \<or> cb_action out = ActContinue \<and> quiet d d')"
proof (cases "tv_test_case_id result \<in> de_recorded_ids st")
  case True
  with nf fin show ?thesis
    by (simp add: on_result_def with_state_def hret_def cb_continue_with_def quiet_refl)
next
  case False
  have pos: "0 < js_judgement_id (de_request st)" using live by (simp add: judgement_live_def)
  define oc where "oc = jo_score J (de_policy st) result"
  then have foc: "f64_is_finite (co_score oc)" by (simp add: score_finite)
  show ?thesis
  proof (cases "co_verdict oc = CompileError")
    case True
    let ?r = "retain_outcome oc st"
    let ?s = "retain_all (map (\<lambda>i. outcome_filled i Skipped SKIPPED_SHORT_CIRCUIT) (unrecorded_ids ?r)) ?r"
    from det_record_total [OF nf pos] obtain d1 where
      rec: "det_record J oc (st, d) = (Inr (), (?r, d1))" and q1: "quiet d d1" by blast
    from fill_unrecorded_total [of d1 ?r J Skipped SKIPPED_SHORT_CIRCUIT] q1 pos obtain d2 where
      fl: "fill_unrecorded J Skipped SKIPPED_SHORT_CIRCUIT (?r, d1) = (Inr (), (?s, d2))"
      and q2: "quiet d1 d2" by (auto simp: quiet_def)
    have "judgement_live (db_judgements d2) (de_request ?s)"
      using quiet_live [OF quiet_trans [OF q1 q2]] live by simp
    from det_finalize_total [OF _ this, of cb_finish] q2 obtain d3 where
      "hbind (det_finalize J) (\<lambda>_. with_state (\<lambda>st. hret (cb_finish st))) (?s, d2) =
        (Inr (cb_finish ?s), (?s, d3))" and sl: "finalized_by J ?s d3" by (fastforce simp: quiet_def)
    then have "on_result J result (st, d) = (Inr (cb_finish ?s), (?s, d3))"
      using rec fl by (simp add: on_result_compile_error [OF False oc_def True] hbind_step)
    with fin foc sl show ?thesis by (auto simp: finite_state_filled finite_state_retain cb_finish_def)
  next
    case nce: False
    let ?m = "st\<lparr>de_marked_running := True\<rparr>"
    from mark_running_total [OF nf live] obtain d1 where
      run: "mark_running (st, d) = (Inr (), (?m, d1))" and q1: "quiet d d1" by blast
    from det_record_total [of d1 ?m J oc] q1 pos obtain d2 where
      rec: "det_record J oc (?m, d1) = (Inr (), (retain_outcome oc ?m, d2))" and q2: "quiet d1 d2"
      by (auto simp: quiet_def)
    obtain step p where pol: "policy_step J (retain_outcome oc ?m, d2) =
        (Inr step, ((retain_outcome oc ?m)\<lparr>de_policy := p\<rparr>, d2))" and "step \<noteq> Finish None"
      by (rule policy_step_total)
    from apply_step_total [of d2 "(retain_outcome oc ?m)\<lparr>de_policy := p\<rparr>" step] \<open>step \<noteq> Finish None\<close>
      quiet_live [OF quiet_trans [OF q1 q2]] q2 live fin foc
    obtain out st' d' where
      app: "apply_step J step ((retain_outcome oc ?m)\<lparr>de_policy := p\<rparr>, d2) = (Inr out, (st', d'))"
      and res: "finite_state st'"
        "cb_action out = ActFinish \<and> finalized_by J st' d' \<or> cb_action out = ActContinue \<and> quiet d2 d'"
      by (auto simp: quiet_def finite_state_retain)
    have "on_result J result (st, d) = (Inr out, (st', d'))"
      using run rec pol app by (simp add: on_result_run [OF False oc_def nce] hbind_step)
    with res quiet_trans [OF q1 quiet_trans [OF q2]] show ?thesis by blast
  qed
qed

end

section \<open>A stream of results\<close>

text \<open>
  The host delivers results one callback at a time and hands the replied state to the next
  callback, until a reply does not ask to continue.
\<close>

fun session_run :: "('p, 'z) judge_ops \<Rightarrow> 'p det_eval \<Rightarrow> test_case_verdict list \<Rightarrow>
    ('z, 'p callback_output) dbcall" where
  "session_run J st [] d = (Inr (cb_continue_with st), d)"
| "session_run J st (v # vs) d =
     (case handle_callback J st (EvResult v) d of
        (Inl e, d') \<Rightarrow> (Inl e, d')
      | (Inr out, d') \<Rightarrow>
          if cb_action out = ActContinue then session_run J (cb_state out) vs d' else (Inr out, d'))"

definition wire_state :: "'p det_eval \<Rightarrow> 'p det_eval" where
  "wire_state st = st\<lparr>de_outcomes := map (\<lambda>oc. oc\<lparr>co_verdict := wire_verdict (co_verdict oc)\<rparr>) (de_outcomes st)\<rparr>"

lemma state_from_value_finite: "finite_state st \<Longrightarrow> state_from_value st = Inr (wire_state st)"
  by (simp add: state_from_value_def finite_state_def wire_state_def)

lemma wire_state_simps [simp]:
  "de_request (wire_state st) = de_request st"
  "de_scoring_cases (wire_state st) = de_scoring_cases st"
  "de_recorded_ids (wire_state st) = de_recorded_ids st"
  "all_recorded (wire_state st) = all_recorded st"
  "outcome_ids (wire_state st) = outcome_ids st"
  "finite_state (wire_state st) = finite_state st"
  "de_policy (wire_state st) = de_policy st"
  "session_inv (wire_state st) d = session_inv st d"
  by (auto simp: wire_state_def all_recorded_def outcome_ids_def comp_def finite_state_def session_inv_def)

context contest_judge_total
begin

lemma callback_result:
  assumes "session_inv st d" and "finite_state st" and "db_faults d = []"
    and live: "judgement_live (db_judgements d) (de_request st)" and pok: "policy_ok (de_policy st)"
  obtains out d' where "handle_callback J st (EvResult v) d = (Inr out, d')"
    "session_inv (cb_state out) d'" "finite_state (cb_state out)" "policy_ok (de_policy (cb_state out))"
    "de_scoring_cases (cb_state out) = de_scoring_cases st" "de_request (cb_state out) = de_request st"
    "insert (tv_test_case_id v) (de_recorded_ids st) \<subseteq> de_recorded_ids (cb_state out)"
    "cb_action out = ActFinish \<and> all_recorded (cb_state out) \<and> finalized_by J (cb_state out) d' \<or>
     cb_action out = ActContinue \<and> quiet d d' \<and> cb_refill out = (\<not> all_recorded (cb_state out)) \<and>
       (all_recorded (cb_state out) \<longrightarrow> all_recorded st)"
proof -
  let ?w = "wire_state st"
  from on_result_total [of d ?w v] assms obtain out st' d' where
    run: "on_result J v (?w, d) = (Inr out, (st', d'))" and "finite_state st'"
    and act: "cb_action out = ActFinish \<and> finalized_by J st' d' \<or> cb_action out = ActContinue \<and> quiet d d'"
    by auto
  moreover have hc: "handle_callback J st (EvResult v) d = (Inr out, d')"
    using run by (simp add: handle_callback_def state_from_value_finite [OF assms(2)])
  moreover note on_result_ok [OF run] assms(1) judgement_live_open [OF live] pok
  ultimately show ?thesis using finish_fills that [OF hc] by auto
qed

text \<open>
  Results that cover every scoring case, in any order and with repetitions, drive the
  session to its end: the last reply is \<open>Finish\<close>, every case has exactly one row and the
  judgement is closed.
\<close>

lemma session_run_finishes:
  assumes "session_inv st d" and "finite_state st" and "db_faults d = []"
    and "judgement_live (db_judgements d) (de_request st)" and "\<not> all_recorded st"
    and "set (map sc_id (de_scoring_cases st)) \<subseteq> de_recorded_ids st \<union> set (map tv_test_case_id vs)"
    and "policy_ok (de_policy st)"
  shows "\<exists>out d'. session_run J st vs d = (Inr out, d') \<and> cb_action out = ActFinish \<and>
    all_recorded (cb_state out) \<and> session_inv (cb_state out) d' \<and> finalized_by J (cb_state out) d' \<and>
    de_request (cb_state out) = de_request st \<and> de_scoring_cases (cb_state out) = de_scoring_cases st"
  using assms
proof (induction vs arbitrary: st d)
  case Nil
  then show ?case by (auto simp: all_recorded_def)
next
  case (Cons v vs)
  obtain out d' where cb: "handle_callback J st (EvResult v) d = (Inr out, d')"
    "session_inv (cb_state out) d'" "finite_state (cb_state out)"
    "de_scoring_cases (cb_state out) = de_scoring_cases st" "de_request (cb_state out) = de_request st"
    "insert (tv_test_case_id v) (de_recorded_ids st) \<subseteq> de_recorded_ids (cb_state out)"
    "policy_ok (de_policy (cb_state out))"
    and act: "cb_action out = ActFinish \<and> all_recorded (cb_state out) \<and> finalized_by J (cb_state out) d' \<or>
     cb_action out = ActContinue \<and> quiet d d' \<and> cb_refill out = (\<not> all_recorded (cb_state out)) \<and>
       (all_recorded (cb_state out) \<longrightarrow> all_recorded st)"
    by (rule callback_result [OF Cons.prems(1-4) Cons.prems(7), of v])
  from act show ?case
  proof
    assume "cb_action out = ActFinish \<and> all_recorded (cb_state out) \<and> finalized_by J (cb_state out) d'"
    with cb show ?thesis by simp
  next
    assume c: "cb_action out = ActContinue \<and> quiet d d' \<and> cb_refill out = (\<not> all_recorded (cb_state out)) \<and>
       (all_recorded (cb_state out) \<longrightarrow> all_recorded st)"
    then have q: "quiet d d'" by simp
    have "set (map sc_id (de_scoring_cases (cb_state out))) \<subseteq>
        de_recorded_ids (cb_state out) \<union> set (map tv_test_case_id vs)"
      using Cons.prems(6) cb(4,6) by auto
    from Cons.IH [OF cb(2,3) _ _ _ this cb(7)] c q cb Cons.prems(4,5) quiet_live [OF q]
    show ?thesis by (simp add: quiet_def)
  qed
qed

end

text \<open>What every result callback keeps holds of the state in the last reply.\<close>

lemma callback_state:
  assumes "handle_callback J st (EvResult v) d = (Inr out, d')"
  shows "finite_state st \<and> cb_state out = det_next J (wire_state st) v"
proof -
  have fin: "finite_state st"
    using assms by (auto simp: handle_callback_def state_from_value_def finite_state_def split: if_splits)
  then obtain st' where "on_result J v (wire_state st, d) = (Inr out, (st', d'))"
    using assms by (auto simp: handle_callback_def state_from_value_finite split: prod.splits)
  with on_result_state fin show ?thesis by blast
qed

lemma session_run_keeps:
  assumes "\<And>st v. v \<in> set vs \<Longrightarrow> P st \<Longrightarrow> P (det_next J (wire_state st) v)"
    and "P st" and "session_run J st vs d = (Inr out, d')"
  shows "P (cb_state out)"
  using assms
proof (induction vs arbitrary: st d)
  case Nil
  then show ?case by (auto simp: cb_continue_with_def)
next
  case (Cons v vs)
  from Cons.prems(3) obtain out1 d1 where cb: "handle_callback J st (EvResult v) d = (Inr out1, d1)"
    and rest: "if cb_action out1 = ActContinue then session_run J (cb_state out1) vs d1 = (Inr out, d') else out1 = out"
    by (auto split: prod.splits sum.splits if_splits)
  have "P (cb_state out1)" using callback_state [OF cb] Cons.prems(1) [of v st] Cons.prems(2) by simp
  with Cons.IH [of "cb_state out1" d1] Cons.prems(1) rest show ?case by (auto split: if_splits)
qed

section \<open>Recovery\<close>

text \<open>
  Recording without the session invariant: each record appends one row to the session's rows,
  whatever rows are there already.
\<close>

definition row_summary :: "'z db_scheme \<Rightarrow> judged_submission \<Rightarrow> (i32 \<times> rstr) list" where
  "row_summary d req = map (\<lambda>r. (case_key r, r_verdict r)) (session_rows d req)"

lemma outcome_row_verdict [simp]: "r_verdict (outcome_row J st oc) = co_verdict oc"
  by (simp add: outcome_row_def build_tc_row_def Let_def)

definition verdict_column :: "verdict \<Rightarrow> rstr" where
  "verdict_column v = sanitize_nul_bytes (to_db_str (wire_verdict v))"

lemma det_record_summary:
  assumes "det_record J oc (st, d) = (Inr (), (st', d'))"
    and "judgement_open (db_judgements d) (de_request st)"
  shows "row_summary d' (de_request st) =
    row_summary d (de_request st) @ [(co_test_case_id oc, verdict_column (co_verdict oc))]"
proof -
  from assms(1) have ins: "insert_results [outcome_row J st oc] d = (Inr (), d')"
    by (auto simp: det_record_def with_state_def on_db_def hbind_def set_state_def
        split: sum.splits prod.splits) (metis prod.collapse)+
  have sess: "row_of_session (de_request st) (outcome_row J st oc)"
    by (simp add: outcome_row_def Let_def)
  have key: "case_key (outcome_row J st oc) = co_test_case_id oc"
    by (simp add: outcome_row_def Let_def)
  from insert_results_single [OF ins sess assms(2)] sess key show ?thesis
    by (simp add: row_summary_def session_rows_def) (simp add: stored_row_def wire_row_def Let_def verdict_column_def)
qed

lemma record_many_summary:
  assumes "hmapM (\<lambda>i. det_record J (f i)) ids (st, d) = (Inr (), (st', d'))"
    and "judgement_open (db_judgements d) (de_request st)"
  shows "row_summary d' (de_request st) = row_summary d (de_request st) @
    map (\<lambda>i. (co_test_case_id (f i), verdict_column (co_verdict (f i)))) ids"
  using assms
proof (induction ids arbitrary: st d)
  case Nil
  then show ?case by (simp add: hret_def)
next
  case (Cons i ids)
  from Cons.prems(1) obtain st1 d1 where
    one: "det_record J (f i) (st, d) = (Inr (), (st1, d1))" and
    rest: "hmapM (\<lambda>i. det_record J (f i)) ids (st1, d1) = (Inr (), (st', d'))"
    by (auto simp: hbind_Inr)
  have st1: "de_request st1 = de_request st" using det_record_state [OF one] by simp
  from one have "insert_results [outcome_row J st (f i)] d = (Inr (), d1)"
    by (auto simp: det_record_def with_state_def on_db_def hbind_def set_state_def
        split: sum.splits prod.splits) (metis prod.collapse)+
  then have "db_judgements d1 = db_judgements d" by (simp add: insert_results_keeps)
  with Cons.IH [OF rest] Cons.prems(2) st1 det_record_summary [OF one Cons.prems(2)]
  show ?case by simp
qed

context contest_judge
begin

lemma recover_summary:
  assumes "db_faults d = []" and "0 < js_judgement_id (de_request st)" and "finite_state st"
    and "judgement_open (db_judgements d) (de_request st)"
  shows "row_summary (recover J st d) (de_request st) = row_summary d (de_request st) @
    map (\<lambda>i. (i, verdict_column SystemError)) (unrecorded_ids st)"
proof -
  let ?w = "wire_state st"
  let ?f = "\<lambda>i. outcome_filled i SystemError EVALUATION_PERSIST_FAILED"
  from fill_unrecorded_total [OF assms(1), of ?w J SystemError EVALUATION_PERSIST_FAILED] assms(2)
  obtain d1 where fill: "fill_unrecorded J SystemError EVALUATION_PERSIST_FAILED (?w, d) =
      (Inr (), (retain_all (map ?f (unrecorded_ids ?w)) ?w, d1))" by auto
  then have many: "hmapM (\<lambda>i. det_record J (?f i)) (unrecorded_ids ?w) (?w, d) =
      (Inr (), (retain_all (map ?f (unrecorded_ids ?w)) ?w, d1))"
    by (simp add: fill_unrecorded_def with_state_def)
  obtain r st2 d2 where fin: "det_finalize J (retain_all (map ?f (unrecorded_ids ?w)) ?w, d1) = (r, (st2, d2))"
    by (metis prod.collapse)
  have "recover J st d = d2"
    using fill fin
    by (simp add: recover_def state_from_value_finite [OF assms(3)] hbind_def hignore_def)
  moreover have "db_results d2 = db_results d1" using det_finalize_ok [OF fin] by simp
  moreover have "unrecorded_ids ?w = unrecorded_ids st" by (simp add: unrecorded_ids_def)
  ultimately show ?thesis using record_many_summary [OF many] assms(4)
    by (simp add: row_summary_def session_rows_def outcome_filled_def)
qed

end

end
