(* ===== verification/Samples.thy ===== *)
theory Samples
  imports Detached
begin

text \<open>
  A small concrete judge: one submission with one open judgement, two test cases, and the
  results a worker may report for them. The examples of the development are about it.
\<close>

definition sample_cols :: result_cols where
  "sample_cols = \<lparr>c_status = Running, c_verdict = None, c_score = None, c_time_used = None,
     c_memory_used = None, c_compile_output = None, c_error_code = None, c_error_message = None\<rparr>"

definition sample_submission_row :: submission_row where
  "sample_submission_row = \<lparr>s_id = 1, s_user_id = 7, s_problem_id = 3, s_contest_id = Some 5,
     s_language = lit ''cpp'', s_mode = lit ''Submit'', s_created_at = 0, s_judge_epoch = 1,
     s_cols = sample_cols, s_judged_at = None\<rparr>"

definition sample_judgement :: judgement_row where
  "sample_judgement = \<lparr>j_id = 1, j_submission_id = 1, j_version = 1, j_judge_epoch = 1,
     j_is_current = True, j_is_finalized = False, j_cols = sample_cols, j_finalized_at = None\<rparr>"

definition sample_db :: "rstr option list \<Rightarrow> db" where
  "sample_db faults =
    \<lparr>db_submissions = [sample_submission_row], db_judgements = [sample_judgement],
     db_results = [], db_faults = faults, db_now = 100\<rparr>"

definition sample_submission :: judged_submission where
  "sample_submission = \<lparr>js_submission_id = 1, js_judgement_id = 1, js_judge_epoch = 1,
     js_fire_after_judging = False, js_user_id = 7, js_problem_id = 3, js_contest_id = Some 5,
     js_language = lit ''cpp'', js_time_limit_ms = 1000, js_memory_limit_kb = 65536,
     js_problem_type = lit ''standard'', js_target_worker_id = None\<rparr>"

definition sample_case :: "i32 \<Rightarrow> scoring_case" where
  "sample_case i = \<lparr>sc_id = i, sc_score = f64_one, sc_is_sample = False, sc_position = i,
     sc_description = None, sc_label = None, sc_is_custom = False\<rparr>"

definition sample_session :: "'p \<Rightarrow> 'p det_eval" where
  "sample_session p = \<lparr>de_request = sample_submission, de_scoring_cases = [sample_case 1, sample_case 2],
     de_outcomes = [], de_recorded_ids = {}, de_marked_running = False, de_policy = p\<rparr>"

definition sample_result :: "i32 \<Rightarrow> verdict \<Rightarrow> test_case_verdict" where
  "sample_result i v = \<lparr>tv_test_case_id = i, tv_verdict = v, tv_score = f64_one, tv_time_used_ms = Some 10,
     tv_memory_used_kb = Some 20, tv_message = None, tv_stdout = None, tv_stderr = None\<rparr>"

lemmas sample_defs = sample_cols_def sample_submission_row_def sample_judgement_def sample_db_def
  sample_submission_def sample_case_def sample_session_def sample_result_def

lemma sample_simps [simp]:
  "db_faults (sample_db fs) = fs" "de_outcomes (sample_session p) = []"
  "de_request (sample_session p) = sample_submission"
  "map sc_id (de_scoring_cases (sample_session p)) = [1, 2]"
  "tv_test_case_id (sample_result i v) = i" "tv_verdict (sample_result i v) = v"
  by (simp_all add: sample_defs)

lemma sample_live: "judgement_live (db_judgements (sample_db fs)) sample_submission"
  by (simp add: judgement_live_def judgement_open_def judgement_key_def sample_defs)

lemma sample_inv: "session_inv (sample_session p) (sample_db fs)"
  by (simp add: session_inv_def session_rows_def outcome_ids_def sample_defs)

lemma sample_finite: "finite_state (sample_session p)"
  by (simp add: finite_state_def sample_defs f64_one_def)

text \<open>The definitions that evaluate the store and the driver on concrete data.\<close>

lemmas store_eval = submission_update_call_def submission_update_new_def host_submission_update_def
  execute_def push_judge_sets_def wire_update_def update_judgements_def update_submissions_def
  submission_status_is_terminal_def push_double_opt_def push_double_opt_str_def Let_def
  judgement_update_matches_def submission_update_matches_def host_status_is_terminal_def
  insert_results_def host_insert_results_def insert_rows_def row_accepted_by_def wire_row_def
  wire_verdict_id stored_row_def update_judgement_row_def update_submission_row_def
  is_terminal_marker_def apply_sets_def

lemmas driver_eval = on_result_def outcome_from_verdict_def mark_running_def set_running_def
  det_record_def outcome_row_def find_case_def build_tc_row_def retain_outcome_def policy_step_def
  progress_of_def default_db_score_def apply_step_def short_circuit_def fill_unrecorded_def
  unrecorded_ids_def outcome_filled_def host_simps

end
