(* ===== verification/JudgeClaims.thy ===== *)
theory JudgeClaims
  imports Samples
begin

text \<open>
  Properties of the write path and of the session driver that hold for every contest type.
\<close>

text \<open>
  C3: whatever calls of current or superseded judging runs reach the database, in any
  order and with any failures, a judgement that is finalized and a submission whose status is
  terminal keep every column.
\<close>

theorem closed_rows_never_change:
  assumes "store_step\<^sup>*\<^sup>* d d'"
  shows "(i < length (db_judgements d) \<and> j_is_finalized (db_judgements d ! i) \<longrightarrow>
      db_judgements d' ! i = db_judgements d ! i) \<and>
    (k < length (db_submissions d) \<and> host_status_is_terminal (c_status (s_cols (db_submissions d ! k))) \<longrightarrow>
      db_submissions d' ! k = db_submissions d ! k)"
  using store_run_frozen [OF assms] by (auto simp: judgements_frozen_def submissions_frozen_def)

definition sample_closed_db :: db where
  "sample_closed_db = (sample_db [])\<lparr>db_judgements := [sample_judgement\<lparr>j_is_finalized := True\<rparr>]\<rparr>"

theorem closed_rows_never_change_witness:
  "db_judgements (snd (submission_update_call
      ((submission_update_new 1 1 1)\<lparr>u_status := Some SJudged, u_verdict := Some (Some Accepted)\<rparr>)
      sample_closed_db)) ! 0 = sample_judgement\<lparr>j_is_finalized := True\<rparr>"
proof -
  let ?u = "(submission_update_new 1 1 1)\<lparr>u_status := Some SJudged, u_verdict := Some (Some Accepted)\<rparr>"
  have "store_step sample_closed_db (snd (submission_update_call ?u sample_closed_db))"
    by (rule st_update [OF surjective_pairing])
  then have "store_step\<^sup>*\<^sup>* sample_closed_db (snd (submission_update_call ?u sample_closed_db))" ..
  from closed_rows_never_change [OF this, of 0 0] show ?thesis
    by (simp add: sample_closed_db_def)
qed

text \<open>
  An update for a judgement that is closed, or that belongs to a newer epoch, changes
  nothing in the database and reports no affected row, so that the plugin sees a stale epoch.
\<close>

theorem stale_update_has_no_effect:
  assumes "judgement_closed d (u_judgement_id u) (u_judge_epoch u)"
    and "submission_update_call u d = (r, d')" and "push_judge_sets u \<noteq> []"
  shows "d' = d\<lparr>db_faults := db_faults d'\<rparr> \<and> (\<forall>n. r = Inr n \<longrightarrow> n = 0)"
  using submission_update_call_closed [OF assms] .

theorem stale_update_has_no_effect_witness:
  "set_running 1 1 9 (sample_db []) = (Inr 0, sample_db [])"
proof -
  let ?u = "(submission_update_new 1 1 9)\<lparr>u_status := Some SRunning\<rparr>"
  have closed: "judgement_closed (sample_db []) (u_judgement_id ?u) (u_judge_epoch ?u)"
    by (simp add: judgement_closed_def submission_update_new_def sample_defs)
  have "push_judge_sets ?u \<noteq> []" by (simp add: push_judge_sets_def)
  moreover obtain r d' where run: "submission_update_call ?u (sample_db []) = (r, d')" by force
  ultimately have "d' = (sample_db [])\<lparr>db_faults := db_faults d'\<rparr> \<and> (\<forall>n. r = Inr n \<longrightarrow> n = 0)"
    using stale_update_has_no_effect [OF closed] by blast
  moreover have "db_faults d' = []" "\<exists>n. r = Inr n"
    using run by (auto simp: submission_update_call_def host_submission_update_def hbind_def hret_def
        execute_no_fault submission_update_new_def update_judgements_def update_submissions_def Let_def
        split: if_splits)
  ultimately show ?thesis using run by (auto simp: set_running_def sample_db_def)
qed



end
