(* ===== verification/IcpcJudge.thy ===== *)
theory IcpcJudge
  imports Samples
begin

text \<open>
  The ICPC contest type as a judge: the policy \<open>IcpcJudge\<close> of
  \<open>plugins/icpc/src/evaluate.rs\<close>, the terminal update of \<open>plugins/icpc/src/persist.rs\<close> and
  the entry points of \<open>plugins/icpc/src/lib.rs\<close> that start a session, receive its results and
  recover from failures. The policy is an instance of the interface
  \<open>contest_judge_total\<close>, so the driver's guarantees hold for it.
\<close>

section \<open>The policy\<close>

record eval_outcome =
  eo_test_case_id :: i32
  eo_verdict :: verdict
  eo_time_used :: "i32 option"
  eo_memory_used :: "i32 option"
  eo_message :: "rstr option"
  eo_stdout :: "rstr option"
  eo_stderr :: "rstr option"

record eval_result =
  er_outcomes :: "eval_outcome list"
  er_is_compile_error :: bool
  er_is_accepted :: bool

definition icpc_score :: "unit \<Rightarrow> test_case_verdict \<Rightarrow> case_outcome" where
  "icpc_score p result =
    outcome_from_verdict result (if tv_verdict result = Accepted then f64_one else f64_zero)"

definition icpc_next_step :: "unit \<Rightarrow> judge_progress \<Rightarrow> judge_step \<times> unit" where
  "icpc_next_step p progress =
    ((case pr_last progress of
        Some outcome \<Rightarrow> if co_verdict outcome \<noteq> Accepted then short_circuit else Continue
      | None \<Rightarrow> Continue), p)"

definition eval_outcome_from_case :: "case_outcome \<Rightarrow> eval_outcome" where
  "eval_outcome_from_case oc =
    \<lparr>eo_test_case_id = co_test_case_id oc, eo_verdict = co_verdict oc,
     eo_time_used = co_time_used oc, eo_memory_used = co_memory_used oc,
     eo_message = co_message oc, eo_stdout = None, eo_stderr = None\<rparr>"

section \<open>The terminal update\<close>

definition non_skipped_of :: "eval_outcome list \<Rightarrow> eval_outcome list" where
  "non_skipped_of ocs = filter (\<lambda>oc. \<not> is_skipped_or_cancelled (eo_verdict oc)) ocs"

definition terminal_verdict :: "eval_outcome list \<Rightarrow> verdict" where
  "terminal_verdict non_skipped =
    (if non_skipped = [] then SystemError
     else (case max_by_key severity (map eo_verdict non_skipped) of Some v \<Rightarrow> v | None \<Rightarrow> SystemError))"

definition terminal_update :: "i32 \<Rightarrow> i32 \<Rightarrow> i32 \<Rightarrow> eval_result \<Rightarrow> submission_update" where
  "terminal_update sid jid ep eval =
    (let non_skipped = non_skipped_of (er_outcomes eval);
         v = terminal_verdict non_skipped;
         is_ce = (v = CompileError)
     in \<lparr>u_submission_id = sid, u_judgement_id = jid, u_judge_epoch = ep,
         u_status = Some (if is_ce then SCompilationError else SJudged),
         u_verdict = Some (if is_ce then None else Some v),
         u_score = Some (if er_is_accepted eval \<and> non_skipped \<noteq> [] then f64_one else f64_zero),
         u_time_used = Some (opt_max (List.map_filter eo_time_used non_skipped)),
         u_memory_used = Some (opt_max (List.map_filter eo_memory_used non_skipped)),
         u_compile_output = Some (if is_ce
            then Option.bind (List.find (\<lambda>oc. eo_verdict oc = CompileError) (er_outcomes eval)) eo_message
            else None),
         u_error_code = None, u_error_message = None\<rparr>)"

definition ok_output :: on_submission_output where
  "ok_output = \<lparr>out_success = True, out_error_message = None\<rparr>"

definition persist_and_track ::
  "i32 \<Rightarrow> i32 \<Rightarrow> i32 \<Rightarrow> eval_result \<Rightarrow> ('z, on_submission_output) dbcall" where
  "persist_and_track sid jid ep eval =
    hbind (submission_update_call (terminal_update sid jid ep eval))
      (\<lambda>affected. if affected = 0 then hthrow StaleEpoch else hret ok_output)"

definition icpc_eval_result :: "case_outcome list \<Rightarrow> eval_result" where
  "icpc_eval_result ocs =
    (let is_compile_error = (\<exists>oc \<in> set ocs. co_verdict oc = CompileError) in
     \<lparr>er_outcomes = map eval_outcome_from_case ocs, er_is_compile_error = is_compile_error,
      er_is_accepted = (\<not> is_compile_error \<and> (\<forall>oc \<in> set ocs. co_verdict oc = Accepted))\<rparr>)"

definition icpc_finalize :: "unit \<Rightarrow> judge_progress \<Rightarrow> ('z, unit) dbcall" where
  "icpc_finalize p progress =
    (let sub = pr_submission progress in
     hbind (persist_and_track (js_submission_id sub) (js_judgement_id sub) (js_judge_epoch sub)
              (icpc_eval_result (pr_outcomes progress))) (\<lambda>_. hret ()))"

definition icpc_judge :: "(unit, 'z) judge_ops" where
  "icpc_judge = \<lparr>jo_score = icpc_score, jo_db_score = default_db_score,
                 jo_next_step = icpc_next_step, jo_finalize = icpc_finalize\<rparr>"

section \<open>Entry points\<close>

text \<open>
  The host's evaluate service and the rendering of an error are parameters, as in
  \<^const>\<open>det_start\<close>.
\<close>

type_synonym 'z start_service =
  "start_evaluate_batch \<Rightarrow> nat \<Rightarrow> i32 \<Rightarrow> unit det_eval \<Rightarrow> ('z, unit) dbcall"

definition evaluate_short_circuit_detached ::
  "'z start_service \<Rightarrow> (sdk_error \<Rightarrow> rstr) \<Rightarrow> on_submission_input \<Rightarrow> test_case_row list \<Rightarrow>
   ('z, on_submission_output) dbcall" where
  "evaluate_short_circuit_detached svc debug req test_cases =
    hbind (det_start icpc_judge svc debug req test_cases () 1) (\<lambda>_. hret ok_output)"

definition error_output :: "(sdk_error \<Rightarrow> rstr) \<Rightarrow> sdk_error \<Rightarrow> on_submission_output" where
  "error_output debug e = \<lparr>out_success = False, out_error_message = Some (debug e)\<rparr>"

text \<open>\<open>match r { Ok(out) => out, Err(StaleEpoch) => success, Err(e) => failure }\<close>.\<close>

definition settle :: "(sdk_error \<Rightarrow> rstr) \<Rightarrow> ('z, on_submission_output) dbcall \<Rightarrow>
    'z db_scheme \<Rightarrow> on_submission_output \<times> 'z db_scheme" where
  "settle debug m d =
    (case m d of
       (Inr out, d') \<Rightarrow> (out, d')
     | (Inl StaleEpoch, d') \<Rightarrow> (ok_output, d')
     | (Inl e, d') \<Rightarrow> (error_output debug e, d'))"

definition empty_update :: "on_submission_input \<Rightarrow> verdict \<Rightarrow> submission_update" where
  "empty_update req v =
    (submission_update_new (os_submission_id req) (os_judgement_id req) (os_judge_epoch req))
      \<lparr>u_status := Some SJudged, u_verdict := Some (Some v), u_score := Some f64_zero,
       u_time_used := Some None, u_memory_used := Some None\<rparr>"

definition run_judge ::
  "'z start_service \<Rightarrow> (sdk_error \<Rightarrow> rstr) \<Rightarrow> on_submission_input \<Rightarrow> ('z, on_submission_output) dbcall" where
  "run_judge svc debug req =
    (if os_test_cases req = []
     then hbind (submission_update_call ((empty_update req SystemError)
              \<lparr>u_error_code := Some (Some (lit ''NO_TEST_CASES'')),
               u_error_message := Some (Some (lit ''Problem has no test cases; cannot be judged''))\<rparr>))
            (\<lambda>affected. if affected = 0 then hthrow StaleEpoch else hret ok_output)
     else (\<lambda>d. case evaluate_short_circuit_detached svc debug req (os_test_cases req) d of
             (Inl StaleEpoch, d') \<Rightarrow> (Inr ok_output, d')
           | r \<Rightarrow> r))"

definition persist_empty_standalone :: "on_submission_input \<Rightarrow> ('z, on_submission_output) dbcall" where
  "persist_empty_standalone req =
    hbind (submission_update_call (empty_update req Accepted))
      (\<lambda>affected. if affected = 0 then hthrow StaleEpoch else hret ok_output)"

definition run_standalone_judge ::
  "'z start_service \<Rightarrow> (sdk_error \<Rightarrow> rstr) \<Rightarrow> on_submission_input \<Rightarrow>
   'z db_scheme \<Rightarrow> on_submission_output \<times> 'z db_scheme" where
  "run_standalone_judge svc debug req =
    (if os_test_cases req = [] then settle debug (persist_empty_standalone req)
     else settle debug (evaluate_short_circuit_detached svc debug req (os_test_cases req)))"

definition handle_icpc_submission ::
  "'z start_service \<Rightarrow> (sdk_error \<Rightarrow> rstr) \<Rightarrow> on_submission_input \<Rightarrow>
   'z db_scheme \<Rightarrow> on_submission_output \<times> 'z db_scheme" where
  "handle_icpc_submission svc debug req =
    (case os_contest_id req of
       None \<Rightarrow> run_standalone_judge svc debug req
     | Some _ \<Rightarrow> settle debug (run_judge svc debug req))"

definition handle_detached_eval_callback ::
  "unit det_eval \<Rightarrow> callback_event \<Rightarrow> ('z, unit callback_output) dbcall" where
  "handle_detached_eval_callback = handle_callback icpc_judge"

definition recover_detached_callback_error :: "unit det_eval \<Rightarrow> 'z db_scheme \<Rightarrow> 'z db_scheme" where
  "recover_detached_callback_error = recover icpc_judge"

text \<open>The exported callback: it always replies, from the state it was given when a call fails.\<close>

definition on_icpc_eval_result ::
  "unit det_eval \<Rightarrow> callback_event \<Rightarrow> 'z db_scheme \<Rightarrow> unit callback_output \<times> 'z db_scheme" where
  "on_icpc_eval_result st ev d =
    (case handle_detached_eval_callback st ev d of
       (Inr out, d') \<Rightarrow> (out, d')
     | (Inl StaleEpoch, d') \<Rightarrow> (cb_cancel st, d')
     | (Inl _, d') \<Rightarrow> (cb_cancel st, recover_detached_callback_error st d'))"

section \<open>The instance of the driver's interface\<close>

lemma terminal_update_ids [simp]:
  "u_submission_id (terminal_update sid jid ep eval) = sid"
  "u_judgement_id (terminal_update sid jid ep eval) = jid"
  "u_judge_epoch (terminal_update sid jid ep eval) = ep"
  by (simp_all add: terminal_update_def Let_def)

lemma terminal_update_terminal [simp]: "is_terminal_marker (terminal_update sid jid ep eval)"
  by (simp add: is_terminal_marker_def terminal_update_def Let_def)

interpretation icpc: contest_judge_total "icpc_judge :: (unit, 'z) judge_ops" "\<lambda>_. True"
proof
  fix p v
  show "co_test_case_id (jo_score icpc_judge p v) = tv_test_case_id v"
    by (simp add: icpc_judge_def icpc_score_def outcome_from_verdict_def)
  show "f64_is_finite (co_score (jo_score icpc_judge p v))"
    by (simp add: icpc_judge_def icpc_score_def outcome_from_verdict_def f64_zero_def f64_one_def)
next
  fix p pr ids p'
  assume "jo_next_step icpc_judge p pr = (Cancel ids, p')"
  then show "distinct ids \<and> set ids \<inter> pr_recorded_ids pr = {}"
    by (auto simp: icpc_judge_def icpc_next_step_def short_circuit_def split: option.splits if_splits)
next
  fix p pr
  show "fst (jo_next_step icpc_judge p pr) \<noteq> Finish None"
    by (auto simp: icpc_judge_def icpc_next_step_def short_circuit_def split: option.splits)
next
  fix p and pr :: judge_progress and d d' :: "'z db_scheme" and r
  assume fin: "jo_finalize icpc_judge p pr d = (r, d')"
  let ?s = "pr_submission pr"
  let ?u = "terminal_update (js_submission_id ?s) (js_judgement_id ?s) (js_judge_epoch ?s)
    (icpc_eval_result (pr_outcomes pr))"
  obtain r1 d1 where run: "submission_update_call ?u d = (r1, d1)" by force
  with fin have "d' = d1"
    by (auto simp: icpc_judge_def icpc_finalize_def persist_and_track_def Let_def hbind_def hret_def
        hthrow_def split: sum.splits if_splits)
  with submission_update_call_frozen [OF run] show "db_results d' = db_results d" by simp
next
  fix d :: "'z db_scheme" and p and pr :: judge_progress
  assume "db_faults d = []" and "judgement_live (db_judgements d) (pr_submission pr)"
  then obtain n d' where "submission_update_call (terminal_update (js_submission_id (pr_submission pr))
      (js_judgement_id (pr_submission pr)) (js_judge_epoch (pr_submission pr))
      (icpc_eval_result (pr_outcomes pr))) d = (Inr n, d')" "0 < n" "sealed d' (pr_submission pr)"
    using terminal_update_total [of d "pr_submission pr"] by (metis terminal_update_ids terminal_update_terminal)
  then show "\<exists>d'. jo_finalize icpc_judge p pr d = (Inr (), d') \<and> sealed d' (pr_submission pr)"
    by (simp add: icpc_judge_def icpc_finalize_def persist_and_track_def Let_def hbind_def hret_def)
qed

section \<open>What the terminal update says\<close>

lemma severity_zero: "severity v = 0 \<longleftrightarrow> v = Accepted \<or> is_skipped_or_cancelled v"
  by (cases v) (auto simp: is_skipped_or_cancelled_def)

lemma terminal_verdict_in:
  "ns \<noteq> [] \<Longrightarrow> terminal_verdict ns \<in> eo_verdict ` set ns \<and>
     (\<forall>oc \<in> set ns. severity (eo_verdict oc) \<le> severity (terminal_verdict ns))"
  using max_by_key_Some [of severity "map eo_verdict ns"]
  by (cases "max_by_key severity (map eo_verdict ns)") (auto simp: terminal_verdict_def)

lemma terminal_verdict_accepted:
  "terminal_verdict (non_skipped_of ocs) = Accepted \<longleftrightarrow>
     non_skipped_of ocs \<noteq> [] \<and> (\<forall>oc \<in> set (non_skipped_of ocs). eo_verdict oc = Accepted)"
proof (cases "non_skipped_of ocs = []")
  case True
  then show ?thesis by (simp add: terminal_verdict_def)
next
  case False
  have ns: "\<forall>oc \<in> set (non_skipped_of ocs). \<not> is_skipped_or_cancelled (eo_verdict oc)"
    by (simp add: non_skipped_of_def)
  from terminal_verdict_in [OF False] ns False show ?thesis
    by (auto simp: severity_zero)
qed

section \<open>A whole session\<close>

definition verdicts_of :: "unit det_eval \<Rightarrow> verdict list" where
  "verdicts_of st = map co_verdict (de_outcomes st)"

lemma verdicts_retain_all:
  "verdicts_of (retain_all ocs st) = verdicts_of st @ map co_verdict ocs"
  by (induction ocs arbitrary: st) (auto simp: retain_all_def verdicts_of_def retain_outcome_def)

lemma verdicts_fill: "\<exists>m. verdicts_of (fill_state v msg st) = verdicts_of st @ replicate m v"
  unfolding fill_state_def verdicts_retain_all
  by (rule exI [of _ "length (unrecorded_ids st)"])
    (auto simp: outcome_filled_def comp_def map_replicate_const)

lemma all_recorded_fill: "all_recorded (fill_state v m st)"
  by (auto simp: fill_state_def all_recorded_def unrecorded_ids_def image_iff)

lemma icpc_next_accepted:
  assumes "tv_test_case_id v \<notin> de_recorded_ids st" and "tv_verdict v = Accepted"
  shows "verdicts_of (det_next (icpc_judge :: (unit, 'z) judge_ops) st v) = verdicts_of st @ [Accepted] \<and>
    de_recorded_ids (det_next (icpc_judge :: (unit, 'z) judge_ops) st v) = insert (tv_test_case_id v) (de_recorded_ids st)"
  using assms
  by (simp add: det_next_def icpc_judge_def icpc_score_def outcome_from_verdict_def icpc_next_step_def
      progress_of_def Let_def step_state_def retain_outcome_def verdicts_of_def)

lemma icpc_next_bad:
  assumes "tv_test_case_id v \<notin> de_recorded_ids st" and "tv_verdict v \<noteq> Accepted"
  shows "all_recorded (det_next (icpc_judge :: (unit, 'z) judge_ops) st v) \<and>
    (\<exists>m. verdicts_of (det_next (icpc_judge :: (unit, 'z) judge_ops) st v) = verdicts_of st @ tv_verdict v # replicate m Skipped)"
proof -
  let ?oc = "icpc_score () v"
  have v: "co_verdict ?oc = tv_verdict v" by (simp add: icpc_score_def outcome_from_verdict_def)
  obtain st1 where st1: "verdicts_of st1 = verdicts_of st @ [tv_verdict v]"
    "det_next (icpc_judge :: (unit, 'z) judge_ops) st v = fill_state Skipped SKIPPED_SHORT_CIRCUIT st1"
  proof (cases "tv_verdict v = CompileError")
    case True
    with assms v that [of "retain_outcome ?oc st"] show ?thesis
      by (simp add: det_next_def icpc_judge_def Let_def retain_outcome_def verdicts_of_def)
  next
    case False
    with assms v that [of "(retain_outcome ?oc (st\<lparr>de_marked_running := True\<rparr>))\<lparr>de_policy := ()\<rparr>"]
    show ?thesis
      by (simp add: det_next_def icpc_judge_def Let_def retain_outcome_def verdicts_of_def
          icpc_next_step_def progress_of_def short_circuit_def step_state_def)
  qed
  with verdicts_fill [of Skipped SKIPPED_SHORT_CIRCUIT st1] show ?thesis by (auto simp: all_recorded_fill)
qed

lemma wire_accepted [simp]: "wire_verdict Accepted = Accepted"
  unfolding wire_verdict_def by (rule verdict_deserialize_display) simp

lemma verdicts_wire: "verdicts_of (wire_state st) = map wire_verdict (verdicts_of st)"
  by (simp add: verdicts_of_def wire_state_def comp_def)

text \<open>
  The outcomes of a session that received each case once: all accepted, or accepted cases up
  to the first other verdict and \<open>Skipped\<close> after it.
\<close>

definition outcome_shape :: "verdict list \<Rightarrow> test_case_verdict list \<Rightarrow> verdict list \<Rightarrow> bool" where
  "outcome_shape base vs res \<longleftrightarrow>
    (case dropWhile (\<lambda>v. tv_verdict v = Accepted) vs of
       [] \<Rightarrow> res = base @ map (\<lambda>_. Accepted) vs
     | b # _ \<Rightarrow> \<exists>m. res = base @ map (\<lambda>_. Accepted) (takeWhile (\<lambda>v. tv_verdict v = Accepted) vs) @
         tv_verdict b # replicate m Skipped)"

lemma outcome_shape_accepted:
  "tv_verdict v = Accepted \<Longrightarrow> outcome_shape (base @ [Accepted]) vs res \<Longrightarrow> outcome_shape base (v # vs) res"
  by (cases "dropWhile (\<lambda>v. tv_verdict v = Accepted) vs")
    (simp_all add: outcome_shape_def del: dropWhile_eq_Nil_conv)

lemma icpc_run_outcomes:
  fixes d :: "'z db_scheme"
  assumes "session_inv st d" and "finite_state st" and "db_faults d = []"
    and "judgement_live (db_judgements d) (de_request st)" and "\<not> all_recorded st"
    and "set (map sc_id (de_scoring_cases st)) \<subseteq> de_recorded_ids st \<union> set (map tv_test_case_id vs)"
    and "distinct (map tv_test_case_id vs)" and "set (map tv_test_case_id vs) \<inter> de_recorded_ids st = {}"
    and "set (map tv_test_case_id vs) \<subseteq> set (map sc_id (de_scoring_cases st))"
    and "set (verdicts_of st) \<subseteq> {Accepted}"
  shows "\<exists>out d'. session_run icpc_judge st vs d = (Inr out, d') \<and> cb_action out = ActFinish \<and>
    all_recorded (cb_state out) \<and> session_inv (cb_state out) d' \<and>
    finalized_by icpc_judge (cb_state out) d' \<and> de_request (cb_state out) = de_request st \<and>
    outcome_shape (verdicts_of st) vs (verdicts_of (cb_state out))"
  using assms
proof (induction vs arbitrary: st d)
  case Nil
  then show ?case by (auto simp: all_recorded_def)
next
  case (Cons v vs)
  let ?J = "icpc_judge :: (unit, 'z) judge_ops"
  let ?w = "wire_state st"
  have w: "verdicts_of ?w = verdicts_of st"
    using Cons.prems(10) by (auto simp: verdicts_wire intro!: map_idI)
  from Cons.prems have new: "tv_test_case_id v \<notin> de_recorded_ids st" by auto
  obtain out d' where cb: "handle_callback ?J st (EvResult v) d = (Inr out, d')"
    "session_inv (cb_state out) d'" "finite_state (cb_state out)"
    "de_scoring_cases (cb_state out) = de_scoring_cases st" "de_request (cb_state out) = de_request st"
    "insert (tv_test_case_id v) (de_recorded_ids st) \<subseteq> de_recorded_ids (cb_state out)"
    and act: "cb_action out = ActFinish \<and> all_recorded (cb_state out) \<and> finalized_by ?J (cb_state out) d' \<or>
     cb_action out = ActContinue \<and> quiet d d' \<and> cb_refill out = (\<not> all_recorded (cb_state out)) \<and>
       (all_recorded (cb_state out) \<longrightarrow> all_recorded st)"
    by (rule icpc.callback_result [OF Cons.prems(1-4) TrueI, of v])
  then obtain st' where "on_result ?J v (?w, d) = (Inr out, (st', d'))"
    by (auto simp: handle_callback_def state_from_value_finite [OF Cons.prems(2)] split: prod.splits)
  from on_result_state [OF this] have nxt: "cb_state out = det_next ?J ?w v" by simp
  show ?case
  proof (cases "tv_verdict v = Accepted")
    case True
    have acc: "verdicts_of (cb_state out) = verdicts_of st @ [Accepted]"
      "de_recorded_ids (cb_state out) = insert (tv_test_case_id v) (de_recorded_ids st)"
      using icpc_next_accepted [where ?'z = 'z, of v ?w] new True w nxt by simp_all
    from act show ?thesis
    proof
      assume fin: "cb_action out = ActFinish \<and> all_recorded (cb_state out) \<and> finalized_by ?J (cb_state out) d'"
      have "vs = []"
      proof (rule ccontr)
        assume "vs \<noteq> []"
        then have u: "tv_test_case_id (hd vs) \<in> set (map tv_test_case_id vs)" by simp
        have "tv_test_case_id (hd vs) \<in> de_recorded_ids (cb_state out)"
        proof -
          have "set (map sc_id (de_scoring_cases st)) \<subseteq> de_recorded_ids (cb_state out)"
            using fin cb(4) by (auto simp: all_recorded_def)
          with u Cons.prems(9) show ?thesis by auto
        qed
        moreover have "tv_test_case_id (hd vs) \<noteq> tv_test_case_id v" using u Cons.prems(7) by auto
        ultimately show False using u Cons.prems(8) acc(2) by auto
      qed
      with fin cb acc True show ?thesis by (simp add: outcome_shape_def)
    next
      assume c: "cb_action out = ActContinue \<and> quiet d d' \<and> cb_refill out = (\<not> all_recorded (cb_state out)) \<and>
        (all_recorded (cb_state out) \<longrightarrow> all_recorded st)"
      then have q: "quiet d d'" by simp
      have rest: "\<exists>out' d''. session_run ?J (cb_state out) vs d' = (Inr out', d'') \<and> cb_action out' = ActFinish \<and>
        all_recorded (cb_state out') \<and> session_inv (cb_state out') d'' \<and>
        finalized_by ?J (cb_state out') d'' \<and> de_request (cb_state out') = de_request (cb_state out) \<and>
        outcome_shape (verdicts_of (cb_state out)) vs (verdicts_of (cb_state out'))"
        by (rule Cons.IH [OF cb(2,3)])
          (use c q cb acc Cons.prems(4-10) quiet_live [OF q] in \<open>auto simp: quiet_def\<close>)
      with c cb acc outcome_shape_accepted [OF True] show ?thesis by auto
    qed
  next
    case False
    from icpc_next_bad [where ?'z = 'z, of v ?w] new False w nxt obtain m where
      m: "verdicts_of (cb_state out) = verdicts_of st @ tv_verdict v # replicate m Skipped" by auto
    from icpc_next_bad [where ?'z = 'z, of v ?w] new False nxt have "all_recorded (cb_state out)" by auto
    with act Cons.prems(5) have "cb_action out = ActFinish" by auto
    with act cb m False show ?thesis by (auto simp: outcome_shape_def)
  qed
qed

text \<open>
  What the judgement row says at the end of a session, from the verdicts of the outcomes, and
  for a stream of results: the first verdict other than \<open>Accepted\<close> decides.
\<close>

definition terminal_cols :: "verdict list \<Rightarrow> host_status \<times> rstr option \<times> f64" where
  "terminal_cols vs =
    (let ns = filter (\<lambda>v. \<not> is_skipped_or_cancelled v) vs;
         v = (case max_by_key severity ns of Some v \<Rightarrow> v | None \<Rightarrow> SystemError)
     in (if v = CompileError then CompilationError else Judged,
         if v = CompileError then None else Some (sanitize_nul_bytes (to_db_str (wire_verdict v))),
         if vs \<noteq> [] \<and> (\<forall>v \<in> set vs. v = Accepted) then f64_one else f64_zero))"

definition judged_as :: "test_case_verdict list \<Rightarrow> host_status \<times> rstr option \<times> f64" where
  "judged_as vs =
    (case dropWhile (\<lambda>v. tv_verdict v = Accepted) vs of
       [] \<Rightarrow> (Judged, Some (lit ''Accepted''), f64_one)
     | b # _ \<Rightarrow>
         if tv_verdict b = CompileError then (CompilationError, None, f64_zero)
         else if is_skipped_or_cancelled (tv_verdict b)
         then (Judged, Some (if takeWhile (\<lambda>v. tv_verdict v = Accepted) vs = [] then lit ''SystemError''
                             else lit ''Accepted''), f64_zero)
         else (Judged, Some (sanitize_nul_bytes (to_db_str (wire_verdict (tv_verdict b)))), f64_zero))"

definition row_cols :: "judgement_row \<Rightarrow> host_status \<times> rstr option \<times> f64 option" where
  "row_cols j = (c_status (j_cols j), c_verdict (j_cols j), c_score (j_cols j))"

lemma terminal_verdict_map:
  "terminal_verdict (non_skipped_of (map eval_outcome_from_case ocs)) =
    (case max_by_key severity (filter (\<lambda>v. \<not> is_skipped_or_cancelled v) (map co_verdict ocs)) of
       Some v \<Rightarrow> v | None \<Rightarrow> SystemError)"
  by (simp add: terminal_verdict_def non_skipped_of_def filter_map comp_def eval_outcome_from_case_def
      filter_empty_conv split: option.splits)

lemma terminal_verdict_none [simp]: "terminal_verdict (non_skipped_of []) = SystemError"
  by (simp add: terminal_verdict_def non_skipped_of_def)

lemma terminal_update_row:
  "row_cols (update_judgement_row (wire_update (terminal_update sid jid ep (icpc_eval_result ocs))) now j) =
    (let (st, v, sc) = terminal_cols (map co_verdict ocs) in (st, v, Some sc))"
proof -
  let ?ns = "non_skipped_of (map eval_outcome_from_case ocs)"
  have acc: "(\<not> (\<exists>oc \<in> set ocs. co_verdict oc = CompileError) \<and> (\<forall>oc \<in> set ocs. co_verdict oc = Accepted)
      \<and> ?ns \<noteq> []) \<longleftrightarrow> ocs \<noteq> [] \<and> (\<forall>oc \<in> set ocs. co_verdict oc = Accepted)"
    by (cases ocs) (auto simp: non_skipped_of_def eval_outcome_from_case_def is_skipped_or_cancelled_def
        filter_empty_conv)
  have fin: "finite_or_zero (if b then f64_one else f64_zero) = (if b then f64_one else f64_zero)" for b
    by (simp add: finite_or_zero_def f64_zero_def f64_one_def)
  show ?thesis
    using acc
    by (simp add: row_cols_def update_judgement_row_def Let_def terminal_update_def icpc_eval_result_def
        wire_update_def push_judge_sets_def push_double_opt_def push_double_opt_str_def apply_sets_def
        submission_status_is_terminal_def terminal_cols_def terminal_verdict_map fin)
qed

lemma max_severity_accepted:
  "n \<noteq> 0 \<Longrightarrow> max_by_key severity (replicate n Accepted) = Some Accepted"
  using max_by_key_Some [of severity "replicate n Accepted"]
  by (cases "max_by_key severity (replicate n Accepted)") auto

lemma max_severity_bad:
  assumes "severity b \<noteq> 0"
  shows "max_by_key severity (replicate n Accepted @ [b]) = Some b"
proof (cases "max_by_key severity (replicate n Accepted @ [b])")
  case (Some x)
  from max_by_key_Some [OF Some] assms show ?thesis using Some
    by (auto simp: set_replicate_conv_if split: if_splits)
qed simp

lemma not_skipped_replicate [simp]:
  "filter (\<lambda>v. \<not> is_skipped_or_cancelled v) (replicate n Accepted) = replicate n Accepted"
  "filter (\<lambda>v. \<not> is_skipped_or_cancelled v) (replicate n Skipped) = []"
  by (simp_all add: filter_replicate is_skipped_or_cancelled_def)

lemma wire_system_error [simp]: "wire_verdict SystemError = SystemError"
  unfolding wire_verdict_def by (rule verdict_deserialize_display) simp

lemma sanitize_nul_names [simp]:
  "sanitize_nul_bytes (lit ''Accepted'') = lit ''Accepted''" "sanitize_nul_bytes (lit ''SystemError'') = lit ''SystemError''"
  "sanitize_nul_bytes (lit ''WrongAnswer'') = lit ''WrongAnswer''"
  by (simp_all add: sanitize_nul_bytes_def lit_def)

lemma terminal_cols_system_error:
  assumes "m \<noteq> 0"
  shows "terminal_cols (replicate n Accepted @ replicate m SystemError) =
    (Judged, Some (lit ''SystemError''), f64_zero)"
proof -
  let ?xs = "replicate n Accepted @ replicate m SystemError"
  have "max_by_key severity ?xs = Some SystemError"
  proof (cases "max_by_key severity ?xs")
    case None
    with assms show ?thesis by simp
  next
    case (Some x)
    have "SystemError \<in> set ?xs" using assms by simp
    with max_by_key_Some [OF Some] Some show ?thesis by (auto simp: set_replicate_conv_if split: if_splits)
  qed
  moreover have "filter (\<lambda>v. \<not> is_skipped_or_cancelled v) ?xs = ?xs"
    by (auto simp: filter_id_conv is_skipped_or_cancelled_def)
  moreover have "SystemError \<in> set ?xs" using assms by simp
  ultimately show ?thesis by (auto simp: terminal_cols_def Let_def)
qed

lemma terminal_cols_shape:
  assumes "outcome_shape [] vs res" and "vs \<noteq> []"
  shows "terminal_cols res = judged_as vs"
proof (cases "dropWhile (\<lambda>v. tv_verdict v = Accepted) vs")
  case Nil
  with assms have "res = replicate (length vs) Accepted"
    by (simp add: outcome_shape_def map_replicate_const del: dropWhile_eq_Nil_conv)
  with Nil assms(2) show ?thesis
    by (simp add: terminal_cols_def judged_as_def max_severity_accepted del: dropWhile_eq_Nil_conv)
next
  case (Cons b bs)
  let ?n = "length (takeWhile (\<lambda>v. tv_verdict v = Accepted) vs)"
  from Cons assms(1) obtain m where
    res: "res = replicate ?n Accepted @ tv_verdict b # replicate m Skipped"
    by (auto simp: outcome_shape_def map_replicate_const)
  have nb: "tv_verdict b \<noteq> Accepted" using Cons hd_dropWhile [of "\<lambda>v. tv_verdict v = Accepted" vs] by simp
  show ?thesis
  proof (cases "is_skipped_or_cancelled (tv_verdict b)")
    case True
    with res nb have "terminal_cols res = (case max_by_key severity (replicate ?n Accepted) of
        Some v \<Rightarrow> (Judged, Some (lit ''Accepted''), f64_zero)
      | None \<Rightarrow> (Judged, Some (lit ''SystemError''), f64_zero))"
      by (cases "?n = 0") (auto simp: terminal_cols_def Let_def max_severity_accepted)
    with True Cons show ?thesis
      by (cases "?n = 0") (auto simp: judged_as_def max_severity_accepted is_skipped_or_cancelled_def)
  next
    case False
    then have "severity (tv_verdict b) \<noteq> 0" using nb severity_zero by blast
    from max_severity_bad [OF this] res nb False Cons show ?thesis
      by (auto simp: terminal_cols_def judged_as_def Let_def)
  qed
qed

text \<open>The row a finished session leaves.\<close>

lemma finalized_by_row:
  assumes "finalized_by icpc_judge st d'"
  shows "\<exists>j \<in> set (db_judgements d'). j_id j = js_judgement_id (de_request st) \<and> j_is_finalized j \<and>
    row_cols j = (let (s, v, sc) = terminal_cols (verdicts_of st) in (s, v, Some sc))"
proof -
  let ?q = "de_request st"
  let ?u = "terminal_update (js_submission_id ?q) (js_judgement_id ?q) (js_judge_epoch ?q)
    (icpc_eval_result (de_outcomes st))"
  from assms obtain d where nf: "db_faults d = []" and live: "judgement_live (db_judgements d) ?q"
    and fin: "icpc_finalize (de_policy st) (progress_of st None) d = (Inr (), d')"
    by (auto simp: finalized_by_def icpc_judge_def)
  from terminal_update_total [OF nf live, of ?u] obtain n d1 j where
    run: "submission_update_call ?u d = (Inr n, d1)" "0 < n" and
    j: "j_id j = js_judgement_id ?q" "update_judgement_row (wire_update ?u) (db_now d) j \<in> set (db_judgements d1)"
    by auto
  have "d1 = d'" using fin run
    by (simp add: icpc_finalize_def persist_and_track_def progress_of_def Let_def hbind_def hret_def)
  moreover have "is_terminal_marker (wire_update ?u)"
    using terminal_update_terminal by (simp add: is_terminal_marker_def wire_update_def)
  then have "j_is_finalized (update_judgement_row (wire_update ?u) (db_now d) j)"
    by (simp add: update_judgement_row_def Let_def)
  moreover have "j_id (update_judgement_row (wire_update ?u) (db_now d) j) = j_id j"
    by (simp add: update_judgement_row_def Let_def)
  ultimately show ?thesis using j
    by (intro bexI [of _ "update_judgement_row (wire_update ?u) (db_now d) j"])
      (simp_all add: terminal_update_row verdicts_of_def)
qed

section \<open>Properties\<close>

text \<open>
  C1: an ICPC judging session whose database calls succeed and that receives one result
  per test case, in any order, ends with the reply Finish; every case then has exactly one
  result row, and the judgement row is finalized with the status, verdict and score that the
  stream of results determines: Accepted with score 1 when every case is accepted, otherwise
  what the first other verdict says.
\<close>

theorem icpc_session_judged:
  fixes d :: "'z db_scheme"
  assumes "session_inv st d" and "finite_state st" and "db_faults d = []"
    and "judgement_live (db_judgements d) (de_request st)" and "de_outcomes st = []"
    and "distinct (map tv_test_case_id vs)" and "vs \<noteq> []"
    and ids: "set (map tv_test_case_id vs) = set (map sc_id (de_scoring_cases st))"
  shows "\<exists>out d'. session_run icpc_judge st vs d = (Inr out, d') \<and> cb_action out = ActFinish \<and>
    all_recorded (cb_state out) \<and> session_inv (cb_state out) d' \<and> de_request (cb_state out) = de_request st \<and>
    (\<exists>j \<in> set (db_judgements d'). j_id j = js_judgement_id (de_request st) \<and> j_is_finalized j \<and>
       row_cols j = (let (s, v, sc) = judged_as vs in (s, v, Some sc)))"
proof -
  have rec: "de_recorded_ids st = {}" "verdicts_of st = []"
    using assms(1,5) by (auto simp: session_inv_def outcome_ids_def verdicts_of_def)
  moreover from ids \<open>vs \<noteq> []\<close> have "de_scoring_cases st \<noteq> []" by auto
  ultimately have "\<not> all_recorded st" by (cases "de_scoring_cases st") (auto simp: all_recorded_def)
  with icpc_run_outcomes [OF assms(1-4), of vs] assms(6) ids rec obtain out d' where
    run: "session_run icpc_judge st vs d = (Inr out, d')" "cb_action out = ActFinish"
    "all_recorded (cb_state out)" "session_inv (cb_state out) d'" "de_request (cb_state out) = de_request st"
    and fin: "finalized_by icpc_judge (cb_state out) d'"
    and shape: "outcome_shape [] vs (verdicts_of (cb_state out))" by auto
  from finalized_by_row [OF fin] terminal_cols_shape [OF shape \<open>vs \<noteq> []\<close>] run(5)
  have "\<exists>j \<in> set (db_judgements d'). j_id j = js_judgement_id (de_request st) \<and> j_is_finalized j \<and>
       row_cols j = (let (s, v, sc) = judged_as vs in (s, v, Some sc))" by simp
  with run show ?thesis by blast
qed

theorem icpc_session_judged_witness:
  "\<exists>out d'. session_run icpc_judge (sample_session ()) [sample_result 2 Accepted, sample_result 1 WrongAnswer]
      (sample_db []) = (Inr out, d') \<and> cb_action out = ActFinish \<and>
    (\<exists>j \<in> set (db_judgements d'). j_id j = 1 \<and> j_is_finalized j \<and>
       row_cols j = (Judged, Some (lit ''WrongAnswer''), Some f64_zero))"
proof -
  have w: "wire_verdict WrongAnswer = WrongAnswer" "sanitize_nul_bytes (lit ''WrongAnswer'') = lit ''WrongAnswer''"
    unfolding wire_verdict_def by (simp_all add: verdict_deserialize_display sanitize_nul_bytes_def lit_def)
  have j: "judged_as [sample_result 2 Accepted, sample_result 1 WrongAnswer] =
      (Judged, Some (lit ''WrongAnswer''), f64_zero)"
    by (simp add: judged_as_def w is_skipped_or_cancelled_def)
  show ?thesis
    using icpc_session_judged [of "sample_session ()" "sample_db []"
        "[sample_result 2 Accepted, sample_result 1 WrongAnswer]"]
      sample_live [of "[]"] sample_inv [of "()" "[]"] sample_finite [of "()"]
    by (auto simp: j sample_submission_def)
qed

text \<open>
  C18: a timeout or the exhaustion of the evaluation, delivered while cases are missing,
  never ends in an accepted submission: every missing case gets one SystemError row, the
  judgement is finalized as SystemError with score 0 and the reply tells the host to stop.
\<close>

theorem icpc_timeout_judged:
  fixes d :: "'z db_scheme"
  assumes "session_inv st d" and "finite_state st" and nf: "db_faults d = []"
    and live: "judgement_live (db_judgements d) (de_request st)" and miss: "\<not> all_recorded st"
    and acc: "set (verdicts_of st) \<subseteq> {Accepted}" and ev: "ev = EvTimeout ids \<or> ev = EvExhausted"
  shows "\<exists>out d'. handle_callback icpc_judge st ev d = (Inr out, d') \<and> cb_action out = ActCancel \<and>
    all_recorded (cb_state out) \<and> session_inv (cb_state out) d' \<and>
    (\<exists>j \<in> set (db_judgements d'). j_id j = js_judgement_id (de_request st) \<and> j_is_finalized j \<and>
       row_cols j = (Judged, Some (lit ''SystemError''), Some f64_zero))"
proof -
  let ?J = "icpc_judge :: (unit, 'z) judge_ops"
  let ?w = "wire_state st"
  let ?s = "fill_state SystemError EVALUATION_TIMEOUT ?w"
  have pos: "0 < js_judgement_id (de_request ?w)" using live by (simp add: judgement_live_def)
  from fill_unrecorded_total [OF nf pos, of ?J SystemError EVALUATION_TIMEOUT] obtain d1 where
    fill: "fill_unrecorded ?J SystemError EVALUATION_TIMEOUT (?w, d) = (Inr (), (?s, d1))"
    and q: "quiet d d1" by (auto simp: fill_state_def)
  have inv1: "session_inv ?s d1" "all_recorded ?s"
    using fill_unrecorded_ok [OF fill] assms(1) judgement_live_open [OF live] by auto
  have req: "de_request ?s = de_request st" by (simp add: fill_state_def)
  have "judgement_live (db_judgements d1) (de_request ?s)" using quiet_live [OF q] live req by simp
  from icpc.det_finalize_total [OF _ this, of cb_cancel] q obtain d2 where
    fin: "hbind (det_finalize ?J) (\<lambda>_. with_state (\<lambda>st. hret (cb_cancel st))) (?s, d1) =
      (Inr (cb_cancel ?s), (?s, d2))" and by_fin: "finalized_by ?J ?s d2"
    by (auto simp: quiet_def)
  have run: "handle_callback ?J st ev d = (Inr (cb_cancel ?s), d2)"
    using ev fill fin
    by (auto simp: handle_callback_def state_from_value_finite [OF assms(2)] hbind_step)
  have inv2: "session_inv ?s d2" using icpc.finish_ok [OF fin inv1(1)] by simp
  have k: "length (unrecorded_ids ?w) \<noteq> 0"
    using miss by (auto simp: unrecorded_ids_def all_recorded_def filter_empty_conv)
  have "verdicts_of ?w = replicate (length (verdicts_of st)) Accepted"
  proof -
    have "verdicts_of st = replicate (length (verdicts_of st)) Accepted"
      using acc by (intro replicate_eqI) auto
    then show ?thesis unfolding verdicts_wire by (metis map_replicate wire_accepted)
  qed
  moreover have "map co_verdict (map (\<lambda>i. outcome_filled i SystemError EVALUATION_TIMEOUT) xs) =
      replicate (length xs) SystemError" for xs
    by (induction xs) (auto simp: outcome_filled_def)
  ultimately have vs: "verdicts_of ?s = replicate (length (verdicts_of st)) Accepted @
      replicate (length (unrecorded_ids ?w)) SystemError"
    by (simp add: fill_state_def verdicts_retain_all)
  have "terminal_cols (verdicts_of ?s) = (Judged, Some (lit ''SystemError''), f64_zero)"
    unfolding vs by (rule terminal_cols_system_error) (use k in simp)
  with finalized_by_row [OF by_fin] req have "\<exists>j \<in> set (db_judgements d2).
      j_id j = js_judgement_id (de_request st) \<and> j_is_finalized j \<and>
      row_cols j = (Judged, Some (lit ''SystemError''), Some f64_zero)" by simp
  with run inv1 inv2 show ?thesis by (simp add: cb_cancel_def)
qed

theorem icpc_timeout_judged_witness:
  "\<exists>out d'. handle_callback icpc_judge (sample_session ()) (EvTimeout []) (sample_db []) = (Inr out, d') \<and>
    cb_action out = ActCancel \<and>
    (\<exists>j \<in> set (db_judgements d'). j_id j = 1 \<and> j_is_finalized j \<and>
       row_cols j = (Judged, Some (lit ''SystemError''), Some f64_zero))"
proof -
  have "\<not> all_recorded (sample_session ())" "set (verdicts_of (sample_session ())) \<subseteq> {Accepted}"
    by (auto simp: all_recorded_def verdicts_of_def sample_session_def sample_case_def)
  with icpc_timeout_judged [of "sample_session ()" "sample_db []" "EvTimeout []" "[]"]
    sample_live [of "[]"] sample_inv [of "()" "[]"] sample_finite [of "()"]
  show ?thesis by (auto simp: sample_submission_def)
qed

text \<open>
  A callback that fails after it recorded its case: the row of the case stays.
\<close>

lemma sample_callback_fails:
  "\<exists>d1. handle_callback icpc_judge (sample_session ()) (EvResult (sample_result 1 WrongAnswer))
      (sample_db [None, None, None, Some msg]) = (Inl (Database msg), d1) \<and>
    db_faults d1 = [] \<and> row_summary d1 sample_submission = [(1, lit ''WrongAnswer'')] \<and>
    judgement_open (db_judgements d1) sample_submission"
  unfolding handle_callback_def state_from_value_finite [OF sample_finite]
  by (simp add: wire_state_def sample_session_def)
    (simp add: sample_defs driver_eval store_eval icpc_judge_def icpc_score_def icpc_next_step_def
      row_summary_def session_rows_def row_of_session_def case_key_def judgement_open_def)


text \<open>
  C19: the driver refines a pure state machine. A result callback that succeeds replies
  with exactly the state that the function \<open>det_next\<close> computes from the decoded state and the
  result, whatever the database held.
\<close>

theorem callback_refines_state_machine:
  assumes "handle_callback J st (EvResult v) d = (Inr out, d')"
  shows "finite_state st \<and> cb_state out = det_next J (wire_state st) v"
  using callback_state [OF assms] .

theorem callback_refines_state_machine_witness:
  "\<exists>out d'. handle_callback icpc_judge (sample_session ()) (EvResult (sample_result 1 Accepted)) (sample_db []) =
      (Inr out, d') \<and>
    cb_state out = det_next (icpc_judge :: (unit, unit) judge_ops) (wire_state (sample_session ())) (sample_result 1 Accepted)"
proof -
  obtain out d' where "handle_callback (icpc_judge :: (unit, unit) judge_ops) (sample_session ())
      (EvResult (sample_result 1 Accepted)) (sample_db []) = (Inr out, d')"
    by (rule icpc.callback_result [of "sample_session ()" "sample_db []" "sample_result 1 Accepted"])
      (use sample_live sample_inv sample_finite in auto)
  with callback_refines_state_machine [OF this] show ?thesis by blast
qed

end
