(* ===== verification/PluginHost.thy ===== *)
theory PluginHost
  imports SubmissionStore "HOL-Library.List_Lexorder"
begin

text \<open>
  What the contest plugins share when they answer HTTP requests: the request and its
  authentication (\<open>broccoli-types/src/types/http.rs\<close>), the errors an API handler returns
  (\<open>server-sdk/src/api.rs\<close>), the access rules of \<open>server-sdk/src/contest.rs\<close> with the rows
  their queries read, and the plugin's key-value storage with its revisioned
  prefix scan, compare-and-set and the retry loop \<open>Storage::modify\<close> (\<open>server-sdk/src/sdk/storage.rs\<close>).
\<close>

section \<open>Requests and errors\<close>

record plugin_auth =
  pa_user_id :: i32
  pa_permissions :: "string list"

record http_request =
  hr_params :: "string \<rightharpoonup> string"
  hr_auth :: "plugin_auth option"

datatype api_error = ApiResponse nat string | ApiSdk sdk_error

definition req_user_id :: "http_request \<Rightarrow> i32 option" where
  "req_user_id req = map_option pa_user_id (hr_auth req)"

definition has_permission :: "http_request \<Rightarrow> string \<Rightarrow> bool" where
  "has_permission req p = (case hr_auth req of None \<Rightarrow> False | Some a \<Rightarrow> p \<in> set (pa_permissions a))"

definition param_i32 :: "http_request \<Rightarrow> string \<Rightarrow> sdk_error + i32" where
  "param_i32 req name =
    (case Option.bind (hr_params req name) parse_i32 of
       Some v \<Rightarrow> Inr v | None \<Rightarrow> Inl (OtherError (''Missing or invalid param: '' @ name)))"

definition require_user_id :: "http_request \<Rightarrow> sdk_error + i32" where
  "require_user_id req =
    (case req_user_id req of Some u \<Rightarrow> Inr u | None \<Rightarrow> Inl (OtherError ''Authentication required''))"

definition CONTEST_MANAGE :: string where "CONTEST_MANAGE = ''contest:manage''"
definition SUBMISSION_VIEW_ALL :: string where "SUBMISSION_VIEW_ALL = ''submission:view_all''"

section \<open>Contest tables\<close>

record contest_row =
  ct_id :: i32
  ct_contest_type :: "string option"
  ct_is_public :: bool
  ct_activate_time :: "i64 option"
  ct_deactivate_time :: "i64 option"
  ct_start_time :: i64
  ct_end_time :: i64
  ct_submissions_visible :: bool
  ct_deleted_at :: "i64 option"

record user_identity =
  ui_user_id :: i32
  ui_username :: rstr
  ui_display_name :: "rstr option"

definition display_label :: "user_identity \<Rightarrow> rstr" where
  "display_label u =
    (case map_option trim (ui_display_name u) of
       Some name \<Rightarrow> if name \<noteq> [] then name else ui_username u
     | None \<Rightarrow> ui_username u)"

text \<open>
  The tables and the storage a plugin sees, over \<open>db\<close>. \<open>h_contest_users\<close> is in the order of
  \<open>registered_at\<close>, \<open>h_contest_problems\<close> in the order of \<open>position\<close>. A stored value is a text
  of type \<open>'v\<close> (the JSON of whatever the plugin keeps) with its revision.
\<close>

record 'v host_db = db +
  h_contests :: "contest_row list"
  h_contest_users :: "(i32 \<times> user_identity) list"
  h_contest_problems :: "(i32 \<times> i32 \<times> rstr option) list"
  h_entries :: "(string \<times> 'v \<times> i64) list"

definition h_storage :: "('v, 'z) host_db_scheme \<Rightarrow> string \<rightharpoonup> 'v \<times> i64" where
  "h_storage d = map_of (h_entries d)"

type_synonym ('v, 'z, 'a) apicall = "(('v, 'z) host_db_scheme, api_error, 'a) call"

text \<open>A read: it fails with the next pending fault, or evaluates on the current tables.\<close>

definition db_query :: "('z db_scheme \<Rightarrow> 'a) \<Rightarrow> ('z, 'a) dbcall" where
  "db_query q d =
    (case db_faults d of
       Some msg # rest \<Rightarrow> (Inl (Database msg), d\<lparr>db_faults := rest\<rparr>)
     | None # rest \<Rightarrow> (Inr (q (d\<lparr>db_faults := rest\<rparr>)), d\<lparr>db_faults := rest\<rparr>)
     | [] \<Rightarrow> (Inr (q d), d))"

text \<open>\<open>?\<close> in an API handler converts an SDK error.\<close>

definition lift_sdk :: "('s, sdk_error, 'a) call \<Rightarrow> ('s, api_error, 'a) call" where
  "lift_sdk m s = (case m s of (Inl e, t) \<Rightarrow> (Inl (ApiSdk e), t) | (Inr x, t) \<Rightarrow> (Inr x, t))"

definition of_result :: "sdk_error + 'a \<Rightarrow> ('s, api_error, 'a) call" where
  "of_result r = (case r of Inl e \<Rightarrow> hthrow (ApiSdk e) | Inr x \<Rightarrow> hret x)"

definition api_fail :: "nat \<Rightarrow> string \<Rightarrow> ('s, api_error, 'a) call" where
  "api_fail status msg = hthrow (ApiResponse status msg)"

section \<open>Contest access\<close>

record contest_info =
  ci_contest_type :: "string option"
  ci_is_public :: bool
  ci_is_active :: bool
  ci_phase :: string

definition contest_phase :: "i64 \<Rightarrow> contest_row \<Rightarrow> string" where
  "contest_phase now c =
    (if now < ct_start_time c then ''before'' else if now > ct_end_time c then ''after'' else ''during'')"

definition contest_is_active :: "i64 \<Rightarrow> contest_row \<Rightarrow> bool" where
  "contest_is_active now c \<longleftrightarrow>
     (case ct_activate_time c of None \<Rightarrow> True | Some t \<Rightarrow> t \<le> now) \<and>
     (case ct_deactivate_time c of None \<Rightarrow> True | Some t \<Rightarrow> t > now)"

definition find_contest :: "i32 \<Rightarrow> ('v, 'z) host_db_scheme \<Rightarrow> contest_row option" where
  "find_contest cid d = List.find (\<lambda>c. ct_id c = cid) (h_contests d)"

definition require_type :: "contest_info \<Rightarrow> string \<Rightarrow> ('s, api_error, unit) call" where
  "require_type info expected =
    (if ci_contest_type info = Some expected then hret ()
     else api_fail 404 (''Not a '' @ expected @ '' contest''))"

definition load_info :: "i32 \<Rightarrow> ('v, 'z, contest_info) apicall" where
  "load_info cid =
    hbind (lift_sdk (db_query (\<lambda>d. map_option (\<lambda>c.
        \<lparr>ci_contest_type = ct_contest_type c, ci_is_public = ct_is_public c,
         ci_is_active = contest_is_active (db_now d) c, ci_phase = contest_phase (db_now d) c\<rparr>)
        (find_contest cid d))))
      (\<lambda>r. case r of Some info \<Rightarrow> hret info | None \<Rightarrow> api_fail 404 ''Contest not found'')"

definition is_participant :: "i32 \<Rightarrow> i32 \<Rightarrow> (('v, 'z) host_db_scheme, sdk_error, bool) call" where
  "is_participant cid uid =
    db_query (\<lambda>d. \<exists>(c, u) \<in> set (h_contest_users d). c = cid \<and> ui_user_id u = uid)"

definition has_problem :: "i32 \<Rightarrow> i32 \<Rightarrow> (('v, 'z) host_db_scheme, sdk_error, bool) call" where
  "has_problem cid pid =
    db_query (\<lambda>d. \<exists>(c, p, _) \<in> set (h_contest_problems d). c = cid \<and> p = pid)"

definition can_view :: "http_request \<Rightarrow> i32 \<Rightarrow> contest_info \<Rightarrow> ('v, 'z, bool) apicall" where
  "can_view req cid info =
    (if has_permission req CONTEST_MANAGE then hret True
     else if \<not> ci_is_active info then hret False
     else if ci_is_public info then hret True
     else case req_user_id req of
            Some uid \<Rightarrow> lift_sdk (is_participant cid uid)
          | None \<Rightarrow> hret False)"

definition check_access :: "http_request \<Rightarrow> i32 \<Rightarrow> ('v, 'z, contest_info) apicall" where
  "check_access req cid =
    hbind (load_info cid) (\<lambda>info. hbind (can_view req cid info) (\<lambda>ok.
      if \<not> ok then api_fail 404 ''Contest not found'' else hret info))"

definition check_problem_access :: "http_request \<Rightarrow> i32 \<Rightarrow> i32 \<Rightarrow> i32 \<Rightarrow> ('v, 'z, unit) apicall" where
  "check_problem_access req cid uid pid =
    hbind (load_info cid) (\<lambda>info.
      hbind (if has_permission req CONTEST_MANAGE then hret False
             else if \<not> ci_is_active info then hret True
             else hbind (lift_sdk (is_participant cid uid)) (\<lambda>p. hret (\<not> p)))
        (\<lambda>denied. if denied then api_fail 404 ''Contest not found''
          else hbind (lift_sdk (has_problem cid pid)) (\<lambda>known.
            if \<not> known then api_fail 404 ''Contest not found'' else hret ())))"

section \<open>Plugin storage\<close>

text \<open>
  Every write gives the key a new revision, and a compare-and-set on a snapshot succeeds only
  when value and revision are those of the snapshot.
\<close>

type_synonym ('v, 'z, 'a) storecall = "(('v, 'z) host_db_scheme, sdk_error, 'a) call"

text \<open>The host functions of the storage report every database failure as one host-call error.\<close>

definition trap :: "('s, sdk_error, 'a) call \<Rightarrow> ('s, sdk_error, 'a) call" where
  "trap m s = (case m s of (Inl _, t) \<Rightarrow> (Inl (HostCall (lit ''Database error'')), t) | (Inr x, t) \<Rightarrow> (Inr x, t))"

definition next_revision :: "('v \<times> i64) option \<Rightarrow> i64" where
  "next_revision cur = (case cur of None \<Rightarrow> 0 | Some (_, r) \<Rightarrow> r + 1)"

definition storage_get_one :: "string \<Rightarrow> ('v, 'z, 'v option) storecall" where
  "storage_get_one key = trap (db_query (\<lambda>d. map_option fst (h_storage d key)))"

definition storage_get :: "string list \<Rightarrow> ('v, 'z, string \<rightharpoonup> 'v) storecall" where
  "storage_get keys =
    (if keys = [] then hret Map.empty
     else trap (db_query (\<lambda>d k. if k \<in> set keys then map_option fst (h_storage d k) else None)))"

definition storage_snapshot :: "string \<Rightarrow> ('v, 'z, ('v \<times> i64) option) storecall" where
  "storage_snapshot key = trap (db_query (\<lambda>d. h_storage d key))"

definition put_entry :: "string \<Rightarrow> 'v \<Rightarrow> ('v, 'z) host_db_scheme \<Rightarrow> ('v, 'z) host_db_scheme" where
  "put_entry key v d = d\<lparr>h_entries := AList.update key (v, next_revision (h_storage d key)) (h_entries d)\<rparr>"

definition storage_set :: "(string \<times> 'v) list \<Rightarrow> ('v, 'z, unit) storecall" where
  "storage_set entries =
    (if entries = [] then hret ()
     else trap (hbind (execute (\<lambda>d. (length entries, fold (\<lambda>(k, v). put_entry k v) entries d))) (\<lambda>_. hret ())))"

definition storage_delete :: "string list \<Rightarrow> ('v, 'z, unit) storecall" where
  "storage_delete keys =
    (if keys = [] then hret ()
     else trap (hbind (execute (\<lambda>d. (length keys, d\<lparr>h_entries := filter (\<lambda>(k, _). k \<notin> set keys) (h_entries d)\<rparr>)))
            (\<lambda>_. hret ())))"

text \<open>
  A scan returns at most 100 entries with the prefix, in the order of their keys, starting
  after the given key; the order of the keys is that of their code points.
\<close>

definition char_codes :: "string \<Rightarrow> nat list" where
  "char_codes s = map of_char s"

definition scan_page :: "nat \<Rightarrow> string \<Rightarrow> string option \<Rightarrow> (string \<times> 'v \<times> i64) list \<Rightarrow> (string \<times> 'v) list" where
  "scan_page limit prefix after entries =
    take limit (sort_key (\<lambda>(k, _). char_codes k)
      (map (\<lambda>(k, v, _). (k, v))
        (filter (\<lambda>(k, _, _). take (length prefix) k = prefix \<and>
            (case after of None \<Rightarrow> True | Some a \<Rightarrow> char_codes a < char_codes k)) entries)))"

definition storage_scan :: "string \<Rightarrow> string option \<Rightarrow> ('v, 'z, (string \<times> 'v) list) storecall" where
  "storage_scan prefix after = trap (db_query (\<lambda>d. scan_page 100 prefix after (h_entries d)))"

text \<open>The service behind compare-and-set: insert-if-absent, or replace under a row lock.\<close>

definition cas_statement :: "string \<Rightarrow> 'v option \<Rightarrow> 'v \<Rightarrow> i64 option \<Rightarrow>
    ('v, 'z) host_db_scheme \<Rightarrow> nat \<times> ('v, 'z) host_db_scheme" where
  "cas_statement key expected new expected_revision d =
    (case expected of
       None \<Rightarrow> (case h_storage d key of None \<Rightarrow> (1, put_entry key new d) | Some _ \<Rightarrow> (0, d))
     | Some e \<Rightarrow>
         (case h_storage d key of
            None \<Rightarrow> (0, d)
          | Some (v, rv) \<Rightarrow>
              if v \<noteq> e \<or> (case expected_revision of None \<Rightarrow> False | Some r \<Rightarrow> r \<noteq> rv) then (0, d)
              else if rv = I64_MAX then (2, d)
              else (1, put_entry key new d)))"

definition compare_and_set ::
  "string \<Rightarrow> 'v option \<Rightarrow> 'v \<Rightarrow> i64 option \<Rightarrow> ('v, 'z, bool) storecall" where
  "compare_and_set key expected new expected_revision =
    trap (hbind (execute (cas_statement key expected new expected_revision))
      (\<lambda>n. if n = 2 then hthrow (Database (lit ''Storage revision overflow'')) else hret (n = 1)))"

definition compare_and_set_snapshot ::
  "string \<Rightarrow> ('v \<times> i64) option \<Rightarrow> 'v \<Rightarrow> ('v, 'z, bool) storecall" where
  "compare_and_set_snapshot key expected new =
    compare_and_set key (map_option fst expected) new (map_option snd expected)"

text \<open>
  \<open>modify\<close> retries up to 100 times. The stored text is decoded and encoded by the functions
  \<open>dec\<close> and \<open>enc\<close> of the value's type, and the update may itself call the host. Between the
  read and the write of one attempt other writers may run: \<open>meddle\<close> is what they do before
  each compare-and-set.
\<close>

definition read_or_default :: "('v \<Rightarrow> sdk_error + 't) \<Rightarrow> 't \<Rightarrow> ('v \<times> i64) option \<Rightarrow> sdk_error + 't" where
  "read_or_default dec dflt snap = (case snap of Some (v, _) \<Rightarrow> dec v | None \<Rightarrow> Inr dflt)"

fun modify_loop :: "nat \<Rightarrow> (nat \<Rightarrow> ('v, 'z) host_db_scheme \<Rightarrow> ('v, 'z) host_db_scheme) \<Rightarrow>
    ('v \<Rightarrow> sdk_error + 't) \<Rightarrow> ('t \<Rightarrow> 'v) \<Rightarrow> 't \<Rightarrow> string \<Rightarrow> ('t \<Rightarrow> ('v, 'z, 't) storecall) \<Rightarrow>
    ('v, 'z, 't) storecall" where
  "modify_loop 0 meddle dec enc dflt key f = hthrow (OtherError ''CAS retry limit exceeded'')"
| "modify_loop (Suc n) meddle dec enc dflt key f =
     hbind (storage_snapshot key) (\<lambda>snap.
       case read_or_default dec dflt snap of
         Inl e \<Rightarrow> hthrow e
       | Inr value \<Rightarrow> hbind (f value) (\<lambda>new d.
           hbind (compare_and_set_snapshot key snap (enc new)) (\<lambda>swapped.
             if swapped then hret new else modify_loop n meddle dec enc dflt key f) (meddle n d)))"

definition storage_modify where
  "storage_modify = modify_loop 100"

section \<open>Facts about the store\<close>

lemma db_query_cases [consumes 1, case_names fault ok]:
  assumes "db_query q d = (r, d')"
  obtains (fault) msg where "r = Inl (Database msg)" "d' = d\<lparr>db_faults := tl (db_faults d)\<rparr>"
    | (ok) "r = Inr (q d')" "d' = d\<lparr>db_faults := tl (db_faults d)\<rparr>"
proof (cases "db_faults d")
  case Nil
  then have "d\<lparr>db_faults := []\<rparr> = d" by (cases d) simp
  with Nil assms show ?thesis by (intro that(2)) (auto simp: db_query_def)
next
  case (Cons f rest)
  show ?thesis
  proof (cases f)
    case None
    with Cons assms show ?thesis by (intro that(2)) (auto simp: db_query_def)
  next
    case (Some msg)
    with Cons assms show ?thesis by (intro that(1) [of msg]) (auto simp: db_query_def)
  qed
qed

lemma trap_Inr [simp]: "trap m s = (Inr x, t) \<longleftrightarrow> m s = (Inr x, t)"
  by (auto simp: trap_def split: prod.splits sum.splits)

lemma trap_step: "m s = (Inr x, t) \<Longrightarrow> trap m s = (Inr x, t)"
  by simp

lemma h_storage_update [simp]:
  "h_storage (d\<lparr>db_faults := fs\<rparr>) = h_storage d"
  by (simp add: h_storage_def)

lemma h_storage_put [simp]:
  "h_storage (put_entry k v d) = (h_storage d)(k \<mapsto> (v, next_revision (h_storage d k)))"
  by (simp add: h_storage_def put_entry_def update_conv' fun_eq_iff)

lemma lift_sdk_Inr [simp]: "lift_sdk m s = (Inr x, t) \<longleftrightarrow> m s = (Inr x, t)"
  by (auto simp: lift_sdk_def split: prod.splits sum.splits)

lemma of_result_Inr [simp]: "of_result r s = (Inr x, t) \<longleftrightarrow> r = Inr x \<and> t = s"
  by (auto simp: of_result_def hret_def hthrow_def split: sum.splits)

lemma api_fail_Inr [simp]: "api_fail n msg s \<noteq> (Inr x, t)"
  by (simp add: api_fail_def hthrow_def)

lemma hret_Inr [simp]: "hret x s = (r, t) \<longleftrightarrow> r = Inr x \<and> t = s"
  by (auto simp: hret_def)

lemma db_query_Inr:
  "db_query q d = (Inr x, d') \<Longrightarrow> x = q d' \<and> d' = d\<lparr>db_faults := tl (db_faults d)\<rparr>"
  by (cases rule: db_query_cases) auto

lemma db_query_no_fault [simp]: "db_faults d = [] \<Longrightarrow> db_query q d = (Inr (q d), d)"
  by (simp add: db_query_def)

lemma trap_db_query_no_fault [simp]: "db_faults d = [] \<Longrightarrow> trap (db_query q) d = (Inr (q d), d)"
  by (simp add: trap_def)

lemma execute_ok:
  assumes "execute stmt d = (Inr n, d')"
  obtains rest where "stmt (d\<lparr>db_faults := rest\<rparr>) = (n, d')"
  using assms by (cases rule: execute_cases) auto

lemma storage_set_get:
  assumes "storage_set [(k, v)] d = (Inr (), d')" and "storage_get_one k d' = (Inr x, d'')"
  shows "x = Some v"
proof -
  from assms(1) obtain n where "execute (\<lambda>d. (1, put_entry k v d)) d = (Inr n, d')"
    by (auto simp: storage_set_def hbind_Inr hret_def)
  then obtain rest where "put_entry k v (d\<lparr>db_faults := rest\<rparr>) = d'" by (rule execute_ok) auto
  then have "map_option fst (h_storage d' k) = Some v" by auto
  moreover from assms(2) have "x = map_option fst (h_storage d'' k)" "h_storage d'' = h_storage d'"
    unfolding storage_get_one_def trap_Inr by (auto elim: db_query_cases)
  ultimately show ?thesis by simp
qed

text \<open>A swap that succeeds found the snapshot unchanged and wrote the new value over it.\<close>

lemma compare_and_set_snapshot_swapped:
  assumes "compare_and_set_snapshot key snap new d = (Inr True, d')"
  shows "h_storage d key = snap \<and> h_storage d' = (h_storage d)(key \<mapsto> (new, next_revision snap))"
proof -
  from assms obtain m where
    "execute (cas_statement key (map_option fst snap) new (map_option snd snap)) d = (Inr m, d')" "m = 1"
    by (auto simp: compare_and_set_snapshot_def compare_and_set_def hbind_Inr hret_def hthrow_def
        split: if_splits)
  then obtain rest where
    stmt: "cas_statement key (map_option fst snap) new (map_option snd snap) (d\<lparr>db_faults := rest\<rparr>) = (1, d')"
    by (metis execute_ok)
  show ?thesis
  proof (cases snap)
    case None
    with stmt show ?thesis by (auto simp: cas_statement_def split: option.splits)
  next
    case (Some vr)
    then obtain v r where "snap = Some (v, r)" by (cases vr) auto
    with stmt show ?thesis by (auto simp: cas_statement_def split: option.splits prod.splits if_splits)
  qed
qed

text \<open>
  An update that is reported done was applied to the value that was current at the moment of
  the write: no concurrent write is lost.
\<close>

lemma modify_loop_atomic:
  fixes d :: "('v, 'z) host_db_scheme"
  assumes "modify_loop n meddle dec enc dflt key f d = (Inr v, d')"
  shows "\<exists>x d1 d2 (d3 :: ('v, 'z) host_db_scheme). f x d1 = (Inr v, d2) \<and>
    read_or_default dec dflt (h_storage d3 key) = Inr x \<and>
    h_storage d' = (h_storage d3)(key \<mapsto> (enc v, next_revision (h_storage d3 key)))"
  using assms
proof (induction n arbitrary: d)
  case 0
  then show ?case by (simp add: hthrow_def)
next
  case (Suc n)
  from Suc.prems obtain snap d1 where
    rest: "(case read_or_default dec dflt snap of Inl e \<Rightarrow> hthrow e
       | Inr value \<Rightarrow> hbind (f value) (\<lambda>new d. hbind (compare_and_set_snapshot key snap (enc new)) (\<lambda>swapped.
             if swapped then hret new else modify_loop n meddle dec enc dflt key f) (meddle n d))) d1 = (Inr v, d')"
    by (auto simp: hbind_Inr)
  from rest obtain x where x: "read_or_default dec dflt snap = Inr x"
    by (cases "read_or_default dec dflt snap") (auto simp: hthrow_def)
  with rest obtain new d2 b d3 where new: "f x d1 = (Inr new, d2)" and
    cas: "compare_and_set_snapshot key snap (enc new) (meddle n d2) = (Inr b, d3)" and
    tl: "(if b then hret new else modify_loop n meddle dec enc dflt key f) d3 = (Inr v, d')"
    by (auto simp: hbind_Inr)
  show ?case
  proof (cases b)
    case False
    with tl Suc.IH show ?thesis by simp
  next
    case True
    with tl have "new = v" "d' = d3" by (auto simp: hret_def)
    moreover from cas True have "h_storage (meddle n d2) key = snap"
      "h_storage d3 = (h_storage (meddle n d2))(key \<mapsto> (enc new, next_revision snap))"
      using compare_and_set_snapshot_swapped by fastforce+
    ultimately show ?thesis using new x by (intro exI [of _ x] exI [of _ d1] exI [of _ d2] exI [of _ "meddle n d2"]) simp
  qed
qed

end
