(* ===== verification/IcpcStandings.thy ===== *)
theory IcpcStandings
  imports PluginHost "HOL-Library.Product_Lexorder" "HOL-Library.List_Lexorder" "HOL-Library.Multiset"
begin

text \<open>
  The ICPC scoreboard: the freeze window of \<open>plugins/icpc/src/config.rs\<close>, the per-problem
  states of \<open>plugins/icpc/src/standings.rs\<close>, and from \<open>plugins/icpc/src/lib.rs\<close> the standings
  and reveal endpoints and the decisions the plugin returns to the host's visibility kernel.
  A \<open>HashMap\<close> whose iteration order can matter is an association list with distinct keys.
\<close>

section \<open>Configuration and the freeze window\<close>

record contest_config =
  cc_penalty_minutes :: i32
  cc_count_compile_error :: bool
  cc_show_test_details :: bool
  cc_public_standings :: bool
  cc_freeze_minutes :: i32

text \<open>The derived \<open>Default\<close>, used when a stored configuration does not parse.\<close>

definition contest_config_default :: contest_config where
  "contest_config_default = \<lparr>cc_penalty_minutes = 0, cc_count_compile_error = False,
     cc_show_test_details = False, cc_public_standings = False, cc_freeze_minutes = 0\<rparr>"

definition default_penalty_minutes :: i32 where
  "default_penalty_minutes = 20"

record freeze_view =
  fv_freeze_start_ms :: i64
  fv_frozen :: bool
  fv_can_reveal :: bool

definition freeze_window_start_ms :: "i32 \<Rightarrow> i64 \<Rightarrow> i64" where
  "freeze_window_start_ms freeze_minutes duration_ms =
    (if freeze_minutes > 0 then max (wrap_i64 (duration_ms - wrap_i64 (freeze_minutes * 60000))) 0
     else I64_MAX)"

definition freeze_window_open :: "i32 \<Rightarrow> string \<Rightarrow> bool \<Rightarrow> i64 \<Rightarrow> i64 \<Rightarrow> bool" where
  "freeze_window_open freeze_minutes phase revealed duration_ms now_elapsed_ms \<longleftrightarrow>
     freeze_minutes > 0 \<and> \<not> revealed \<and> (phase = ''during'' \<or> phase = ''after'') \<and>
     now_elapsed_ms \<ge> freeze_window_start_ms freeze_minutes duration_ms"

definition freeze_view_of :: "i32 \<Rightarrow> string \<Rightarrow> bool \<Rightarrow> bool \<Rightarrow> i64 \<Rightarrow> i64 \<Rightarrow> freeze_view" where
  "freeze_view_of freeze_minutes phase can_view_all revealed duration_ms now_elapsed_ms =
    (let window_start = freeze_window_start_ms freeze_minutes duration_ms;
         window_open = freeze_window_open freeze_minutes phase revealed duration_ms now_elapsed_ms
     in \<lparr>fv_freeze_start_ms = (if window_open \<and> \<not> can_view_all then window_start else I64_MAX),
         fv_frozen = (window_open \<and> \<not> can_view_all),
         fv_can_reveal = (window_open \<and> can_view_all)\<rparr>)"

section \<open>Problem states\<close>

record problem_state =
  ps_attempts :: i32
  ps_solved :: bool
  ps_solve_time_ms :: "i64 option"

definition problem_state_default :: problem_state where
  "problem_state_default = \<lparr>ps_attempts = 0, ps_solved = False, ps_solve_time_ms = None\<rparr>"

definition solve_minute :: "problem_state \<Rightarrow> i32" where
  "solve_minute st = wrap_i32 ((case ps_solve_time_ms st of Some t \<Rightarrow> t | None \<Rightarrow> 0) div 60000)"

definition penalty_minutes :: "problem_state \<Rightarrow> i32 \<Rightarrow> i32" where
  "penalty_minutes st penalty_per_attempt =
    (if \<not> ps_solved st then 0
     else wrap_i32 (solve_minute st + wrap_i32 (ps_attempts st * penalty_per_attempt)))"

record standings_submission =
  ss_submission_id :: i32
  ss_user_id :: i32
  ss_problem_id :: i32
  ss_verdict :: "verdict option"
  ss_status :: string
  ss_elapsed_ms :: i64

definition is_penalty_attempt :: "standings_submission \<Rightarrow> bool \<Rightarrow> bool" where
  "is_penalty_attempt row count_compile_error =
    (if ss_status row = ''SystemError'' \<or> ss_verdict row = Some SystemError then False
     else if ss_status row = ''CompilationError'' \<or> ss_verdict row = Some CompileError
     then count_compile_error
     else \<not> (ss_verdict row = Some Accepted \<or> ss_verdict row = Some Skipped \<or> ss_verdict row = Some Cancelled))"

definition row_key :: "standings_submission \<Rightarrow> i32 \<times> i32" where
  "row_key s = (ss_user_id s, ss_problem_id s)"

fun position :: "('a \<Rightarrow> bool) \<Rightarrow> 'a list \<Rightarrow> nat option" where
  "position P [] = None"
| "position P (x # xs) = (if P x then Some 0 else map_option Suc (position P xs))"

definition group_state :: "bool \<Rightarrow> standings_submission list \<Rightarrow> problem_state" where
  "group_state count_compile_error grp =
    (let rows = sort_key (\<lambda>row. (ss_elapsed_ms row, ss_submission_id row)) grp;
         accepted_index = position (\<lambda>row. ss_verdict row = Some Accepted) rows;
         count_until = (case accepted_index of Some i \<Rightarrow> i | None \<Rightarrow> length rows)
     in \<lparr>ps_attempts = wrap_i32 (int (length (filter (\<lambda>row. is_penalty_attempt row count_compile_error)
                                         (take count_until rows)))),
         ps_solved = (accepted_index \<noteq> None),
         ps_solve_time_ms = map_option (\<lambda>i. max (ss_elapsed_ms (rows ! i)) 0) accepted_index\<rparr>)"

definition compute_problem_states ::
  "standings_submission list \<Rightarrow> bool \<Rightarrow> ((i32 \<times> i32) \<times> problem_state) list" where
  "compute_problem_states subs count_compile_error =
    map (\<lambda>k. (k, group_state count_compile_error (filter (\<lambda>s. row_key s = k) subs)))
      (remdups (map row_key subs))"

definition is_system_error :: "standings_submission \<Rightarrow> bool" where
  "is_system_error s \<longleftrightarrow> ss_status s = ''SystemError'' \<or> ss_verdict s = Some SystemError"

fun compute_pending ::
  "standings_submission list \<Rightarrow> ((i32 \<times> i32) \<times> problem_state) list \<Rightarrow> (i32 \<times> i32 \<rightharpoonup> i32) \<Rightarrow>
   (i32 \<times> i32 \<rightharpoonup> i32)" where
  "compute_pending [] states pending = pending"
| "compute_pending (s # rest) states pending =
     (if is_system_error s then compute_pending rest states pending
      else
        (let key = row_key s;
             solved = (case map_of states key of Some st \<Rightarrow> ps_solved st | None \<Rightarrow> False)
         in if solved then compute_pending rest states pending
            else compute_pending rest states
              (pending(key \<mapsto> wrap_i32 ((case pending key of Some n \<Rightarrow> n | None \<Rightarrow> 0) + 1)))))"

definition counts_as_live :: "standings_submission \<Rightarrow> i64 \<Rightarrow> i32 option \<Rightarrow> bool" where
  "counts_as_live sub freeze_start_ms own_user_id \<longleftrightarrow>
     ss_elapsed_ms sub < freeze_start_ms \<or> Some (ss_user_id sub) = own_user_id"

definition better_solve :: "(i64 \<times> i32) option \<Rightarrow> i64 \<times> i32 \<Rightarrow> i64 \<times> i32" where
  "better_solve cur new = (case cur of None \<Rightarrow> new | Some c \<Rightarrow> if new < c then new else c)"

fun best_solves :: "((i32 \<times> i32) \<times> problem_state) list \<Rightarrow> (i32 \<rightharpoonup> i64 \<times> i32) \<Rightarrow> (i32 \<rightharpoonup> i64 \<times> i32)" where
  "best_solves [] best = best"
| "best_solves (((uid, pid), st) # rest) best =
     (if \<not> ps_solved st then best_solves rest best
      else
        (let solve_ms = (case ps_solve_time_ms st of Some t \<Rightarrow> t | None \<Rightarrow> I64_MAX)
         in best_solves rest (best(pid \<mapsto> better_solve (best pid) (solve_ms, uid)))))"

definition compute_first_solvers :: "((i32 \<times> i32) \<times> problem_state) list \<Rightarrow> bool \<Rightarrow> (i32 \<rightharpoonup> i32)" where
  "compute_first_solvers states restricted =
    (if restricted then Map.empty else (\<lambda>pid. map_option snd (best_solves states Map.empty pid)))"

section \<open>Who sees what\<close>

definition must_hide_other_submission ::
  "bool \<Rightarrow> i32 \<Rightarrow> string \<Rightarrow> bool \<Rightarrow> i64 \<Rightarrow> i64 \<Rightarrow> i64 \<Rightarrow> bool" where
  "must_hide_other_submission public_standings freeze_minutes phase revealed duration_ms
     now_elapsed_ms submission_elapsed_ms \<longleftrightarrow>
     (phase = ''before'' \<or> phase = ''during'') \<and> \<not> public_standings \<or>
     freeze_window_open freeze_minutes phase revealed duration_ms now_elapsed_ms \<and>
     submission_elapsed_ms \<ge> freeze_window_start_ms freeze_minutes duration_ms"

datatype standings_restriction = Unrestricted | RestrictedTo i32 | RestrictedAnonymous

definition standings_restriction_of :: "string \<Rightarrow> bool \<Rightarrow> bool \<Rightarrow> i32 option \<Rightarrow> standings_restriction" where
  "standings_restriction_of phase can_view_all public_standings viewer_id =
    (let is_restricted = (phase = ''before'' \<or> phase = ''during'') \<and> \<not> can_view_all \<and> \<not> public_standings
     in if \<not> is_restricted then Unrestricted
        else (case viewer_id of Some uid \<Rightarrow> RestrictedTo uid | None \<Rightarrow> RestrictedAnonymous))"

definition hidden_result_mask_fields :: "string list" where
  "hidden_result_mask_fields =
    [''verdict'', ''score'', ''time_used'', ''memory_used'', ''result.verdict'', ''result.score'',
     ''result.time_used'', ''result.memory_used'', ''result.compile_output'', ''result.error_message'',
     ''result.test_case_results'', ''result.test_case_pagination'']"

section \<open>The board\<close>

record problem_cell =
  pc_attempts :: i32
  pc_solved :: bool
  pc_time :: "i32 option"
  pc_penalty :: "i32 option"
  pc_first_solve :: "bool option"
  pc_pending :: "i32 option"

record standings_entry =
  se_rank :: nat
  se_user_id :: i32
  se_username :: rstr
  se_display_name :: rstr
  se_solved :: i32
  se_penalty :: i32
  se_problems :: "rstr \<rightharpoonup> problem_cell"

text \<open>The column label: the explicit one, or A to Z, AA, AB and so on from an 8-bit index.\<close>

definition auto_label :: "nat \<Rightarrow> rstr" where
  "auto_label i =
    (let c = 65 + wrap_u8 i mod 26 in
     if i < 26 then [c] else [65 + wrap_u8 i div 26 - 1, c])"

definition problem_label :: "nat \<Rightarrow> rstr option \<Rightarrow> rstr" where
  "problem_label i lbl = (case lbl of Some l \<Rightarrow> if l \<noteq> [] then l else auto_label i | None \<Rightarrow> auto_label i)"

definition problem_labels :: "(i32 \<times> rstr option) list \<Rightarrow> rstr list" where
  "problem_labels problems = map (\<lambda>(i, _, lbl). problem_label i lbl) (enumerate 0 problems)"

definition problem_columns :: "(i32 \<times> rstr option) list \<Rightarrow> (rstr \<times> i32) list" where
  "problem_columns problems = zip (problem_labels problems) (map fst problems)"

text \<open>One problem of one participant: the running totals and the cells so far.\<close>

definition cell_step ::
  "i32 \<Rightarrow> ((i32 \<times> i32) \<times> problem_state) list \<Rightarrow> (i32 \<times> i32 \<rightharpoonup> i32) \<Rightarrow> i32 \<Rightarrow> rstr \<times> i32 \<Rightarrow>
   i32 \<times> i32 \<times> (rstr \<rightharpoonup> problem_cell) \<Rightarrow> i32 \<times> i32 \<times> (rstr \<rightharpoonup> problem_cell)" where
  "cell_step penalty_per_attempt states pending_map uid = (\<lambda>(label, pid) (solved, total, cells).
    let st = (case map_of states (uid, pid) of Some s \<Rightarrow> s | None \<Rightarrow> problem_state_default);
        pending = pending_map (uid, pid)
    in if ps_solved st
       then (let pen = penalty_minutes st penalty_per_attempt in
             (wrap_i32 (solved + 1), wrap_i32 (total + pen),
              cells(label \<mapsto> \<lparr>pc_attempts = ps_attempts st, pc_solved = True,
                pc_time = Some (solve_minute st), pc_penalty = Some pen,
                pc_first_solve = None, pc_pending = None\<rparr>)))
       else if ps_attempts st > 0 \<or> pending \<noteq> None
       then (solved, total,
             cells(label \<mapsto> \<lparr>pc_attempts = ps_attempts st, pc_solved = False, pc_time = None,
                pc_penalty = None, pc_first_solve = None, pc_pending = pending\<rparr>))
       else (solved, total, cells))"

definition build_entry ::
  "i32 \<Rightarrow> ((i32 \<times> i32) \<times> problem_state) list \<Rightarrow> (i32 \<times> i32 \<rightharpoonup> i32) \<Rightarrow> (rstr \<times> i32) list \<Rightarrow>
   user_identity \<Rightarrow> standings_entry" where
  "build_entry penalty_per_attempt states pending_map columns u =
    (let (solved, total, cells) =
       fold (cell_step penalty_per_attempt states pending_map (ui_user_id u)) columns (0, 0, Map.empty)
     in \<lparr>se_rank = 0, se_user_id = ui_user_id u, se_username = ui_username u,
         se_display_name = display_label u, se_solved = solved, se_penalty = total, se_problems = cells\<rparr>)"

definition mark_column :: "(i32 \<rightharpoonup> i32) \<Rightarrow> rstr \<times> i32 \<Rightarrow> standings_entry \<Rightarrow> standings_entry" where
  "mark_column first_solvers = (\<lambda>(label, pid) e.
    case se_problems e label of
      None \<Rightarrow> e
    | Some cell \<Rightarrow>
        if pc_solved cell \<and> first_solvers pid = Some (se_user_id e)
        then e\<lparr>se_problems := (se_problems e)(label \<mapsto> cell\<lparr>pc_first_solve := Some True\<rparr>)\<rparr>
        else e)"

definition mark_first_solves :: "(i32 \<rightharpoonup> i32) \<Rightarrow> (rstr \<times> i32) list \<Rightarrow> standings_entry \<Rightarrow> standings_entry" where
  "mark_first_solves first_solvers columns e = fold (mark_column first_solvers) columns e"

definition entry_key :: "standings_entry \<Rightarrow> int \<times> int \<times> rstr" where
  "entry_key e = (- se_solved e, se_penalty e, se_username e)"

definition same_score :: "standings_entry \<Rightarrow> standings_entry \<Rightarrow> bool" where
  "same_score a b \<longleftrightarrow> se_solved a = se_solved b \<and> se_penalty a = se_penalty b"

fun assign_ranks :: "nat \<Rightarrow> standings_entry option \<Rightarrow> standings_entry list \<Rightarrow> standings_entry list" where
  "assign_ranks i prev [] = []"
| "assign_ranks i prev (e # es) =
     (let r = (case prev of Some p \<Rightarrow> if same_score e p then se_rank p else i + 1 | None \<Rightarrow> i + 1);
          e' = e\<lparr>se_rank := r\<rparr>
      in e' # assign_ranks (i + 1) (Some e') es)"

definition standings_rows ::
  "contest_config \<Rightarrow> (i32 \<times> rstr option) list \<Rightarrow> user_identity list \<Rightarrow> standings_submission list \<Rightarrow>
   i64 \<Rightarrow> i32 option \<Rightarrow> bool \<Rightarrow> standings_entry list" where
  "standings_rows config problems participants subs freeze_start_ms own_uid restricted =
    (let pre_freeze = filter (\<lambda>s. counts_as_live s freeze_start_ms own_uid) subs;
         during_freeze = filter (\<lambda>s. \<not> counts_as_live s freeze_start_ms own_uid) subs;
         all_states = compute_problem_states pre_freeze (cc_count_compile_error config);
         pending_map = compute_pending during_freeze all_states Map.empty;
         first_solvers = compute_first_solvers all_states restricted;
         columns = problem_columns problems;
         entries = map (build_entry (cc_penalty_minutes config) all_states pending_map columns) participants
     in assign_ranks 0 None (sort_key entry_key (map (mark_first_solves first_solvers columns) entries)))"

section \<open>The endpoints\<close>

record icpc_db = "rstr host_db" +
  ic_config :: "i32 \<Rightarrow> contest_config option"

type_synonym 'z icpc_state = "'z icpc_db_scheme"
type_synonym ('z, 'a) icpccall = "('z icpc_db_scheme, api_error, 'a) call"

definition icpc_load_config :: "i32 \<Rightarrow> ('z icpc_db_scheme, sdk_error, contest_config) call" where
  "icpc_load_config cid =
    db_query (\<lambda>d. case ic_config d cid of Some c \<Rightarrow> c | None \<Rightarrow> contest_config_default)"

definition millis :: "i64 \<Rightarrow> i64 \<Rightarrow> f64" where
  "millis later earlier = F64 (of_int (later - earlier) / 1000)"

definition query_contest_times :: "i32 \<Rightarrow> ('z, i64 \<times> i64) icpccall" where
  "query_contest_times cid =
    hbind (lift_sdk (db_query (\<lambda>d. map_option (\<lambda>c.
        (millis (ct_end_time c) (ct_start_time c), millis (db_now d) (ct_start_time c))) (find_contest cid d))))
      (\<lambda>times. hret (case times of
          Some (duration, now_elapsed) \<Rightarrow> (f64_as_i64 duration, f64_as_i64 now_elapsed)
        | None \<Rightarrow> (f64_as_i64 f64_zero, f64_as_i64 f64_zero)))"

definition reveal_key :: "i32 \<Rightarrow> string" where
  "reveal_key cid = ''reveal:'' @ show_int cid"

definition handle_reveal :: "http_request \<Rightarrow> ('z, unit) icpccall" where
  "handle_reveal req =
    hbind (of_result (param_i32 req ''contest_id'')) (\<lambda>cid.
    hbind (check_access req cid) (\<lambda>info.
    hbind (require_type info ''icpc'') (\<lambda>_.
    if \<not> has_permission req CONTEST_MANAGE
    then api_fail 403 ''Revealing the scoreboard requires contest:manage''
    else
      hbind (lift_sdk (icpc_load_config cid)) (\<lambda>config.
      hbind (if cc_freeze_minutes config > 0 \<and> (ci_phase info = ''during'' \<or> ci_phase info = ''after'')
             then hbind (query_contest_times cid) (\<lambda>(duration_ms, now_elapsed_ms).
                    hret (now_elapsed_ms \<ge> freeze_window_start_ms (cc_freeze_minutes config) duration_ms))
             else hret False) (\<lambda>window_open.
      if \<not> window_open
      then api_fail 409 ''The scoreboard freeze window has not opened yet; nothing to reveal''
      else lift_sdk (storage_set [(reveal_key cid, lit ''1'')]))))))"

text \<open>The contest settings the plugin publishes: penalty, compile-error counting, test details.\<close>

definition handle_contest_info :: "http_request \<Rightarrow> ('z, i32 \<times> bool \<times> bool) icpccall" where
  "handle_contest_info req =
    hbind (of_result (param_i32 req ''contest_id'')) (\<lambda>cid.
    hbind (check_access req cid) (\<lambda>info.
    hbind (require_type info ''icpc'') (\<lambda>_.
    hbind (lift_sdk (icpc_load_config cid)) (\<lambda>config.
    hret (cc_penalty_minutes config, cc_count_compile_error config, cc_show_test_details config)))))"

text \<open>The current finalized judgements of the contest, joined with their submissions.\<close>

definition status_text :: "host_status \<Rightarrow> string" where
  "status_text st = map char_of (host_status_as_str st)"

definition current_submissions :: "i32 \<Rightarrow> i32 option \<Rightarrow> 'z icpc_db_scheme \<Rightarrow> standings_submission list" where
  "current_submissions cid only d =
    concat (map (\<lambda>s.
      concat (map (\<lambda>j.
        concat (map (\<lambda>c.
          map (\<lambda>_.
            \<lparr>ss_submission_id = s_id s, ss_user_id = s_user_id s, ss_problem_id = s_problem_id s,
             ss_verdict = map_option verdict_deserialize (c_verdict (j_cols j)),
             ss_status = status_text (c_status (j_cols j)),
             ss_elapsed_ms = f64_as_i64 (f64_max (millis (s_created_at s) (ct_start_time c)) f64_zero)\<rparr>)
            (filter (\<lambda>(c', p, _). c' = cid \<and> p = s_problem_id s) (h_contest_problems d)))
          (filter (\<lambda>c. ct_id c = cid) (h_contests d))))
        (filter (\<lambda>j. j_submission_id j = s_id s \<and> j_is_current j \<and> j_is_finalized j) (db_judgements d))))
      (filter (\<lambda>s. s_contest_id s = Some cid \<and> (case only of None \<Rightarrow> True | Some u \<Rightarrow> s_user_id s = u))
        (db_submissions d)))"

datatype standings_response =
    EmptyBoard string i32 "rstr list"
  | Board string bool bool bool i32 "rstr list" "standings_entry list"

definition standings_board ::
  "http_request \<Rightarrow> i32 \<Rightarrow> string \<Rightarrow> contest_config \<Rightarrow> (i32 \<times> rstr option) list \<Rightarrow> i32 option \<Rightarrow>
   ('z, standings_response) icpccall" where
  "standings_board req cid phase config problems only =
    hbind (hok (storage_get_one (reveal_key cid))) (\<lambda>flag.
    let revealed = (flag = Some (Some (lit ''1'')));
        can_view_all = has_permission req CONTEST_MANAGE
    in hbind (if cc_freeze_minutes config > 0 \<and> \<not> revealed \<and> (phase = ''during'' \<or> phase = ''after'')
              then query_contest_times cid else hret (0, 0)) (\<lambda>(duration_ms, now_elapsed_ms).
       let fview = freeze_view_of (cc_freeze_minutes config) phase can_view_all revealed
                     duration_ms now_elapsed_ms
       in hbind (lift_sdk (db_query (\<lambda>d. map snd (filter (\<lambda>(c, u). c = cid \<and>
              (case only of None \<Rightarrow> True | Some uid \<Rightarrow> ui_user_id u = uid)) (h_contest_users d)))))
          (\<lambda>participants. hbind (lift_sdk (db_query (current_submissions cid only)))
          (\<lambda>subs. hret (Board phase (fv_frozen fview) revealed (fv_can_reveal fview)
               (cc_penalty_minutes config) (problem_labels problems)
               (standings_rows config problems participants subs (fv_freeze_start_ms fview)
                  (req_user_id req) (only \<noteq> None)))))))"

definition handle_standings :: "http_request \<Rightarrow> ('z, standings_response) icpccall" where
  "handle_standings req =
    hbind (of_result (param_i32 req ''contest_id'')) (\<lambda>cid.
    hbind (check_access req cid) (\<lambda>info.
    hbind (require_type info ''icpc'') (\<lambda>_.
    hbind (lift_sdk (icpc_load_config cid)) (\<lambda>config.
    hbind (lift_sdk (db_query (\<lambda>d. map snd (filter (\<lambda>(c, _). c = cid) (h_contest_problems d))))) (\<lambda>problems.
    let phase = ci_phase info in
    case standings_restriction_of phase (has_permission req CONTEST_MANAGE)
           (cc_public_standings config) (req_user_id req) of
      Unrestricted \<Rightarrow> standings_board req cid phase config problems None
    | RestrictedTo uid \<Rightarrow> standings_board req cid phase config problems (Some uid)
    | RestrictedAnonymous \<Rightarrow>
        hret (EmptyBoard phase (cc_penalty_minutes config) (problem_labels problems)))))))"

section \<open>Visibility decisions\<close>

record query_subject =
  qs_user_id :: "i32 option"
  qs_permissions :: "string list"

record query_resource =
  qr_kind :: string
  qr_id :: string
  qr_contest_id :: "i32 option"

datatype wire_decision = Allow | Deny | Redact "string list"

record freeze_row =
  fr_submission_id :: i32
  fr_user_id :: i32
  fr_contest_type :: "string option"
  fr_phase :: string
  fr_duration_ms :: f64
  fr_now_elapsed_ms :: f64
  fr_submission_elapsed_ms :: f64

definition resource_submission :: "query_resource \<Rightarrow> i32 option" where
  "resource_submission r =
    (if qr_kind r = ''submission'' \<and> qr_contest_id r \<noteq> None then parse_i32 (qr_id r) else None)"

definition freeze_rows :: "i32 list \<Rightarrow> 'z icpc_db_scheme \<Rightarrow> freeze_row list" where
  "freeze_rows ids d =
    concat (map (\<lambda>s. map (\<lambda>c.
        \<lparr>fr_submission_id = s_id s, fr_user_id = s_user_id s, fr_contest_type = ct_contest_type c,
         fr_phase = contest_phase (db_now d) c,
         fr_duration_ms = millis (ct_end_time c) (ct_start_time c),
         fr_now_elapsed_ms = millis (db_now d) (ct_start_time c),
         fr_submission_elapsed_ms = millis (s_created_at s) (ct_start_time c)\<rparr>)
        (filter (\<lambda>c. s_contest_id s = Some (ct_id c)) (h_contests d)))
      (filter (\<lambda>s. s_id s \<in> set ids) (db_submissions d)))"

text \<open>Collecting rows into a \<open>HashMap\<close> keeps the last row of a key.\<close>

definition rows_by_id :: "freeze_row list \<Rightarrow> i32 \<rightharpoonup> freeze_row" where
  "rows_by_id rows = map_of (rev (map (\<lambda>r. (fr_submission_id r, r)) rows))"

definition icpc_contest_ids :: "(i32 \<rightharpoonup> freeze_row) \<Rightarrow> query_resource list \<Rightarrow> i32 list" where
  "icpc_contest_ids rows resources =
    sort (remdups (List.map_filter (\<lambda>r.
      case resource_submission r of
        None \<Rightarrow> None
      | Some sid \<Rightarrow> (case rows sid of
            None \<Rightarrow> None
          | Some row \<Rightarrow> if fr_contest_type row = Some ''icpc'' then qr_contest_id r else None)) resources))"

fun load_configs :: "i32 list \<Rightarrow> ('z icpc_db_scheme, sdk_error, (i32 \<rightharpoonup> contest_config)) call" where
  "load_configs [] = hret Map.empty"
| "load_configs (c # cs) =
     hbind (icpc_load_config c) (\<lambda>cfg. hbind (load_configs cs) (\<lambda>m. hret (m(c \<mapsto> cfg))))"

definition decide_resource ::
  "i32 option \<Rightarrow> (i32 \<rightharpoonup> freeze_row) \<Rightarrow> (i32 \<rightharpoonup> contest_config) \<Rightarrow> (i32 \<Rightarrow> bool) \<Rightarrow> query_resource \<Rightarrow>
   wire_decision" where
  "decide_resource viewer_id rows configs revealed r =
    (case resource_submission r of
       None \<Rightarrow> Allow
     | Some sid \<Rightarrow>
         (case rows sid of
            None \<Rightarrow> Redact hidden_result_mask_fields
          | Some row \<Rightarrow>
              if fr_contest_type row \<noteq> Some ''icpc'' then Allow
              else if viewer_id = Some (fr_user_id row) then Allow
              else (case qr_contest_id r of
                      None \<Rightarrow> Allow
                    | Some cid \<Rightarrow>
                        (let config = (case configs cid of Some c \<Rightarrow> c | None \<Rightarrow> contest_config_default)
                         in if must_hide_other_submission (cc_public_standings config)
                                 (cc_freeze_minutes config) (fr_phase row) (revealed cid)
                                 (f64_as_i64 (fr_duration_ms row)) (f64_as_i64 (fr_now_elapsed_ms row))
                                 (f64_as_i64 (f64_max (fr_submission_elapsed_ms row) f64_zero))
                            then Redact hidden_result_mask_fields else Allow))))"

definition sees_all :: "query_subject \<Rightarrow> bool" where
  "sees_all subject \<longleftrightarrow> (\<exists>p \<in> set (qs_permissions subject). p = SUBMISSION_VIEW_ALL \<or> p = CONTEST_MANAGE)"

definition decide_visibility_decisions ::
  "query_subject \<Rightarrow> query_resource list \<Rightarrow> ('z icpc_db_scheme, sdk_error, wire_decision list) call" where
  "decide_visibility_decisions subject resources =
    (if sees_all subject
     then hret (map (\<lambda>_. Allow) resources)
     else
       (let submission_ids = List.map_filter resource_submission resources in
        if submission_ids = [] then hret (map (\<lambda>_. Allow) resources)
        else
          hbind (db_query (freeze_rows (sort (remdups submission_ids)))) (\<lambda>rows.
          let by_id = rows_by_id rows; contest_ids = icpc_contest_ids by_id resources in
          hbind (load_configs contest_ids) (\<lambda>configs.
          hbind (if contest_ids = [] then hret (Some Map.empty)
                 else hok (storage_get (map reveal_key contest_ids))) (\<lambda>raw.
          let flags = (case raw of Some m \<Rightarrow> m | None \<Rightarrow> Map.empty);
              revealed = (\<lambda>cid. cid \<in> set contest_ids \<and> flags (reveal_key cid) = Some (lit ''1''))
          in hret (map (decide_resource (qs_user_id subject) by_id configs revealed) resources))))))"

section \<open>Ranks\<close>

definition score_key :: "standings_entry \<Rightarrow> int \<times> int" where
  "score_key e = (- se_solved e, se_penalty e)"

lemma same_score_key: "same_score a b \<longleftrightarrow> score_key a = score_key b"
  by (auto simp: same_score_def score_key_def)

lemma entry_key_score: "entry_key a \<le> entry_key b \<Longrightarrow> score_key a \<le> score_key b"
  by (auto simp: entry_key_def score_key_def less_eq_prod_def)

lemma length_assign_ranks [simp]: "length (assign_ranks i prev es) = length es"
  by (induction i prev es rule: assign_ranks.induct) (auto simp: Let_def)

lemma assign_ranks_fields:
  "map (\<lambda>e. e\<lparr>se_rank := 0\<rparr>) (assign_ranks i prev es) = map (\<lambda>e. e\<lparr>se_rank := 0\<rparr>) es"
  by (induction i prev es rule: assign_ranks.induct) (auto simp: Let_def)

text \<open>How many entries of a list score strictly better.\<close>

definition better_count :: "standings_entry list \<Rightarrow> int \<times> int \<Rightarrow> nat" where
  "better_count es k = length (filter (\<lambda>e. score_key e < k) es)"

lemma better_count_append: "better_count (xs @ ys) k = better_count xs k + better_count ys k"
  by (simp add: better_count_def)

lemma better_count_sorted_suffix:
  "sorted (map score_key (e # es)) \<Longrightarrow> better_count (e # es) (score_key e) = 0"
  by (auto simp: better_count_def filter_empty_conv not_less)

lemma better_count_all: "(\<And>e. e \<in> set es \<Longrightarrow> score_key e < k) \<Longrightarrow> better_count es k = length es"
  by (induction es) (auto simp: better_count_def)

lemma sorted_le_last: "sorted (map f xs) \<Longrightarrow> x \<in> set xs \<Longrightarrow> f x \<le> f (last xs)"
  by (cases xs rule: rev_cases) (auto simp: sorted_append)

lemma assign_ranks_count:
  assumes "sorted (map score_key (pre @ es))"
    and "case prev of None \<Rightarrow> pre = []
         | Some p \<Rightarrow> pre \<noteq> [] \<and> score_key p = score_key (last pre) \<and>
             se_rank p = better_count pre (score_key (last pre)) + 1"
    and "i < length es"
  shows "se_rank (assign_ranks (length pre) prev es ! i) = better_count (pre @ es) (score_key (es ! i)) + 1"
  using assms
proof (induction es arbitrary: pre prev i)
  case Nil
  then show ?case by simp
next
  case (Cons e es)
  define r where "r = (case prev of Some p \<Rightarrow> if same_score e p then se_rank p else length pre + 1
    | None \<Rightarrow> length pre + 1)"
  have suffix: "better_count (e # es) (score_key e) = 0"
    using Cons.prems(1) by (intro better_count_sorted_suffix) (simp add: sorted_append)
  have prefix: "\<forall>x \<in> set pre. score_key x \<le> score_key e"
    using Cons.prems(1) by (auto simp: sorted_append)
  have r: "r = better_count pre (score_key e) + 1"
  proof (cases prev)
    case None
    with Cons.prems(2) show ?thesis by (simp add: r_def better_count_def)
  next
    case (Some p)
    with Cons.prems(2) have p: "pre \<noteq> []" "score_key p = score_key (last pre)"
      "se_rank p = better_count pre (score_key (last pre)) + 1" by auto
    show ?thesis
    proof (cases "same_score e p")
      case True
      with Some p show ?thesis by (simp add: r_def same_score_key)
    next
      case False
      have "score_key x < score_key e" if "x \<in> set pre" for x
      proof -
        from Cons.prems(1) have "sorted (map score_key pre)" by (simp add: sorted_append)
        with that have "score_key x \<le> score_key (last pre)" by (simp add: sorted_le_last)
        also have "\<dots> < score_key e"
          using prefix p False by (metis last_in_set order_le_less same_score_key)
        finally show ?thesis .
      qed
      then have "better_count pre (score_key e) = length pre" by (rule better_count_all)
      with Some False show ?thesis by (simp add: r_def)
    qed
  qed
  define e' where "e' = e\<lparr>se_rank := r\<rparr>"
  have key': "score_key e' = score_key e" by (simp add: e'_def score_key_def)
  have unfold: "assign_ranks (length pre) prev (e # es) = e' # assign_ranks (Suc (length pre)) (Some e') es"
    by (simp add: Let_def e'_def r_def split: option.splits)
  show ?case
  proof (cases i)
    case 0
    with unfold r suffix show ?thesis by (simp add: e'_def better_count_append)
  next
    case (Suc j)
    have "se_rank (assign_ranks (length (pre @ [e])) (Some e') es ! j) =
        better_count ((pre @ [e]) @ es) (score_key (es ! j)) + 1"
      by (rule Cons.IH)
        (use Cons.prems key' r Suc suffix in \<open>auto simp: e'_def better_count_append better_count_def\<close>)
    with unfold Suc show ?thesis by simp
  qed
qed

section \<open>Problem states, order and permutations\<close>

lemma position_Some:
  "position P xs = Some i \<longleftrightarrow> i < length xs \<and> P (xs ! i) \<and> (\<forall>j < i. \<not> P (xs ! j))"
proof (induction xs arbitrary: i)
  case (Cons x xs)
  then show ?case by (cases i) (auto simp: less_Suc_eq_0_disj nth_Cons')
qed simp

lemma position_None: "position P xs = None \<longleftrightarrow> (\<forall>x \<in> set xs. \<not> P x)"
  by (induction xs) auto

definition time_key :: "standings_submission \<Rightarrow> int \<times> int" where
  "time_key row = (ss_elapsed_ms row, ss_submission_id row)"

lemma time_key_fun: "(\<lambda>row. (ss_elapsed_ms row, ss_submission_id row)) = time_key"
  by (simp add: fun_eq_iff time_key_def)

lemma map_of_compute_problem_states:
  "map_of (compute_problem_states subs cce) k =
    (if k \<in> set (map row_key subs) then Some (group_state cce (filter (\<lambda>s. row_key s = k) subs)) else None)"
proof -
  have "map_of (map (\<lambda>k. (k, f k)) ks) k = (if k \<in> set ks then Some (f k) else None)"
    for f :: "i32 \<times> i32 \<Rightarrow> problem_state" and ks
    by (induction ks) auto
  then show ?thesis by (simp add: compute_problem_states_def)
qed

lemma distinct_compute_problem_states: "distinct (map fst (compute_problem_states subs cce))"
  by (simp add: compute_problem_states_def comp_def)

lemma group_state_perm:
  assumes "mset xs = mset ys" and "inj_on time_key (set xs)"
  shows "group_state cce xs = group_state cce ys"
proof -
  have "sort_key time_key xs = sort_key time_key ys"
    by (rule sort_key_inj_key_eq) (use assms in auto)
  then show ?thesis by (simp add: group_state_def time_key_fun)
qed

lemma problem_states_perm:
  assumes "mset subs = mset subs'" and "distinct (map ss_submission_id subs)"
  shows "map_of (compute_problem_states subs cce) = map_of (compute_problem_states subs' cce)"
proof
  fix k
  let ?g = "filter (\<lambda>s. row_key s = k)"
  have "mset (?g subs) = mset (?g subs')" using assms(1) by (simp add: mset_filter)
  moreover have "inj_on time_key (set (?g subs))"
    using assms(2) by (auto simp: distinct_map inj_on_def time_key_def)
  ultimately have "group_state cce (?g subs) = group_state cce (?g subs')" by (rule group_state_perm)
  moreover have "set subs = set subs'" using assms(1) by (rule mset_eq_setD)
  ultimately show "map_of (compute_problem_states subs cce) k = map_of (compute_problem_states subs' cce) k"
    by (simp add: map_of_compute_problem_states)
qed

text \<open>
  The state of a group in terms of its earliest accepted row: attempts are the
  penalty-eligible rows before it.
\<close>

lemma sorted_take_less:
  assumes "sorted (map f xs)" and "inj_on f (set xs)" and "distinct xs" and "i < length xs"
  shows "filter (\<lambda>x. f x < f (xs ! i)) xs = take i xs"
proof -
  have split: "xs = take i xs @ xs ! i # drop (Suc i) xs" using assms(4) by (simp add: id_take_nth_drop)
  have s: "sorted (map f (take i xs @ xs ! i # drop (Suc i) xs))" using assms(1) split by simp
  have "f x < f (xs ! i)" if "x \<in> set (take i xs)" for x
  proof -
    from s that have le: "f x \<le> f (xs ! i)" by (auto simp: sorted_append)
    have "x \<in> set xs" "xs ! i \<in> set xs" using that assms(4) by (auto dest: in_set_takeD)
    moreover have "distinct (take i xs @ xs ! i # drop (Suc i) xs)" using assms(3) split by simp
    with that have "x \<noteq> xs ! i" by auto
    ultimately have "f x \<noteq> f (xs ! i)" using assms(2) by (auto dest: inj_onD)
    with le show ?thesis by simp
  qed
  moreover have "\<not> f x < f (xs ! i)" if "x \<in> set (xs ! i # drop (Suc i) xs)" for x
    using s that by (auto simp: sorted_append not_less)
  ultimately have "filter (\<lambda>x. f x < f (xs ! i)) (take i xs @ xs ! i # drop (Suc i) xs) = take i xs"
    by (simp add: filter_id_conv filter_empty_conv)
  with split show ?thesis by simp
qed

lemma group_state_accepted:
  assumes dist: "distinct (map ss_submission_id grp)" and a: "a \<in> set grp" "ss_verdict a = Some Accepted"
    and first: "\<And>b. b \<in> set grp \<Longrightarrow> ss_verdict b = Some Accepted \<Longrightarrow> time_key a \<le> time_key b"
  shows "group_state cce grp =
    \<lparr>ps_attempts = wrap_i32 (int (length (filter (\<lambda>r. is_penalty_attempt r cce \<and> time_key r < time_key a) grp))),
     ps_solved = True, ps_solve_time_ms = Some (max (ss_elapsed_ms a) 0)\<rparr>"
proof -
  define rows where "rows = sort_key time_key grp"
  have set_rows: "set rows = set grp" and srt: "sorted (map time_key rows)" and "mset rows = mset grp"
    by (simp_all add: rows_def)
  have inj: "inj_on time_key (set rows)" "distinct rows"
    using dist \<open>mset rows = mset grp\<close> set_rows
    by (auto simp: distinct_map inj_on_def time_key_def dest: mset_eq_imp_distinct_iff)
  obtain i where i: "position (\<lambda>row. ss_verdict row = Some Accepted) rows = Some i"
    using a set_rows position_None [of "\<lambda>row. ss_verdict row = Some Accepted" rows]
    by (cases "position (\<lambda>row. ss_verdict row = Some Accepted) rows") auto
  then have il: "i < length rows" "ss_verdict (rows ! i) = Some Accepted"
    and before: "\<forall>j < i. ss_verdict (rows ! j) \<noteq> Some Accepted"
    by (auto simp: position_Some)
  from a set_rows obtain k where k: "k < length rows" "rows ! k = a" by (metis in_set_conv_nth)
  with before a(2) have "i \<le> k" by (meson not_le)
  with srt k have "time_key (rows ! i) \<le> time_key a"
    by (metis (no_types, lifting) length_map nth_map order_le_less_trans sorted_nth_mono)
  moreover from first [of "rows ! i"] il set_rows have "time_key a \<le> time_key (rows ! i)"
    by (metis nth_mem)
  ultimately have eq: "rows ! i = a"
    using inj(1) il(1) a(1) set_rows by (metis inj_onD nth_mem order_antisym)
  have "take i rows = filter (\<lambda>x. time_key x < time_key a) rows"
    using sorted_take_less [OF srt inj il(1)] eq by simp
  then have "filter (\<lambda>r. is_penalty_attempt r cce) (take i rows) =
      filter (\<lambda>r. is_penalty_attempt r cce \<and> time_key r < time_key a) rows"
    by (simp add: conj_commute)
  moreover have "length (filter P rows) = length (filter P grp)" for P
    using \<open>mset rows = mset grp\<close> by (metis mset_filter size_mset)
  ultimately show ?thesis using i eq
    by (simp add: group_state_def rows_def time_key_fun Let_def)
qed

lemma group_state_unsolved:
  assumes "\<And>b. b \<in> set grp \<Longrightarrow> ss_verdict b \<noteq> Some Accepted"
  shows "group_state cce grp = \<lparr>ps_attempts = wrap_i32 (int (length (filter (\<lambda>r. is_penalty_attempt r cce) grp))),
     ps_solved = False, ps_solve_time_ms = None\<rparr>"
proof -
  define rows where "rows = sort_key time_key grp"
  have "position (\<lambda>row. ss_verdict row = Some Accepted) rows = None"
    using assms by (simp add: position_None rows_def)
  moreover have "length (filter P rows) = length (filter P grp)" for P
    by (metis mset_filter mset_sort rows_def size_mset)
  ultimately show ?thesis by (simp add: group_state_def rows_def time_key_fun Let_def)
qed

section \<open>First solvers\<close>

definition solves_of :: "((i32 \<times> i32) \<times> problem_state) list \<Rightarrow> i32 \<Rightarrow> (i64 \<times> i32) list" where
  "solves_of states pid =
    map (\<lambda>((uid, _), st). (case ps_solve_time_ms st of Some t \<Rightarrow> t | None \<Rightarrow> I64_MAX, uid))
      (filter (\<lambda>((_, p), st). p = pid \<and> ps_solved st) states)"

lemma better_solve_Some: "better_solve (Some c) n = min c n"
  by (auto simp: better_solve_def min_def)

lemma better_solve_None: "better_solve None n = n"
  by (simp add: better_solve_def)

lemma Min_insert_min: "finite S \<Longrightarrow> Min (insert (min c n) S) = Min (insert c (insert n S))"
  for c n :: "'a::linorder"
  by (cases "S = {}") (simp_all add: min.assoc)

lemma best_solves_min:
  "best_solves states best pid =
    (if best pid = None \<and> solves_of states pid = [] then None
     else Some (Min (set_option (best pid) \<union> set (solves_of states pid))))"
proof (induction states best rule: best_solves.induct)
  case (1 best)
  then show ?case by (cases "best pid") (auto simp: solves_of_def)
next
  case (2 uid p st rest best)
  show ?case
  proof (cases "ps_solved st \<and> p = pid")
    case False
    with 2 show ?thesis by (auto simp: solves_of_def Let_def fun_upd_def)
  next
    case True
    define new where "new = (case ps_solve_time_ms st of Some t \<Rightarrow> t | None \<Rightarrow> I64_MAX, uid)"
    have s: "solves_of (((uid, p), st) # rest) pid = new # solves_of rest pid"
      using True by (simp add: solves_of_def new_def)
    have "Min (insert (better_solve (best pid) new) (set (solves_of rest pid))) =
        Min (set_option (best pid) \<union> set (new # solves_of rest pid))"
    proof (cases "best pid")
      case (Some c)
      then show ?thesis by (simp add: better_solve_Some Min_insert_min insert_commute del: Min_insert)
    qed (simp add: better_solve_None)
    with 2(2) True s show ?thesis by (simp add: new_def Let_def fun_upd_def)
  qed
qed

lemma compute_first_solvers_perm:
  assumes "mset states = mset states'"
  shows "compute_first_solvers states r = compute_first_solvers states' r"
proof -
  have "set (solves_of states pid) = set (solves_of states' pid)" for pid
    using mset_eq_setD [OF assms] by (simp add: solves_of_def)
  then have "best_solves states Map.empty pid = best_solves states' Map.empty pid" for pid
    by (simp add: best_solves_min) (metis empty_set set_empty)
  then show ?thesis by (simp add: compute_first_solvers_def)
qed

lemma compute_first_solvers_Some:
  assumes "compute_first_solvers states False pid = Some u"
  shows "\<exists>t. (t, u) \<in> set (solves_of states pid) \<and> (\<forall>s \<in> set (solves_of states pid). (t, u) \<le> s)"
proof -
  from assms obtain t where t: "best_solves states Map.empty pid = Some (t, u)"
    by (auto simp: compute_first_solvers_def)
  then have "solves_of states pid \<noteq> []" "(t, u) = Min (set (solves_of states pid))"
    by (auto simp: best_solves_min split: if_splits)
  then show ?thesis by (metis List.finite_set Min_in Min_le set_empty)
qed

section \<open>What the freeze hides\<close>

text \<open>
  Two submissions that a frozen viewer cannot tell apart: the same one, or two outcomes of
  the same submission of another team in the freeze window that agree on being a system error.
\<close>

definition indistinct :: "i64 \<Rightarrow> i32 option \<Rightarrow> standings_submission \<Rightarrow> standings_submission \<Rightarrow> bool" where
  "indistinct fs own s s' \<longleftrightarrow> s = s' \<or>
     fs \<le> ss_elapsed_ms s \<and> Some (ss_user_id s) \<noteq> own \<and>
     s' = s\<lparr>ss_verdict := ss_verdict s', ss_status := ss_status s'\<rparr> \<and>
     is_system_error s = is_system_error s'"

lemma indistinct_fields:
  assumes "indistinct fs own s s'"
  shows "row_key s' = row_key s \<and> ss_elapsed_ms s' = ss_elapsed_ms s \<and> ss_user_id s' = ss_user_id s \<and>
    is_system_error s' = is_system_error s \<and> (counts_as_live s fs own \<longrightarrow> s' = s)"
  using assms unfolding indistinct_def
proof (elim disjE conjE)
  assume "s' = s\<lparr>ss_verdict := ss_verdict s', ss_status := ss_status s'\<rparr>"
    and "is_system_error s = is_system_error s'" "fs \<le> ss_elapsed_ms s" "Some (ss_user_id s) \<noteq> own"
  moreover from this(1) have "row_key s' = row_key s" "ss_elapsed_ms s' = ss_elapsed_ms s"
    "ss_user_id s' = ss_user_id s"
    by (metis (no_types, lifting) row_key_def standings_submission.select_convs standings_submission.surjective
        standings_submission.update_convs(4,5))+
  ultimately show ?thesis by (simp add: counts_as_live_def)
qed simp

lemma indistinct_live: "indistinct fs own s s' \<Longrightarrow> counts_as_live s' fs own = counts_as_live s fs own"
  using indistinct_fields by (simp add: counts_as_live_def)

lemma indistinct_pre_freeze:
  "list_all2 (indistinct fs own) subs subs' \<Longrightarrow>
     filter (\<lambda>s. counts_as_live s fs own) subs' = filter (\<lambda>s. counts_as_live s fs own) subs"
  by (induction rule: list_all2_induct) (auto simp: indistinct_live dest: indistinct_fields)

lemma indistinct_pending:
  "list_all2 (indistinct fs own) subs subs' \<Longrightarrow>
     compute_pending (filter (\<lambda>s. \<not> counts_as_live s fs own) subs') states pending =
     compute_pending (filter (\<lambda>s. \<not> counts_as_live s fs own) subs) states pending"
proof (induction arbitrary: pending rule: list_all2_induct)
  case (Cons s ss s' ss')
  from indistinct_fields [OF Cons.hyps(1)] indistinct_live [OF Cons.hyps(1)] Cons.IH
  show ?case by (simp add: Let_def fun_upd_def)
qed simp

lemma indistinct_standings_rows:
  "list_all2 (indistinct fs own) subs subs' \<Longrightarrow>
     standings_rows config problems participants subs' fs own restricted =
     standings_rows config problems participants subs fs own restricted"
  by (simp add: standings_rows_def indistinct_pre_freeze indistinct_pending)

section \<open>Freeze, reveal and the two endpoints\<close>

lemma freeze_view_organizer:
  "fv_frozen (freeze_view_of fm phase True revealed dur now) = False"
  "fv_freeze_start_ms (freeze_view_of fm phase True revealed dur now) = I64_MAX"
  by (simp_all add: freeze_view_of_def)

lemma freeze_window_start_nonneg: "0 \<le> freeze_window_start_ms fm dur"
  by (simp add: freeze_window_start_ms_def I64_MAX_def)

text \<open>
  On a public board the scoreboard and the submission endpoints hide the same submissions:
  the board of a contestant does not count a submission of another team exactly when the
  visibility decision on that submission is to hide it.
\<close>

lemma visibility_matches_board:
  assumes "Some (ss_user_id s) \<noteq> own" and "ss_elapsed_ms s < I64_MAX"
  shows "must_hide_other_submission True fm phase revealed dur now (ss_elapsed_ms s) \<longleftrightarrow>
    \<not> counts_as_live s (fv_freeze_start_ms (freeze_view_of fm phase False revealed dur now)) own"
  using assms by (auto simp: must_hide_other_submission_def counts_as_live_def freeze_view_of_def Let_def)

lemma check_access_keeps:
  assumes "check_access req cid d = (Inr info, d')"
  shows "h_storage d' = h_storage d \<and> db_now d' = db_now d \<and> h_contests d' = h_contests d"
proof -
  from assms obtain d1 where
    li: "load_info cid d = (Inr info, d1)" and cv: "can_view req cid info d1 = (Inr True, d')"
    by (auto simp: check_access_def hbind_Inr split: if_splits)
  from li have "d1 = d\<lparr>db_faults := tl (db_faults d)\<rparr>"
    by (auto simp: load_info_def hbind_Inr dest!: db_query_Inr split: option.splits)
  moreover from cv have "d' = d1 \<or> d' = d1\<lparr>db_faults := tl (db_faults d1)\<rparr>"
    by (auto simp: can_view_def is_participant_def dest!: db_query_Inr split: if_splits option.splits)
  ultimately show ?thesis by auto
qed

lemma check_access_faults:
  assumes "check_access req cid d = (Inr info, d')" and "db_faults d = []"
  shows "db_faults d' = []"
proof -
  from assms obtain d1 where
    li: "load_info cid d = (Inr info, d1)" and cv: "can_view req cid info d1 = (Inr True, d')"
    by (auto simp: check_access_def hbind_Inr split: if_splits)
  from li assms(2) have "db_faults d1 = []"
    by (auto simp: load_info_def hbind_Inr split: option.splits)
  with cv show ?thesis
    by (auto simp: can_view_def is_participant_def split: if_splits option.splits)
qed

text \<open>
  A reveal that succeeds was asked for by an organizer and leaves the flag set.
\<close>

lemma handle_reveal_ok:
  assumes "handle_reveal req d = (Inr (), d')"
  obtains cid where "param_i32 req ''contest_id'' = Inr cid" "has_permission req CONTEST_MANAGE"
    "map_option fst (h_storage d' (reveal_key cid)) = Some (lit ''1'')"
proof -
  from assms obtain cid d1 where cid: "param_i32 req ''contest_id'' = Inr cid"
    and org: "has_permission req CONTEST_MANAGE"
    and set: "storage_set [(reveal_key cid, lit ''1'')] d1 = (Inr (), d')"
    by (auto simp: handle_reveal_def hbind_Inr split: if_splits)
  from set obtain n where "execute (\<lambda>d. (1, put_entry (reveal_key cid) (lit ''1'') d)) d1 = (Inr n, d')"
    by (auto simp: storage_set_def hbind_Inr)
  then obtain rest where "put_entry (reveal_key cid) (lit ''1'') (d1\<lparr>db_faults := rest\<rparr>) = d'"
    by (rule execute_ok) auto
  then have "map_option fst (h_storage d' (reveal_key cid)) = Some (lit ''1'')"
    by auto
  with cid org that show ?thesis by blast
qed

lemma standings_board_revealed:
  assumes "db_faults d = []" and "map_option fst (h_storage d (reveal_key cid)) = Some (lit ''1'')"
    and "standings_board req cid phase config problems only d = (Inr r, d')"
  shows "\<exists>can pen labels rows. r = Board phase False True can pen labels rows"
  using assms
  by (auto simp: standings_board_def hbind_Inr hok_def storage_get_one_def Let_def
      freeze_view_of_def freeze_window_open_def)

section \<open>Totals\<close>

lemma wrap_i32_add: "wrap_i32 (wrap_i32 a + b) = wrap_i32 (a + b)"
  unfolding wrap_i32_def by (simp add: mod_diff_left_eq mod_add_left_eq)
    (smt (verit) mod_add_left_eq mod_diff_left_eq)

definition solved_in :: "((i32 \<times> i32) \<times> problem_state) list \<Rightarrow> i32 \<Rightarrow> i32 \<Rightarrow> bool" where
  "solved_in states uid pid = (case map_of states (uid, pid) of Some st \<Rightarrow> ps_solved st | None \<Rightarrow> False)"

definition penalty_in :: "i32 \<Rightarrow> ((i32 \<times> i32) \<times> problem_state) list \<Rightarrow> i32 \<Rightarrow> i32 \<Rightarrow> i32" where
  "penalty_in ppa states uid pid =
    (case map_of states (uid, pid) of Some st \<Rightarrow> penalty_minutes st ppa | None \<Rightarrow> 0)"

lemma fold_cell_step:
  "fold (cell_step ppa states pend uid) columns (wrap_i32 s, wrap_i32 t, cells) = (a, b, c) \<Longrightarrow>
     a = wrap_i32 (s + int (length (filter (\<lambda>(_, pid). solved_in states uid pid) columns))) \<and>
     b = wrap_i32 (t + (\<Sum>(_, pid) \<leftarrow> columns. penalty_in ppa states uid pid))"
proof (induction columns arbitrary: s t cells)
  case Nil
  then show ?case by simp
next
  case (Cons col columns)
  obtain label pid where col: "col = (label, pid)" by force
  define st where "st = (case map_of states (uid, pid) of Some s \<Rightarrow> s | None \<Rightarrow> problem_state_default)"
  have solved: "solved_in states uid pid = ps_solved st"
    by (auto simp: solved_in_def st_def problem_state_default_def split: option.splits)
  have pen: "penalty_in ppa states uid pid = penalty_minutes st ppa"
    by (auto simp: penalty_in_def st_def problem_state_default_def penalty_minutes_def split: option.splits)
  show ?case
  proof (cases "ps_solved st")
    case True
    then obtain cells' where "cell_step ppa states pend uid col (wrap_i32 s, wrap_i32 t, cells) =
        (wrap_i32 (s + 1), wrap_i32 (t + penalty_minutes st ppa), cells')"
      by (simp add: cell_step_def col Let_def st_def [symmetric] wrap_i32_add)
    with Cons.prems have "fold (cell_step ppa states pend uid) columns
        (wrap_i32 (s + 1), wrap_i32 (t + penalty_minutes st ppa), cells') = (a, b, c)" by simp
    from Cons.IH [OF this] True show ?thesis by (simp add: col solved pen algebra_simps)
  next
    case False
    then have "penalty_minutes st ppa = 0" by (simp add: penalty_minutes_def)
    moreover have "\<exists>cells'. cell_step ppa states pend uid col (wrap_i32 s, wrap_i32 t, cells) =
        (wrap_i32 s, wrap_i32 t, cells')"
      using False by (cases "0 < ps_attempts st \<or> pend (uid, pid) \<noteq> None")
        (simp_all add: cell_step_def col Let_def st_def [symmetric])
    then obtain cells' where
      "cell_step ppa states pend uid col (wrap_i32 s, wrap_i32 t, cells) = (wrap_i32 s, wrap_i32 t, cells')"
      by blast
    with Cons.prems have "fold (cell_step ppa states pend uid) columns
        (wrap_i32 s, wrap_i32 t, cells') = (a, b, c)" by simp
    from Cons.IH [OF this] False \<open>penalty_minutes st ppa = 0\<close> show ?thesis by (simp add: col solved pen)
  qed
qed

lemma build_entry_totals:
  "se_solved (build_entry ppa states pend columns u) =
     wrap_i32 (int (length (filter (\<lambda>(_, pid). solved_in states (ui_user_id u) pid) columns))) \<and>
   se_penalty (build_entry ppa states pend columns u) =
     wrap_i32 (\<Sum>(_, pid) \<leftarrow> columns. penalty_in ppa states (ui_user_id u) pid)"
proof -
  obtain a b c where abc: "fold (cell_step ppa states pend (ui_user_id u)) columns (0, 0, Map.empty) = (a, b, c)"
    by (metis prod_cases3)
  have "wrap_i32 0 = 0" by (simp add: wrap_i32_def)
  with fold_cell_step [of ppa states pend "ui_user_id u" columns 0 0 Map.empty] abc show ?thesis
    by (simp add: build_entry_def)
qed

section \<open>Properties\<close>

lemma score_key_assign_ranks: "map score_key (assign_ranks i prev es) = map score_key es"
  by (induction i prev es rule: assign_ranks.induct) (auto simp: Let_def score_key_def)

lemma better_count_map: "better_count es k = length (filter (\<lambda>x. x < k) (map score_key es))"
  by (simp add: better_count_def filter_map comp_def)

lemma se_user_id_assign_ranks: "map se_user_id (assign_ranks i prev es) = map se_user_id es"
  by (induction i prev es rule: assign_ranks.induct) (auto simp: Let_def)

lemma se_user_id_mark [simp]: "se_user_id (mark_first_solves fsv columns e) = se_user_id e"
  unfolding mark_first_solves_def
  by (induction columns arbitrary: e) (auto simp: mark_column_def split: option.splits)

lemma se_user_id_build [simp]: "se_user_id (build_entry ppa states pend columns u) = ui_user_id u"
  by (simp add: build_entry_def split: prod.splits)

text \<open>
  C5: the standings list every participant once, ordered by problems solved (more first)
  and then by penalty (less first), and the rank of a row is one more than the number of rows
  with a strictly better score, so that equal scores share a rank.
\<close>

theorem standings_ranked:
  assumes "rows = standings_rows config problems participants subs fs own restricted"
  shows "mset (map se_user_id rows) = mset (map ui_user_id participants) \<and>
    sorted (map score_key rows) \<and>
    (\<forall>i < length rows. se_rank (rows ! i) = better_count rows (score_key (rows ! i)) + 1)"
proof -
  obtain es0 where es0: "rows = assign_ranks 0 None (sort_key entry_key es0)"
    and ids: "map se_user_id es0 = map ui_user_id participants"
    using assms by (simp add: standings_rows_def Let_def comp_def)
  define es where "es = sort_key entry_key es0"
  have keys: "map score_key rows = map score_key es"
    by (simp add: es0 es_def score_key_assign_ranks)
  have srt: "sorted (map score_key es)"
  proof -
    have "sorted_wrt (\<lambda>a b. entry_key a \<le> entry_key b) es"
      unfolding es_def by (metis sorted_map sorted_sort_key)
    then have "sorted_wrt (\<lambda>a b. score_key a \<le> score_key b) es"
      by (rule sorted_wrt_mono_rel [rotated]) (simp add: entry_key_score)
    then show ?thesis by (simp add: sorted_map)
  qed
  have "mset (map se_user_id rows) = mset (map ui_user_id participants)"
    unfolding es0 se_user_id_assign_ranks ids [symmetric] by (simp add: mset_map)
  moreover have "se_rank (rows ! i) = better_count rows (score_key (rows ! i)) + 1" if "i < length rows" for i
  proof -
    from that have i: "i < length es" by (simp add: es0 es_def)
    have "score_key (rows ! i) = score_key (es ! i)"
      using keys that i by (metis nth_map)
    moreover have "se_rank (rows ! i) = better_count es (score_key (es ! i)) + 1"
      using assign_ranks_count [of "[]" es None i] srt i by (simp add: es0 es_def)
    ultimately show ?thesis by (simp add: better_count_map keys)
  qed
  ultimately show ?thesis using srt keys by simp
qed

definition sample_user :: "i32 \<Rightarrow> user_identity" where
  "sample_user i = \<lparr>ui_user_id = i, ui_username = lit ''team'', ui_display_name = None\<rparr>"

theorem standings_ranked_witness:
  "se_rank (standings_rows contest_config_default [] [sample_user 4] [] 0 None False ! 0) = 1"
proof -
  let ?rows = "standings_rows contest_config_default [] [sample_user 4] [] 0 None False"
  have "length ?rows = 1" by (simp add: standings_rows_def Let_def)
  then obtain e where "?rows = [e]" by (auto simp: length_Suc_conv)
  then have "better_count ?rows (score_key (?rows ! 0)) = 0" by (simp add: better_count_def)
  with \<open>length ?rows = 1\<close> show ?thesis
    using standings_ranked [OF refl, of contest_config_default "[]" "[sample_user 4]" "[]" 0 None False]
    by simp
qed


definition sample_sub :: "i32 \<Rightarrow> i32 \<Rightarrow> verdict \<Rightarrow> i64 \<Rightarrow> standings_submission" where
  "sample_sub sid uid v t = \<lparr>ss_submission_id = sid, ss_user_id = uid, ss_problem_id = 3,
     ss_verdict = Some v, ss_status = ''Judged'', ss_elapsed_ms = t\<rparr>"


text \<open>
  C6: a problem counts as solved exactly when some submission of the team on it is
  accepted. Then its time is that of the earliest accepted submission (ties by submission id)
  and its attempts are the penalty-eligible submissions before that one; submissions after it
  do not matter. The order in which the database returns the rows does not matter either.
\<close>

theorem problem_state_semantics:
  assumes "distinct (map ss_submission_id subs)" and "k \<in> set (map row_key subs)"
    and "grp = filter (\<lambda>s. row_key s = k) subs" and "mset subs' = mset subs"
  shows "\<exists>st. map_of (compute_problem_states subs' cce) k = Some st \<and>
    (case min_by_key time_key (filter (\<lambda>s. ss_verdict s = Some Accepted) grp) of
       Some a \<Rightarrow> st = \<lparr>ps_attempts = wrap_i32 (int (length
             (filter (\<lambda>r. is_penalty_attempt r cce \<and> time_key r < time_key a) grp))),
           ps_solved = True, ps_solve_time_ms = Some (max (ss_elapsed_ms a) 0)\<rparr>
     | None \<Rightarrow> st = \<lparr>ps_attempts = wrap_i32 (int (length (filter (\<lambda>r. is_penalty_attempt r cce) grp))),
           ps_solved = False, ps_solve_time_ms = None\<rparr>)"
proof -
  have "map_of (compute_problem_states subs' cce) k = Some (group_state cce grp)"
  proof -
    have "map_of (compute_problem_states subs cce) k = Some (group_state cce grp)"
      using assms(2,3) by (simp add: map_of_compute_problem_states)
    with problem_states_perm [of subs subs' cce] assms(1,4) show ?thesis by simp
  qed
  moreover have d: "distinct (map ss_submission_id grp)"
    using assms(1,3) by (simp add: distinct_map_filter)
  have "case min_by_key time_key (filter (\<lambda>s. ss_verdict s = Some Accepted) grp) of
       Some a \<Rightarrow> group_state cce grp = \<lparr>ps_attempts = wrap_i32 (int (length
             (filter (\<lambda>r. is_penalty_attempt r cce \<and> time_key r < time_key a) grp))),
           ps_solved = True, ps_solve_time_ms = Some (max (ss_elapsed_ms a) 0)\<rparr>
     | None \<Rightarrow> group_state cce grp = \<lparr>ps_attempts = wrap_i32 (int (length (filter (\<lambda>r. is_penalty_attempt r cce) grp))),
           ps_solved = False, ps_solve_time_ms = None\<rparr>"
  proof (cases "min_by_key time_key (filter (\<lambda>s. ss_verdict s = Some Accepted) grp)")
    case None
    then have "filter (\<lambda>s. ss_verdict s = Some Accepted) grp = []" by (simp only: min_by_key_None)
    with None show ?thesis by (simp add: group_state_unsolved filter_empty_conv)
  next
    case (Some a)
    from min_by_key_Some [OF Some] have "group_state cce grp = \<lparr>ps_attempts = wrap_i32 (int (length
             (filter (\<lambda>r. is_penalty_attempt r cce \<and> time_key r < time_key a) grp))),
           ps_solved = True, ps_solve_time_ms = Some (max (ss_elapsed_ms a) 0)\<rparr>"
      by (intro group_state_accepted [OF d]) auto
    with Some show ?thesis by simp
  qed
  ultimately show ?thesis by blast
qed

theorem problem_state_semantics_witness:
  "map_of (compute_problem_states [sample_sub 2 7 Accepted 90, sample_sub 3 7 WrongAnswer 95,
       sample_sub 1 7 WrongAnswer 10] False) (7, 3) =
     Some \<lparr>ps_attempts = 1, ps_solved = True, ps_solve_time_ms = Some 90\<rparr>"
proof -
  let ?subs = "[sample_sub 1 7 WrongAnswer 10, sample_sub 2 7 Accepted 90, sample_sub 3 7 WrongAnswer 95]"
  have "filter (\<lambda>s. row_key s = (7, 3)) ?subs = ?subs" by (simp add: row_key_def sample_sub_def)
  with problem_state_semantics [of ?subs "(7, 3)" ?subs "[sample_sub 2 7 Accepted 90, sample_sub 3 7 WrongAnswer 95,
       sample_sub 1 7 WrongAnswer 10]" False]
  show ?thesis
    by (simp add: sample_sub_def row_key_def is_penalty_attempt_def time_key_def wrap_i32_def add_mset_commute)
qed

text \<open>
  The first-solve mark of a problem goes to the team with the earliest solve (ties to
  the smaller user id) among the states it is computed from, and does not depend on the
  iteration order of the map of states; a restricted view shows no mark at all.
\<close>

theorem first_solver_is_earliest:
  assumes "mset states' = mset states"
  shows "compute_first_solvers states' r = compute_first_solvers states r \<and>
    compute_first_solvers states True = Map.empty \<and>
    (\<forall>pid u. compute_first_solvers states False pid = Some u \<longrightarrow>
       (\<exists>t. (t, u) \<in> set (solves_of states pid) \<and> (\<forall>s \<in> set (solves_of states pid). (t, u) \<le> s)))"
  using compute_first_solvers_perm [OF assms] compute_first_solvers_Some
  by (simp add: compute_first_solvers_def [of _ True])

theorem first_solver_is_earliest_witness:
  "compute_first_solvers [((8, 3), \<lparr>ps_attempts = 0, ps_solved = True, ps_solve_time_ms = Some 5\<rparr>),
       ((7, 3), \<lparr>ps_attempts = 2, ps_solved = True, ps_solve_time_ms = Some 9\<rparr>)] False 3 =
   compute_first_solvers [((7, 3), \<lparr>ps_attempts = 2, ps_solved = True, ps_solve_time_ms = Some 9\<rparr>),
       ((8, 3), \<lparr>ps_attempts = 0, ps_solved = True, ps_solve_time_ms = Some 5\<rparr>)] False 3"
proof -
  let ?a = "((8, 3), \<lparr>ps_attempts = 0, ps_solved = True, ps_solve_time_ms = Some 5\<rparr>)
    :: (i32 \<times> i32) \<times> problem_state"
  let ?b = "((7, 3), \<lparr>ps_attempts = 2, ps_solved = True, ps_solve_time_ms = Some 9\<rparr>)
    :: (i32 \<times> i32) \<times> problem_state"
  have "mset [?a, ?b] = mset [?b, ?a]" by simp
  from first_solver_is_earliest [OF this, of False] show ?thesis by simp
qed

text \<open>
  C21: on a board with public standings the two endpoints agree. For a viewer without
  organizer rights, the submission endpoint hides another team's submission exactly when the
  board of that viewer does not count it.
\<close>

theorem submission_endpoint_matches_board:
  assumes "Some (ss_user_id s) \<noteq> own" and "ss_elapsed_ms s < I64_MAX"
  shows "must_hide_other_submission True fm phase revealed dur now (ss_elapsed_ms s) \<longleftrightarrow>
    \<not> counts_as_live s (fv_freeze_start_ms (freeze_view_of fm phase False revealed dur now)) own"
  using assms by (rule visibility_matches_board)

theorem submission_endpoint_matches_board_witness:
  "must_hide_other_submission True 60 ''during'' False 18000000 15000000 14700000 \<and>
   \<not> counts_as_live (sample_sub 2 8 Accepted 14700000)
      (fv_freeze_start_ms (freeze_view_of 60 ''during'' False False 18000000 15000000)) (Some 7)"
proof -
  have "must_hide_other_submission True 60 ''during'' False 18000000 15000000 14700000"
    by (simp add: must_hide_other_submission_def freeze_window_open_def freeze_window_start_ms_def wrap_i64_def)
  with submission_endpoint_matches_board [of "sample_sub 2 8 Accepted 14700000" "Some 7" 60 "''during''"
      False 18000000 15000000] show ?thesis
    by (simp add: sample_sub_def I64_MAX_def)
qed

text \<open>
  C22: revealing works and only an organizer can do it. After a reveal that succeeded, a
  standings request for that contest that reaches the board shows it revealed and not frozen,
  for every viewer.
\<close>

theorem reveal_unfreezes:
  assumes "handle_reveal req d = (Inr (), d')" and "db_faults d' = []"
    and "hr_params viewer ''contest_id'' = hr_params req ''contest_id''"
    and "handle_standings viewer d' = (Inr (Board phase frozen revealed can pen labels rows), d'')"
  shows "has_permission req CONTEST_MANAGE \<and> revealed \<and> \<not> frozen"
proof -
  from assms(1) obtain cid where cid: "param_i32 req ''contest_id'' = Inr cid"
    and org: "has_permission req CONTEST_MANAGE"
    and flag: "map_option fst (h_storage d' (reveal_key cid)) = Some (lit ''1'')"
    by (rule handle_reveal_ok)
  have "param_i32 viewer ''contest_id'' = Inr cid" using cid assms(3) by (simp add: param_i32_def)
  with assms(4) obtain info d1 config d2 problems d3 where
    acc: "check_access viewer cid d' = (Inr info, d1)"
    and cfg: "icpc_load_config cid d1 = (Inr config, d2)"
    and prb: "db_query (\<lambda>d. map snd (filter (\<lambda>(c, _). c = cid) (h_contest_problems d))) d2 = (Inr problems, d3)"
    and rest: "(case standings_restriction_of (ci_phase info) (has_permission viewer CONTEST_MANAGE)
           (cc_public_standings config) (req_user_id viewer) of
      Unrestricted \<Rightarrow> standings_board viewer cid (ci_phase info) config problems None
    | RestrictedTo uid \<Rightarrow> standings_board viewer cid (ci_phase info) config problems (Some uid)
    | RestrictedAnonymous \<Rightarrow>
        hret (EmptyBoard (ci_phase info) (cc_penalty_minutes config) (problem_labels problems))) d3 =
      (Inr (Board phase frozen revealed can pen labels rows), d'')"
    by (auto simp: handle_standings_def hbind_Inr Let_def require_type_def split: if_splits)
  from rest obtain only where brd: "standings_board viewer cid (ci_phase info) config problems only d3 =
      (Inr (Board phase frozen revealed can pen labels rows), d'')"
    by (auto split: standings_restriction.splits)
  have d1: "h_storage d1 = h_storage d'" "db_faults d1 = []"
    using check_access_keeps [OF acc] check_access_faults [OF acc] assms(2) by simp_all
  then have "d2 = d1" using cfg by (simp add: icpc_load_config_def)
  with d1 prb have "d3 = d1" by simp
  with d1 flag standings_board_revealed [OF _ _ brd] have "revealed \<and> \<not> frozen" by auto
  with org show ?thesis by simp
qed

definition sample_icpc_db :: icpc_db where
  "sample_icpc_db = \<lparr>db_submissions = [], db_judgements = [], db_results = [], db_faults = [], db_now = 3600000000,
     h_contests = [\<lparr>ct_id = 5, ct_contest_type = Some ''icpc'', ct_is_public = True, ct_activate_time = None,
        ct_deactivate_time = None, ct_start_time = 0, ct_end_time = 3600000000, ct_submissions_visible = False, ct_deleted_at = None\<rparr>],
     h_contest_users = [], h_contest_problems = [], h_entries = [],
     ic_config = (\<lambda>_. Some (contest_config_default\<lparr>cc_freeze_minutes := 30, cc_public_standings := True\<rparr>))\<rparr>"

definition sample_organizer :: http_request where
  "sample_organizer = \<lparr>hr_params = [''contest_id'' \<mapsto> ''5''],
     hr_auth = Some \<lparr>pa_user_id = 1, pa_permissions = [CONTEST_MANAGE]\<rparr>\<rparr>"

definition sample_viewer :: http_request where
  "sample_viewer = \<lparr>hr_params = [''contest_id'' \<mapsto> ''5''], hr_auth = None\<rparr>"

lemma parse_five: "parse_i32 ''5'' = Some 5"
  by (simp add: parse_i32_def parse_signed_def parse_digits_def digit_value_def I32_MIN_def I32_MAX_def)

lemmas sample_icpc_eval = trap_def h_storage_def sample_icpc_db_def check_access_def load_info_def can_view_def require_type_def
  find_contest_def contest_phase_def contest_is_active_def lift_sdk_def icpc_load_config_def hbind_def
  hret_def of_result_def param_i32_def parse_five has_permission_def

lemma sample_reveal: "\<exists>d'. handle_reveal sample_organizer sample_icpc_db = (Inr (), d') \<and> db_faults d' = [] \<and>
    d' = put_entry (reveal_key 5) (lit ''1'') sample_icpc_db"
  by (simp add: handle_reveal_def sample_organizer_def sample_icpc_eval query_contest_times_def millis_def
      freeze_window_start_ms_def wrap_i64_def sat_i64_def I64_MIN_def I64_MAX_def rat_trunc_def storage_set_def execute_def
      put_entry_def contest_config_default_def)

theorem reveal_unfreezes_witness:
  "\<exists>d' r d''. handle_reveal sample_organizer sample_icpc_db = (Inr (), d') \<and>
    handle_standings sample_viewer d' = (Inr r, d'') \<and>
    (\<exists>phase can pen labels rows. r = Board phase False True can pen labels rows)"
proof -
  obtain d' where rv: "handle_reveal sample_organizer sample_icpc_db = (Inr (), d')" "db_faults d' = []"
    "d' = put_entry (reveal_key 5) (lit ''1'') sample_icpc_db" using sample_reveal by blast
  obtain phase frozen revealed can pen labels rows d'' where
    st: "handle_standings sample_viewer d' = (Inr (Board phase frozen revealed can pen labels rows), d'')"
    by (simp add: handle_standings_def sample_viewer_def rv(3) sample_icpc_eval put_entry_def
        standings_restriction_of_def contest_config_default_def standings_board_def Let_def
        hok_def storage_get_one_def)
  have "hr_params sample_viewer ''contest_id'' = hr_params sample_organizer ''contest_id''"
    by (simp add: sample_viewer_def sample_organizer_def)
  from reveal_unfreezes [OF rv(1,2) this st] rv(1) st show ?thesis by blast
qed

section \<open>Visibility decisions are sound\<close>

text \<open>A submission of a contest, with its owner.\<close>

definition owned_by :: "'z icpc_db_scheme \<Rightarrow> i32 \<Rightarrow> i32 \<Rightarrow> bool" where
  "owned_by d sid u \<longleftrightarrow>
     (\<exists>s \<in> set (db_submissions d). s_id s = sid \<and> (\<exists>c \<in> set (h_contests d). s_contest_id s = Some (ct_id c))) \<and>
     (\<forall>s \<in> set (db_submissions d). s_id s = sid \<longrightarrow> s_user_id s = u)"

lemma freeze_rows_mem:
  "row \<in> set (freeze_rows ids d) \<Longrightarrow> fr_submission_id row \<in> set ids \<and>
     (\<exists>s \<in> set (db_submissions d). s_id s = fr_submission_id row \<and> s_user_id s = fr_user_id row)"
  by (auto simp: freeze_rows_def)

lemma rows_by_id_Some: "rows_by_id rows sid = Some row \<Longrightarrow> row \<in> set rows \<and> fr_submission_id row = sid"
  by (auto simp: rows_by_id_def dest!: map_of_SomeD)

lemma rows_by_id_owned:
  assumes "owned_by d sid u" and "sid \<in> set ids"
  shows "\<exists>row. rows_by_id (freeze_rows ids d) sid = Some row \<and> fr_user_id row = u"
proof -
  have "sid \<in> set (map fr_submission_id (freeze_rows ids d))"
    using assms by (force simp: owned_by_def freeze_rows_def)
  then have "rows_by_id (freeze_rows ids d) sid \<noteq> None"
    by (auto simp: rows_by_id_def map_of_eq_None_iff image_image)
  then obtain row where row: "rows_by_id (freeze_rows ids d) sid = Some row" by auto
  with rows_by_id_Some [OF row] freeze_rows_mem [of row ids d] assms(1) show ?thesis
    by (auto simp: owned_by_def)
qed

lemma load_configs_keeps:
  "load_configs cs d = (Inr m, d') \<Longrightarrow> db_submissions d' = db_submissions d \<and> h_contests d' = h_contests d"
proof (induction cs arbitrary: m d)
  case (Cons c cs)
  from Cons.prems obtain cfg d1 m1 where "icpc_load_config c d = (Inr cfg, d1)" "load_configs cs d1 = (Inr m1, d')"
    by (auto simp: hbind_Inr)
  with Cons.IH [of d1 m1] show ?case by (auto simp: icpc_load_config_def dest!: db_query_Inr)
qed simp

lemma decide_resource_not_deny: "decide_resource v rows configs revealed r \<noteq> Deny"
  by (auto simp: decide_resource_def Let_def split: option.splits)

lemma decide_visibility_cases:
  fixes d :: "'z icpc_db_scheme"
  assumes "decide_visibility_decisions subject resources d = (Inr ds, d')"
  shows "ds = map (\<lambda>_. Allow) resources \<or>
    (\<not> sees_all subject \<and>
     (\<exists>(d1 :: 'z icpc_db_scheme) configs revealed. db_submissions d1 = db_submissions d \<and> h_contests d1 = h_contests d \<and>
       ds = map (decide_resource (qs_user_id subject)
         (rows_by_id (freeze_rows (sort (remdups (List.map_filter resource_submission resources))) d1))
         configs revealed) resources))"
proof (cases "sees_all subject \<or>
    List.map_filter resource_submission resources = []")
  case True
  with assms show ?thesis
    by (cases "sees_all subject") (simp_all add: decide_visibility_decisions_def Let_def)
next
  case False
  let ?ids = "sort (remdups (List.map_filter resource_submission resources))"
  from False assms obtain rows d1 configs revealed where
    q: "db_query (freeze_rows ?ids) d = (Inr rows, d1)" and
    ds: "ds = map (decide_resource (qs_user_id subject) (rows_by_id rows) configs revealed) resources"
    by (auto simp: decide_visibility_decisions_def Let_def hbind_Inr)
  from db_query_Inr [OF q] have "rows = freeze_rows ?ids d1"
    "db_submissions d1 = db_submissions d" "h_contests d1 = h_contests d" by simp_all
  with False ds show ?thesis by blast
qed



end
