(* ===== verification/BracketModel.thy ===== *)
theory BracketModel
  imports PluginHost "HOL-Library.Multiset"
begin

text \<open>
  The data of the knockout plugin \<open>plugins/codelink-bracket\<close> and the parts of it that need no
  host: the setup and match documents (\<open>model.rs\<close>), the numbering of matches (\<open>storage.rs\<close>),
  when a stage opens and a match starts (\<open>bracket.rs\<close>, \<open>stages.rs\<close>) and the ranking each
  player imposes on the opponent (\<open>ordering.rs\<close>). A \<open>u8\<close> is a natural number and wraps at 256,
  a \<open>BTreeMap\<close> is a partial map.
\<close>

section \<open>Documents\<close>

datatype match_kind = Elimination | Final | ThirdPlace

record third_place_problems =
  tp_group_a :: "i32 list"
  tp_group_b :: "i32 list"
  tp_tiebreak :: "i32 list"

datatype third_place_config = Shared | Custom third_place_problems

record round_def =
  rd_group_a :: "i32 list"
  rd_group_b :: "i32 list"
  rd_tiebreak :: "i32 list"
  rd_wins_to_advance :: "nat option"
  rd_start_at_ms :: "i64 option"
  rd_post_order_wait_seconds :: "i64 option"
  rd_game_break_seconds :: "i64 option"
  rd_match_extra_time_seconds :: "i64 option"
  rd_xiaoju_seconds :: i64
  rd_tiebreak_seconds :: i64
  rd_break_before_seconds :: i64

record stage_clock =
  sk_start_at_ms :: i64
  sk_ordering_deadline_ms :: i64
  sk_starts_at_ms :: i64
  sk_awaiting_reschedule :: bool

record game_durations =
  gd_xiaoju_seconds :: i64
  gd_tiebreak_seconds :: i64

record bracket_setup =
  su_rounds :: "round_def list"
  su_seeds :: "i32 list"
  su_third_place :: "third_place_config option"
  su_opened_rounds :: nat
  su_stage_clocks :: "u8 \<rightharpoonup> stage_clock"
  su_match_extra_time_seconds :: i64
  su_penalty_seconds :: i64
  su_escalation_grace_seconds :: i64

datatype adjudication_reason = StuckJudge | TiebreakExhausted | SetupMissing | ContestEnded

datatype match_phase =
    PendingPhase | OrderingPhase | PreparingPhase | IntermissionPhase | InProgressPhase
  | TiebreakPhase | AwaitingJudgePhase | DecidedPhase | NeedsAdjudicationPhase

record xiaoju_state =
  x_index :: u8
  x_opened_at_ms :: i64
  x_base_deadline_ms :: "i64 option"
  x_deadline_ms :: i64
  x_extra_time_used_ms :: i64
  x_winner :: "i32 option"
  x_decided :: bool

record match_state =
  m_round :: u8
  m_pos :: u8
  m_player_a :: i32
  m_player_b :: i32
  m_group_a :: "i32 list"
  m_group_b :: "i32 list"
  m_order_a :: "i32 list option"
  m_order_b :: "i32 list option"
  m_xiaoju :: "xiaoju_state list"
  m_score_a :: u8
  m_score_b :: u8
  m_state :: match_phase
  m_next_game_at_ms :: "i64 option"
  m_winner :: "i32 option"
  m_tiebreak_index :: nat
  m_decided_at_ms :: i64
  m_awaiting_submission_id :: "i32 option"
  m_adjudication_reason :: "adjudication_reason option"
  m_game_durations :: "game_durations option"
  m_match_extra_time_seconds :: i64
  m_extra_time_remaining_ms :: i64

definition match_default :: match_state where
  "match_default =
    \<lparr>m_round = 0, m_pos = 0, m_player_a = 0, m_player_b = 0, m_group_a = [], m_group_b = [],
     m_order_a = None, m_order_b = None, m_xiaoju = [], m_score_a = 0, m_score_b = 0,
     m_state = PendingPhase, m_next_game_at_ms = None, m_winner = None, m_tiebreak_index = 0,
     m_decided_at_ms = 0, m_awaiting_submission_id = None, m_adjudication_reason = None,
     m_game_durations = None, m_match_extra_time_seconds = 0, m_extra_time_remaining_ms = 0\<rparr>"

section \<open>Numbering of matches\<close>

definition matches_in_round :: "u8 \<Rightarrow> u8 \<Rightarrow> u8" where
  "matches_in_round players rnd = (if rnd < 8 then players div 2 ^ rnd else 0)"

definition round_offset :: "u8 \<Rightarrow> u8 \<Rightarrow> u8" where
  "round_offset players rnd = fold (\<lambda>r acc. wrap_u8 (acc + matches_in_round players r)) [1..<rnd] 0"

definition match_id_for :: "u8 \<Rightarrow> u8 \<Rightarrow> u8 \<Rightarrow> u8" where
  "match_id_for players rnd pos = wrap_u8 (round_offset players rnd + pos)"

definition player_count :: "bracket_setup \<Rightarrow> u8" where
  "player_count su = wrap_u8 (length (su_seeds su))"

definition match_count :: "bracket_setup \<Rightarrow> u8 \<Rightarrow> u8" where
  "match_count su rnd =
    wrap_u8 (matches_in_round (player_count su) rnd +
      (if su_third_place su \<noteq> None \<and> rnd = length (su_rounds su) then 1 else 0))"

definition total_matches :: "bracket_setup \<Rightarrow> nat" where
  "total_matches su = (length (su_seeds su) - 1) + (if su_third_place su \<noteq> None then 1 else 0)"

definition match_kind_of :: "bracket_setup \<Rightarrow> u8 \<Rightarrow> u8 \<Rightarrow> match_kind" where
  "match_kind_of su rnd pos =
    (if rnd \<noteq> length (su_rounds su) then Elimination
     else if pos = 1 \<and> su_third_place su \<noteq> None then ThirdPlace
     else Final)"

definition stage_of :: "bracket_setup \<Rightarrow> u8 \<Rightarrow> round_def option" where
  "stage_of su rnd = (if rnd = 0 then None else list_get (su_rounds su) (rnd - 1))"

definition round_for_match :: "bracket_setup \<Rightarrow> u8 \<Rightarrow> u8 \<Rightarrow> round_def option" where
  "round_for_match su rnd pos =
    (case stage_of su rnd of
       None \<Rightarrow> None
     | Some base \<Rightarrow>
         if pos \<ge> match_count su rnd then None
         else if match_kind_of su rnd pos = ThirdPlace then
           (case su_third_place su of
              None \<Rightarrow> None
            | Some Shared \<Rightarrow> Some base
            | Some (Custom problems) \<Rightarrow>
                Some (base\<lparr>rd_group_a := tp_group_a problems, rd_group_b := tp_group_b problems,
                           rd_tiebreak := tp_tiebreak problems\<rparr>))
         else Some base)"

definition contains_problem :: "round_def \<Rightarrow> i32 \<Rightarrow> bool" where
  "contains_problem r problem \<longleftrightarrow>
     problem \<in> set (rd_group_a r) \<or> problem \<in> set (rd_group_b r) \<or> problem \<in> set (rd_tiebreak r)"

fun round_position :: "i32 \<Rightarrow> nat \<Rightarrow> round_def list \<Rightarrow> nat option" where
  "round_position problem i [] = None"
| "round_position problem i (r # rs) =
     (if contains_problem r problem then Some i else round_position problem (Suc i) rs)"

definition problem_round :: "bracket_setup \<Rightarrow> i32 \<Rightarrow> u8 option" where
  "problem_round su problem =
    (case round_position problem 0 (su_rounds su) of
       Some index \<Rightarrow> Some (wrap_u8 (wrap_u8 index + 1))
     | None \<Rightarrow>
         (case su_third_place su of
            Some (Custom p) \<Rightarrow>
              if problem \<in> set (tp_group_a p) \<or> problem \<in> set (tp_group_b p) \<or> problem \<in> set (tp_tiebreak p)
              then Some (wrap_u8 (length (su_rounds su))) else None
          | _ \<Rightarrow> None))"

definition is_regular_game :: "match_state \<Rightarrow> u8 \<Rightarrow> bool" where
  "is_regular_game m index \<longleftrightarrow> index < length (m_group_a m)"

definition post_order_wait :: "round_def \<Rightarrow> i64" where
  "post_order_wait r = (case rd_post_order_wait_seconds r of Some w \<Rightarrow> w | None \<Rightarrow> 30)"

definition game_break :: "round_def \<Rightarrow> i64" where
  "game_break r = (case rd_game_break_seconds r of
      Some b \<Rightarrow> b | None \<Rightarrow> if rd_start_at_ms r \<noteq> None then 60 else 0)"

definition win_target :: "round_def \<Rightarrow> nat" where
  "win_target r = (case rd_wins_to_advance r of Some w \<Rightarrow> w | None \<Rightarrow> length (rd_group_a r) div 2 + 1)"

definition game_durations_of :: "round_def \<Rightarrow> game_durations" where
  "game_durations_of r =
    \<lparr>gd_xiaoju_seconds = rd_xiaoju_seconds r, gd_tiebreak_seconds = rd_tiebreak_seconds r\<rparr>"

definition base_deadline_ms :: "xiaoju_state \<Rightarrow> i64" where
  "base_deadline_ms x = (case x_base_deadline_ms x of Some b \<Rightarrow> b | None \<Rightarrow> x_deadline_ms x)"

definition contains_submission_at_us :: "xiaoju_state \<Rightarrow> i64 \<Rightarrow> bool" where
  "contains_submission_at_us x at_us \<longleftrightarrow> x_opened_at_ms x * 1000 \<le> at_us \<and> at_us < x_deadline_ms x * 1000"

definition find_players_match :: "(u8 \<times> match_state) list \<Rightarrow> u8 \<Rightarrow> i32 \<Rightarrow> match_state option" where
  "find_players_match matches rnd player =
    map_option snd (List.find (\<lambda>(_, m). m_round m = rnd \<and> (m_player_a m = player \<or> m_player_b m = player)) matches)"

section \<open>When a stage opens and a match starts\<close>

definition prerequisites_ready_at_ms ::
  "bracket_setup \<Rightarrow> (u8 \<times> match_state) list \<Rightarrow> u8 \<Rightarrow> i64 \<Rightarrow> i64 option" where
  "prerequisites_ready_at_ms su matches rnd contest_start_ms =
    (if rnd \<le> 1 then Some contest_start_ms
     else case list_get (su_rounds su) (rnd - 1) of
       None \<Rightarrow> None
     | Some stage \<Rightarrow>
         let previous = filter (\<lambda>m. m_round m = rnd - 1) (map snd matches) in
         if length previous \<noteq> match_count su (rnd - 1) \<or> (\<exists>m \<in> set previous. m_state m \<noteq> DecidedPhase)
         then None
         else Option.bind (opt_max (map m_decided_at_ms previous)) (\<lambda>last.
                Option.bind (checked_mul_i64 (rd_break_before_seconds stage) 1000) (\<lambda>wait.
                  checked_add_i64 last wait)))"

definition stage_open_at_ms ::
  "bracket_setup \<Rightarrow> (u8 \<times> match_state) list \<Rightarrow> u8 \<Rightarrow> i64 \<Rightarrow> i64 option" where
  "stage_open_at_ms su matches rnd contest_start_ms =
    Option.bind (stage_of su rnd) (\<lambda>stage.
      if rd_start_at_ms stage \<noteq> None then
        Option.bind (su_stage_clocks su rnd) (\<lambda>clock.
          if \<not> sk_awaiting_reschedule clock then Some (sk_start_at_ms clock) else None)
      else prerequisites_ready_at_ms su matches rnd contest_start_ms)"

definition start_at_ms ::
  "bracket_setup \<Rightarrow> (u8 \<times> match_state) list \<Rightarrow> match_state \<Rightarrow> i64 \<Rightarrow> i64 option" where
  "start_at_ms su matches m contest_start_ms =
    Option.bind (stage_of su (m_round m)) (\<lambda>stage.
      if rd_start_at_ms stage \<noteq> None then
        Option.bind (su_stage_clocks su (m_round m)) (\<lambda>clock.
          if \<not> sk_awaiting_reschedule clock \<and> m_state m \<in> {OrderingPhase, PreparingPhase}
          then Some (sk_starts_at_ms clock) else None)
      else if m_state m \<noteq> OrderingPhase \<or> m_order_a m = None \<or> m_order_b m = None then None
      else stage_open_at_ms su matches (m_round m) contest_start_ms)"

definition fill_missing_orders :: "match_state \<Rightarrow> match_state" where
  "fill_missing_orders m =
    (let m1 = (if m_order_a m = None then m\<lparr>m_order_a := Some (m_group_a m)\<rparr> else m) in
     if m_order_b m1 = None then m1\<lparr>m_order_b := Some (m_group_b m1)\<rparr> else m1)"

section \<open>Stage clocks\<close>

definition ORDERING_SECONDS :: i64 where "ORDERING_SECONDS = 180"

definition planned_clock :: "bracket_setup \<Rightarrow> u8 \<Rightarrow> sdk_error + stage_clock" where
  "planned_clock su rnd =
    (case list_get (su_rounds su) (rnd - 1) of
       None \<Rightarrow> Inl (OtherError ''Stage is not configured'')
     | Some stage \<Rightarrow>
    (case rd_start_at_ms stage of
       None \<Rightarrow> Inl (OtherError ''Stage has no schedule'')
     | Some start \<Rightarrow>
    (case checked_add_i64 start (ORDERING_SECONDS * 1000) of
       None \<Rightarrow> Inl (OtherError ''Stage ordering deadline overflow'')
     | Some ordering_deadline \<Rightarrow>
    (case Option.bind (checked_mul_i64 (post_order_wait stage) 1000)
            (\<lambda>wait. checked_add_i64 ordering_deadline wait) of
       None \<Rightarrow> Inl (OtherError ''Stage game start overflow'')
     | Some starts \<Rightarrow>
        Inr \<lparr>sk_start_at_ms = start, sk_ordering_deadline_ms = ordering_deadline,
             sk_starts_at_ms = starts, sk_awaiting_reschedule = False\<rparr>))))"

definition decide_clock ::
  "bracket_setup \<Rightarrow> (u8 \<times> match_state) list \<Rightarrow> u8 \<Rightarrow> i64 \<Rightarrow> sdk_error + stage_clock" where
  "decide_clock su matches rnd contest_start =
    (case planned_clock su rnd of
       Inl e \<Rightarrow> Inl e
     | Inr planned \<Rightarrow>
         let fresh = planned\<lparr>sk_awaiting_reschedule :=
               (\<not> (case prerequisites_ready_at_ms su matches rnd contest_start of
                    Some ready \<Rightarrow> ready \<le> sk_start_at_ms planned | None \<Rightarrow> False)
                \<or> rnd > su_opened_rounds su + 1)\<rparr>
         in case su_stage_clocks su rnd of
              Some saved \<Rightarrow> if sk_start_at_ms saved = sk_start_at_ms planned then Inr saved else Inr fresh
            | None \<Rightarrow> Inr fresh)"

record stage_view =
  sv_round :: u8
  sv_phase :: string
  sv_start_at_ms :: "i64 option"
  sv_ordering_deadline_ms :: "i64 option"
  sv_starts_at_ms :: "i64 option"
  sv_match_count :: u8
  sv_decided_count :: nat

definition stage_view_of ::
  "bracket_setup \<Rightarrow> (u8 \<times> match_state) list \<Rightarrow> i64 \<Rightarrow> nat \<Rightarrow> round_def \<Rightarrow> stage_view" where
  "stage_view_of su matches now index rdef =
    (let rnd = wrap_u8 (wrap_u8 index + 1);
         clock = (case su_stage_clocks su rnd of
                    Some c \<Rightarrow> Some c
                  | None \<Rightarrow> (case planned_clock su rnd of Inr c \<Rightarrow> Some c | Inl _ \<Rightarrow> None));
         decided_count = length (filter (\<lambda>(_, m). m_round m = rnd \<and> m_state m = DecidedPhase) matches);
         before = (\<lambda>t. case clock of Some c \<Rightarrow> now < t c | None \<Rightarrow> False)
     in \<lparr>sv_round = rnd,
         sv_phase =
           (if decided_count = match_count su rnd then ''complete''
            else if (case clock of Some c \<Rightarrow> sk_awaiting_reschedule c | None \<Rightarrow> False) then ''awaiting_reschedule''
            else if su_opened_rounds su < rnd then ''scheduled''
            else if before sk_ordering_deadline_ms then ''ordering''
            else if before sk_starts_at_ms then ''preparing''
            else ''playing''),
         sv_start_at_ms = rd_start_at_ms rdef,
         sv_ordering_deadline_ms = map_option sk_ordering_deadline_ms clock,
         sv_starts_at_ms = map_option sk_starts_at_ms clock,
         sv_match_count = match_count su rnd, sv_decided_count = decided_count\<rparr>)"

definition stage_views :: "bracket_setup \<Rightarrow> (u8 \<times> match_state) list \<Rightarrow> i64 \<Rightarrow> stage_view list" where
  "stage_views su matches now =
    map (\<lambda>(index, r). stage_view_of su matches now index r) (enumerate 0 (su_rounds su))"

section \<open>Rankings\<close>

definition LEFT_ORDERING_PHASE_MSG :: string where
  "LEFT_ORDERING_PHASE_MSG = ''the match has left the ordering phase; rankings can no longer be changed''"

definition ORDERING_CLOSED_MSG :: string where
  "ORDERING_CLOSED_MSG = ''The stage ordering window has closed''"

definition is_permutation_of :: "i32 list \<Rightarrow> i32 list \<Rightarrow> bool" where
  "is_permutation_of order grp \<longleftrightarrow> sort order = sort grp"

definition record_order :: "match_state \<Rightarrow> i32 \<Rightarrow> i32 list \<Rightarrow> string + match_state" where
  "record_order m submitter order =
    (if m_state m \<noteq> OrderingPhase then Inl LEFT_ORDERING_PHASE_MSG
     else if submitter = m_player_b m then
       (if \<not> is_permutation_of order (m_group_a m)
        then Inl ''order must be a permutation of the opponent's problem group''
        else Inr (m\<lparr>m_order_a := Some order\<rparr>))
     else if submitter = m_player_a m then
       (if \<not> is_permutation_of order (m_group_b m)
        then Inl ''order must be a permutation of the opponent's problem group''
        else Inr (m\<lparr>m_order_b := Some order\<rparr>))
     else Inl (''player '' @ show_int submitter @ '' is not a participant in this match''))"

end
