(* ===== verification/SubmissionFeedback.thy ===== *)
theory SubmissionFeedback
  imports PluginHost
begin

text \<open>
  The two durable host services a contest plugin builds on beside its storage: the admission
  of a submission under a guard with feedback that the plugin withholds until it releases it
  (\<open>server/src/services/submission_feedback.rs\<close>, \<open>broccoli-types/src/types/submission_admission.rs\<close>,
  \<open>server-sdk/src/sdk/submissions.rs\<close>), and the one-shot timers of
  \<open>server/src/host_funcs/timer.rs\<close>. Rows and timers are those of the calling plugin. The
  metadata a plugin attaches to a submission is opaque to the host, of type \<open>'m\<close>.
\<close>

section \<open>Rows and records\<close>

type_synonym submission_lifecycle = host_status

datatype feedback_outcome = OutcomePending | OutcomeRetired | OutcomeReleased

record feedback_result =
  res_verdict :: verdict
  res_score :: f64

record 'm feedback_row =
  f_submission_id :: i32
  f_contest_id :: i32
  f_user_id :: i32
  f_state_key :: string
  f_metadata :: 'm
  f_slot_key :: "string option"
  f_outcome :: feedback_outcome
  f_public_result :: "feedback_result option"

record 'm feedback_record =
  fb_submission_id :: i32
  fb_contest_id :: i32
  fb_user_id :: i32
  fb_problem_id :: i32
  fb_submitted_at_us :: i64
  fb_status :: submission_lifecycle
  fb_verdict :: "verdict option"
  fb_key :: string
  fb_metadata :: 'm
  fb_withheld :: bool
  fb_slot_held :: bool
  fb_slot_key :: "string option"
  fb_result :: "feedback_result option"

text \<open>
  The plugin's world: \<open>host_db\<close> with the feedback rows and the timers, in the order they were
  inserted. Which instants the timestamp library can represent is a parameter of the world.
\<close>

record ('v, 'm) plugin_db = "'v host_db" +
  p_feedback :: "'m feedback_row list"
  p_timers :: "(string \<times> i64 \<times> string) list"
  p_representable :: "i64 \<Rightarrow> bool"

type_synonym ('v, 'm, 'z, 'a) pcall = "(('v, 'm, 'z) plugin_db_scheme, sdk_error, 'a) call"

datatype release_result = Original | Override verdict f64

datatype feedback_action = Release release_result | ReleaseSlot

datatype feedback_update_outcome = Applied | AlreadyApplied

definition validate_release :: "release_result \<Rightarrow> rstr + unit" where
  "validate_release r = (case r of
      Override _ score \<Rightarrow> if \<not> f64_is_finite score then Inl (lit ''Invalid feedback score'') else Inr ()
    | Original \<Rightarrow> Inr ())"

definition released_result :: "release_result \<Rightarrow> feedback_result option" where
  "released_result r = (case r of
      Original \<Rightarrow> None
    | Override v score \<Rightarrow> Some \<lparr>res_verdict = v, res_score = score\<rparr>)"

definition apply_action ::
  "feedback_action \<Rightarrow> 'm feedback_record \<Rightarrow> rstr + (feedback_update_outcome \<times> 'm feedback_record)" where
  "apply_action action r =
    (case action of
       ReleaseSlot \<Rightarrow>
         if \<not> fb_slot_held r then Inr (AlreadyApplied, r) else Inr (Applied, r\<lparr>fb_slot_held := False\<rparr>)
     | Release release \<Rightarrow>
         (case validate_release release of
            Inl e \<Rightarrow> Inl e
          | Inr _ \<Rightarrow>
              let result = released_result release in
              if \<not> fb_withheld r then
                (if fb_result r = result then Inr (AlreadyApplied, r)
                 else Inl (lit ''Feedback was already released with a different result''))
              else Inr (Applied, r\<lparr>fb_withheld := False, fb_slot_held := False, fb_result := result\<rparr>)))"

section \<open>Queries\<close>

definition FEEDBACK_PAGE_SIZE :: nat where "FEEDBACK_PAGE_SIZE = 100"
definition FEEDBACK_MAX_PAGE_SIZE :: nat where "FEEDBACK_MAX_PAGE_SIZE = 1000"

record feedback_query =
  q_key :: "string option"
  q_slot_key :: "string option"
  q_submission_ids :: "i32 list option"
  q_unpublished_only :: bool
  q_after_id :: i32
  q_limit :: nat

definition feedback_query_default :: feedback_query where
  "feedback_query_default =
    \<lparr>q_key = None, q_slot_key = None, q_submission_ids = None, q_unpublished_only = False,
     q_after_id = 0, q_limit = FEEDBACK_PAGE_SIZE\<rparr>"

definition page_size :: "feedback_query \<Rightarrow> nat" where
  "page_size q = max 1 (min FEEDBACK_MAX_PAGE_SIZE (q_limit q))"

definition row_wanted :: "feedback_query \<Rightarrow> 'm feedback_row \<Rightarrow> bool" where
  "row_wanted q f \<longleftrightarrow>
     (case q_key q of None \<Rightarrow> True | Some k \<Rightarrow> f_state_key f = k) \<and>
     (case q_slot_key q of None \<Rightarrow> True | Some k \<Rightarrow> f_slot_key f = Some k) \<and>
     (q_unpublished_only q \<longrightarrow> f_outcome f \<in> {OutcomePending, OutcomeRetired}) \<and>
     (case q_submission_ids q of None \<Rightarrow> True | Some ids \<Rightarrow> f_submission_id f \<in> set ids)"

definition feedback_record_of :: "'m feedback_row \<Rightarrow> submission_row \<Rightarrow> 'm feedback_record" where
  "feedback_record_of f s =
    \<lparr>fb_submission_id = f_submission_id f, fb_contest_id = f_contest_id f, fb_user_id = f_user_id f,
     fb_problem_id = s_problem_id s, fb_submitted_at_us = s_created_at s,
     fb_status = c_status (s_cols s),
     fb_verdict = map_option verdict_deserialize (c_verdict (s_cols s)),
     fb_key = f_state_key f, fb_metadata = f_metadata f,
     fb_withheld = (f_outcome f \<noteq> OutcomeReleased),
     fb_slot_held = (f_outcome f = OutcomePending \<and> f_slot_key f \<noteq> None),
     fb_slot_key = f_slot_key f,
     fb_result = map_option (\<lambda>r. r\<lparr>res_verdict := wire_verdict (res_verdict r)\<rparr>) (f_public_result f)\<rparr>"

text \<open>The join of the plugin's rows with the submissions, restricted and ordered by id.\<close>

definition feedback_rows ::
  "feedback_query \<Rightarrow> ('v, 'm, 'z) plugin_db_scheme \<Rightarrow> 'm feedback_record list" where
  "feedback_rows q d =
    sort_key fb_submission_id
      (concat (map (\<lambda>f. map (feedback_record_of f)
          (filter (\<lambda>s. s_id s = f_submission_id f) (db_submissions d)))
        (filter (\<lambda>f. row_wanted q f \<and> f_submission_id f > q_after_id q) (p_feedback d))))"

definition feedback_page ::
  "feedback_query \<Rightarrow> ('v, 'm, 'z) plugin_db_scheme \<Rightarrow> 'm feedback_record list" where
  "feedback_page q d = take (page_size q) (feedback_rows q d)"

definition feedback :: "feedback_query \<Rightarrow> ('v, 'm, 'z, 'm feedback_record list) pcall" where
  "feedback q = db_query (feedback_page q)"

text \<open>
  \<open>feedback_all\<close> reads page after page until one is not full. Every full page moves \<open>after_id\<close>
  past at least one row, so one round per row of the table and one more always suffice; the
  rounds left are the first argument of the loop.
\<close>

fun feedback_loop ::
  "nat \<Rightarrow> feedback_query \<Rightarrow> 'm feedback_record list \<Rightarrow> ('v, 'm, 'z, 'm feedback_record list) pcall" where
  "feedback_loop 0 q records = hthrow (OtherError ''feedback_all did not end'')"
| "feedback_loop (Suc n) q records =
     hbind (feedback q) (\<lambda>page.
       let full = (length page = page_size q);
           q' = (case list_last page of Some r \<Rightarrow> q\<lparr>q_after_id := fb_submission_id r\<rparr> | None \<Rightarrow> q);
           records' = records @ page
       in if \<not> full then hret records' else feedback_loop n q' records')"

definition feedback_all :: "feedback_query \<Rightarrow> ('v, 'm, 'z, 'm feedback_record list) pcall" where
  "feedback_all q d = feedback_loop (Suc (length (feedback_rows q d))) q [] d"

section \<open>Slots\<close>

record slot_token =
  st_key :: string
  st_generation :: "i32 option"

record 'm slot_observation =
  so_token :: slot_token
  so_pending :: "'m feedback_record option"

text \<open>The newest submission of the slot and the one that holds it.\<close>

definition slot_state :: "string \<Rightarrow> ('v, 'm, 'z) plugin_db_scheme \<Rightarrow> i32 option \<times> i32 option" where
  "slot_state key d =
    (let rows = filter (\<lambda>f. f_slot_key f = Some key) (p_feedback d) in
     (opt_max (map f_submission_id rows),
      map_option f_submission_id (List.find (\<lambda>f. f_outcome f = OutcomePending) rows)))"

definition observe_slot :: "string \<Rightarrow> ('v, 'm, 'z, 'm slot_observation) pcall" where
  "observe_slot key =
    hbind (db_query (slot_state key)) (\<lambda>(generation, pending).
    hbind (case pending of
             None \<Rightarrow> hret None
           | Some id' \<Rightarrow>
               hbind (feedback (feedback_query_default\<lparr>q_submission_ids := Some [id'], q_limit := 1\<rparr>))
                 (\<lambda>page. hret (List.find fb_slot_held page)))
      (\<lambda>record'. hret \<lparr>so_token = \<lparr>st_key = key, st_generation = generation\<rparr>, so_pending = record'\<rparr>))"

section \<open>Releases\<close>

text \<open>A transaction: it fails with the next pending fault, fails and changes nothing, or commits.\<close>

definition transact :: "('z db_scheme \<Rightarrow> 'e + ('a \<times> 'z db_scheme)) \<Rightarrow> (rstr \<Rightarrow> 'e) \<Rightarrow> ('z db_scheme, 'e, 'a) call" where
  "transact txn fail d =
    (case db_faults d of
       Some msg # rest \<Rightarrow> (Inl (fail msg), d\<lparr>db_faults := rest\<rparr>)
     | faults \<Rightarrow>
         let d1 = d\<lparr>db_faults := tl faults\<rparr> in
         case txn d1 of Inl e \<Rightarrow> (Inl e, d1) | Inr (x, d2) \<Rightarrow> (Inr x, d2))"

definition set_outcome :: "'m feedback_record \<Rightarrow> 'm feedback_row \<Rightarrow> 'm feedback_row" where
  "set_outcome r f =
    (if f_submission_id f = fb_submission_id r
     then f\<lparr>f_outcome := (if \<not> fb_withheld r then OutcomeReleased else OutcomeRetired),
            f_public_result := fb_result r\<rparr>
     else f)"

definition feedback_update ::
  "i32 \<Rightarrow> feedback_action \<Rightarrow> ('v, 'm, 'z) plugin_db_scheme \<Rightarrow>
   sdk_error + (feedback_update_outcome \<times> ('v, 'm, 'z) plugin_db_scheme)" where
  "feedback_update id' action d =
    (if \<not> (\<exists>f \<in> set (p_feedback d). f_submission_id f = id')
     then Inl (Database (lit ''Feedback record not found for this plugin''))
     else case feedback_page (feedback_query_default\<lparr>q_submission_ids := Some [id'], q_limit := 1\<rparr>) d of
       [] \<Rightarrow> Inl (Database (lit ''Feedback record not found''))
     | record' # _ \<Rightarrow>
         (case apply_action action record' of
            Inl e \<Rightarrow> Inl (Database e)
          | Inr (AlreadyApplied, _) \<Rightarrow> Inr (AlreadyApplied, d)
          | Inr (Applied, record'') \<Rightarrow>
              Inr (Applied, d\<lparr>p_feedback := map (set_outcome record'') (p_feedback d)\<rparr>)))"

definition wire_action :: "feedback_action \<Rightarrow> feedback_action" where
  "wire_action a = (case a of Release (Override v score) \<Rightarrow> Release (Override (wire_verdict v) score) | _ \<Rightarrow> a)"

definition update_feedback :: "i32 \<Rightarrow> feedback_action \<Rightarrow> ('v, 'm, 'z, feedback_update_outcome) pcall" where
  "update_feedback id' action = transact (feedback_update id' (wire_action action)) Database"

definition release_feedback :: "i32 \<Rightarrow> release_result \<Rightarrow> ('v, 'm, 'z, feedback_update_outcome) pcall" where
  "release_feedback id' result =
    (case validate_release result of
       Inl e \<Rightarrow> hthrow (Database e)
     | Inr _ \<Rightarrow> update_feedback id' (Release result))"

definition release_slot :: "i32 \<Rightarrow> ('v, 'm, 'z, feedback_update_outcome) pcall" where
  "release_slot id' = update_feedback id' ReleaseSlot"

section \<open>Admission\<close>

text \<open>
  The guard names a storage key and the value the plugin saw there. The new submission comes
  with the id its table assigned.
\<close>

record ('v, 'm) submission_admission =
  ad_guard_key :: string
  ad_expected_value :: 'v
  ad_feedback_key :: string
  ad_metadata :: 'm
  ad_slot :: "slot_token option"
  ad_latest_arrival_ms :: "i64 option"

datatype app_error = PluginRejection string string nat | AppInternal string | AppDatabase rstr

definition rejected :: "string \<Rightarrow> string \<Rightarrow> app_error" where
  "rejected code message = PluginRejection code message 409"

definition admission_txn ::
  "submission_row \<Rightarrow> ('v, 'm) submission_admission \<Rightarrow> ('v, 'm, 'z) plugin_db_scheme \<Rightarrow>
   app_error + (submission_row \<times> ('v, 'm, 'z) plugin_db_scheme)" where
  "admission_txn new ad d =
    (if (case ad_slot ad of
           None \<Rightarrow> False
         | Some slot \<Rightarrow>
             let (generation, pending) = slot_state (st_key slot) d
             in generation \<noteq> st_generation slot \<or> pending \<noteq> None)
     then Inl (rejected ''SUBMISSION_IN_FLIGHT'' ''Submission slot changed; refresh and retry.'')
     else case h_storage d (ad_guard_key ad) of
       None \<Rightarrow> Inl (rejected ''SUBMISSION_STATE_CHANGED'' ''Admission state changed; refresh and retry.'')
     | Some (v, revision) \<Rightarrow>
         if v \<noteq> ad_expected_value ad
         then Inl (rejected ''SUBMISSION_STATE_CHANGED'' ''Admission state changed; refresh and retry.'')
         else if revision = I64_MAX then Inl (AppInternal ''Storage revision overflow'')
         else if (case ad_latest_arrival_ms ad of None \<Rightarrow> False | Some e \<Rightarrow> db_now d \<ge> e * 1000)
         then Inl (rejected ''SUBMISSION_TOO_LATE'' ''Submission admission window has closed.'')
         else (case s_contest_id new of
           None \<Rightarrow> Inl (AppDatabase (lit ''null value in column contest_id''))
         | Some cid \<Rightarrow>
             let model = new\<lparr>s_created_at := db_now d\<rparr>;
                 row = \<lparr>f_submission_id = s_id new, f_contest_id = cid, f_user_id = s_user_id new,
                        f_state_key = ad_feedback_key ad, f_metadata = ad_metadata ad,
                        f_slot_key = map_option st_key (ad_slot ad), f_outcome = OutcomePending,
                        f_public_result = None\<rparr>
             in Inr (model, (put_entry (ad_guard_key ad) v d)
                  \<lparr>db_submissions := db_submissions d @ [model], p_feedback := p_feedback d @ [row]\<rparr>)))"

definition insert_admitted ::
  "submission_row \<Rightarrow> ('v, 'm) submission_admission \<Rightarrow>
   (('v, 'm, 'z) plugin_db_scheme, app_error, submission_row) call" where
  "insert_admitted new ad = transact (admission_txn new ad) AppDatabase"

section \<open>Timers\<close>

definition MAX_PAYLOAD_BYTES :: nat where "MAX_PAYLOAD_BYTES = 64 * 1024"
definition MAX_PENDING_PER_PLUGIN :: nat where "MAX_PENDING_PER_PLUGIN = 10000"

definition timer_put :: "string \<Rightarrow> i64 \<Rightarrow> string \<Rightarrow> ('v, 'm, 'z) plugin_db_scheme \<Rightarrow> ('v, 'm, 'z) plugin_db_scheme" where
  "timer_put key fire_at payload d = d\<lparr>p_timers := AList.update key (fire_at, payload) (p_timers d)\<rparr>"

definition timer_schedule :: "i64 \<Rightarrow> string \<Rightarrow> string \<Rightarrow> ('v, 'm, 'z, unit) pcall" where
  "timer_schedule fire_at key payload =
    (if length payload > MAX_PAYLOAD_BYTES then hthrow (HostCall (lit ''timer payload is over the cap''))
     else hbind (trap (db_query (\<lambda>d. length (filter (\<lambda>(k, _). k \<noteq> key) (p_timers d))))) (\<lambda>pending.
       if pending \<ge> MAX_PENDING_PER_PLUGIN then hthrow (HostCall (lit ''too many pending timers''))
       else (\<lambda>d.
         if \<not> p_representable d fire_at then hthrow (HostCall (lit ''fire_at_ms is out of range'')) d
         else trap (hbind (execute (\<lambda>d. (1, timer_put key fire_at payload d))) (\<lambda>_. hret ())) d)))"

definition timer_cancel :: "string \<Rightarrow> ('v, 'm, 'z, unit) pcall" where
  "timer_cancel key =
    trap (hbind (execute (\<lambda>d. (1, d\<lparr>p_timers := filter (\<lambda>(k, _). k \<noteq> key) (p_timers d)\<rparr>)))
      (\<lambda>_. hret ()))"

definition timer_at :: "('v, 'm, 'z) plugin_db_scheme \<Rightarrow> string \<Rightarrow> i64 option" where
  "timer_at d key = map_option fst (map_of (p_timers d) key)"

section \<open>Pages\<close>

text \<open>Submission ids are the key of both tables.\<close>

definition feedback_keys :: "('v, 'm, 'z) plugin_db_scheme \<Rightarrow> bool" where
  "feedback_keys d \<longleftrightarrow> distinct (map s_id (db_submissions d)) \<and> distinct (map f_submission_id (p_feedback d))"

lemma filter_concat_map: "filter P (concat (map g xs)) = concat (map (\<lambda>x. filter P (g x)) xs)"
  by (induction xs) auto

lemma concat_map_filter: "concat (map g (filter P xs)) = concat (map (\<lambda>x. if P x then g x else []) xs)"
  by (induction xs) auto

lemma fb_submission_id_of [simp]: "fb_submission_id (feedback_record_of f s) = f_submission_id f"
  by (simp add: feedback_record_of_def)

lemma feedback_rows_after:
  fixes d :: "('v, 'm, 'z) plugin_db_scheme"
  assumes "q_after_id q \<le> a"
  shows "feedback_rows (q\<lparr>q_after_id := a\<rparr>) d = filter (\<lambda>r. a < fb_submission_id r) (feedback_rows q d)"
proof -
  define g where "g f = map (feedback_record_of f) (filter (\<lambda>s. s_id s = f_submission_id f) (db_submissions d))"
    for f :: "'m feedback_row"
  have rows: "feedback_rows q d = sort_key fb_submission_id
      (concat (map (\<lambda>f. if row_wanted q f \<and> f_submission_id f > q_after_id q then g f else []) (p_feedback d)))" for q
    unfolding feedback_rows_def g_def concat_map_filter by simp
  have g: "filter (\<lambda>r. a < fb_submission_id r) (g f) = (if a < f_submission_id f then g f else [])" for f
    by (auto simp: g_def feedback_record_of_def filter_empty_conv filter_id_conv)
  have "row_wanted (q\<lparr>q_after_id := a\<rparr>) f = row_wanted q f" for f :: "'m feedback_row"
    by (simp add: row_wanted_def)
  then have "(if row_wanted (q\<lparr>q_after_id := a\<rparr>) f \<and> a < f_submission_id f then g f else []) =
      filter (\<lambda>r. a < fb_submission_id r) (if row_wanted q f \<and> q_after_id q < f_submission_id f then g f else [])" for f
    using assms g [of f] by simp
  then show ?thesis by (simp add: rows filter_sort filter_concat_map)
qed

lemma feedback_ids_distinct:
  assumes "feedback_keys d"
  shows "distinct (map fb_submission_id (feedback_rows q d))"
proof -
  have one: "filter (\<lambda>s. s_id s = i) ss = [] \<or> (\<exists>s. filter (\<lambda>s. s_id s = i) ss = [s])"
    if "distinct (map s_id ss)" for i ss
    using that
  proof (induction ss)
    case (Cons a ss)
    then have "s_id x \<noteq> s_id a" if "x \<in> set ss" for x using that by (metis distinct.simps(2) image_eqI list.simps(9) set_map)
    then have "filter (\<lambda>s. s_id s = s_id a) ss = []" by (simp add: filter_empty_conv)
    with Cons show ?case by auto
  qed simp
  let ?g = "\<lambda>f. map (feedback_record_of f) (filter (\<lambda>s. s_id s = f_submission_id f) (db_submissions d))"
  have "distinct (map fb_submission_id (concat (map ?g fs)))" if "distinct (map f_submission_id fs)" for fs
    using that
  proof (induction fs)
    case (Cons f fs)
    moreover have "distinct (map fb_submission_id (?g f))"
      using one [of "db_submissions d" "f_submission_id f"] assms by (auto simp: feedback_keys_def)
    moreover have "set (map fb_submission_id (?g f)) \<inter> set (map fb_submission_id (concat (map ?g fs))) = {}"
      using Cons.prems by auto
    moreover have "distinct (map f_submission_id fs)" using Cons.prems by simp
    ultimately show ?case using Cons.IH by (simp only: list.map concat.simps map_append distinct_append distinct.simps)
  qed simp
  moreover have "distinct (map f_submission_id (filter P (p_feedback d)))" for P
    using assms by (simp add: feedback_keys_def distinct_map_filter)
  ultimately have "distinct (map fb_submission_id (concat (map ?g (filter P (p_feedback d)))))" for P by blast
  then show ?thesis unfolding feedback_rows_def distinct_map by simp
qed

lemma filter_above_nth:
  assumes "sorted (map k xs)" and "distinct (map k xs)" and "n < length xs"
  shows "filter (\<lambda>x. k (xs ! n) < k x) xs = drop (Suc n) xs"
proof -
  have up: "k (xs ! i) < k (xs ! j)" if "i < j" "j < length xs" for i j
    using assms(1,2) that strict_sorted_iff [of "map k xs"] sorted_wrt_nth_less [of "(<)" "map k xs" i j] by simp
  have "filter (\<lambda>x. k (xs ! n) < k x) (take (Suc n) xs) = []"
  proof (clarsimp simp: filter_empty_conv in_set_conv_nth)
    fix i
    assume "i < length xs" "i < Suc n" "k (xs ! n) < k (xs ! i)"
    then show False using up [of i n] assms(3) by (cases "i = n") auto
  qed
  moreover have "filter (\<lambda>x. k (xs ! n) < k x) (drop (Suc n) xs) = drop (Suc n) xs"
    using assms(3) up by (auto simp: filter_id_conv in_set_conv_nth)
  ultimately show ?thesis by (metis append_Nil append_take_drop_id filter_append)
qed

lemma feedback_rows_next:
  assumes "feedback_keys d" and "n < length (feedback_rows q d)"
  shows "feedback_rows (q\<lparr>q_after_id := fb_submission_id (feedback_rows q d ! n)\<rparr>) d = drop (Suc n) (feedback_rows q d)"
proof -
  have srt: "sorted (map fb_submission_id (feedback_rows q d))" by (simp add: feedback_rows_def)
  have "feedback_rows q d ! n \<in> set (feedback_rows q d)" using assms(2) by simp
  then have "q_after_id q \<le> fb_submission_id (feedback_rows q d ! n)"
    by (auto simp: feedback_rows_def feedback_record_of_def)
  then show ?thesis
    using filter_above_nth [OF srt feedback_ids_distinct [OF assms(1)] assms(2)]
    by (simp add: feedback_rows_after)
qed

lemma feedback_loop_complete:
  fixes d :: "('v, 'm, 'z) plugin_db_scheme"
  assumes "feedback_keys d" and "db_faults d = []" and "length (feedback_rows q d) < n"
  shows "feedback_loop n q records d = (Inr (records @ feedback_rows q d), d)"
  using assms(3)
proof (induction n arbitrary: q records)
  case 0
  then show ?case by simp
next
  case (Suc n)
  let ?rows = "feedback_rows q d" and ?k = "page_size q"
  have k: "1 \<le> ?k" by (simp add: page_size_def)
  show ?case
  proof (cases "length ?rows < ?k")
    case True
    then show ?thesis
      using assms(2) by (simp add: hbind_def feedback_def feedback_page_def Let_def hret_def)
  next
    case False
    let ?last = "?rows ! (?k - 1)" and ?q = "\<lambda>r. q\<lparr>q_after_id := fb_submission_id r\<rparr>"
    have kl: "?k - 1 < length ?rows" using False k by linarith
    then have "list_last (take ?k ?rows) = Some ?last"
      using k False by (auto simp: list_last_def last_conv_nth)
    moreover have nx: "feedback_rows (?q ?last) d = drop ?k ?rows"
      using feedback_rows_next [OF assms(1) kl] k by simp
    moreover have "feedback_loop n (?q ?last) (records @ take ?k ?rows) d =
        (Inr ((records @ take ?k ?rows) @ feedback_rows (?q ?last) d), d)"
      using Suc.prems k False nx by (intro Suc.IH) simp
    ultimately show ?thesis
      using False assms(2) by (simp add: hbind_def feedback_def feedback_page_def Let_def)
  qed
qed

text \<open>
  C40: reading all feedback page after page ends and is complete. Whatever the page size the query
  asks for, more rounds than there are matching rows are never used; the records returned are those
  of the matching rows behind the cursor, each once and in the order of their submissions.
\<close>

theorem feedback_all_complete:
  fixes d :: "('v, 'm, 'z) plugin_db_scheme"
  assumes "feedback_keys d" and "db_faults d = []"
  shows "(\<exists>records. feedback_all q d = (Inr records, d) \<and>
      (\<forall>n > length records. feedback_loop n q [] d = (Inr records, d)) \<and>
      sorted (map fb_submission_id records) \<and> distinct (map fb_submission_id records) \<and>
      set records = {feedback_record_of f s | f s. f \<in> set (p_feedback d) \<and> s \<in> set (db_submissions d) \<and>
        s_id s = f_submission_id f \<and> row_wanted q f \<and> q_after_id q < f_submission_id f})"
proof (intro exI conjI allI impI)
  show "feedback_all q d = (Inr (feedback_rows q d), d)"
    unfolding feedback_all_def using feedback_loop_complete [OF assms, of q _ "[]"] by (simp del: feedback_loop.simps)
  show "feedback_loop n q [] d = (Inr (feedback_rows q d), d)" if "length (feedback_rows q d) < n" for n
    using feedback_loop_complete [OF assms that, of "[]"] by (simp del: feedback_loop.simps)
  show "sorted (map fb_submission_id (feedback_rows q d))" by (simp add: feedback_rows_def)
  show "distinct (map fb_submission_id (feedback_rows q d))" by (rule feedback_ids_distinct [OF assms(1)])
  show "set (feedback_rows q d) = {feedback_record_of f s | f s. f \<in> set (p_feedback d) \<and> s \<in> set (db_submissions d) \<and>
      s_id s = f_submission_id f \<and> row_wanted q f \<and> q_after_id q < f_submission_id f}"
    by (auto simp: feedback_rows_def)
qed

definition sample_feedback_db :: "(unit, unit) plugin_db" where
  "sample_feedback_db = \<lparr>db_submissions = [\<lparr>s_id = 1, s_user_id = 7, s_problem_id = 3, s_contest_id = Some 5,
       s_language = lit ''cpp'', s_mode = lit ''Submit'', s_created_at = 0, s_judge_epoch = 1,
       s_cols = \<lparr>c_status = Judged, c_verdict = None, c_score = None, c_time_used = None,
         c_memory_used = None, c_compile_output = None, c_error_code = None, c_error_message = None\<rparr>, s_judged_at = None\<rparr>],
     db_judgements = [], db_results = [], db_faults = [], db_now = 100,
     h_contests = [], h_contest_users = [], h_contest_problems = [], h_entries = [],
     p_feedback = [\<lparr>f_submission_id = 1, f_contest_id = 5, f_user_id = 7, f_state_key = ''k'', f_metadata = (),
       f_slot_key = None, f_outcome = OutcomePending, f_public_result = None\<rparr>],
     p_timers = [], p_representable = (\<lambda>_. True)\<rparr>"

theorem feedback_all_complete_witness:
  "\<exists>records. feedback_all (feedback_query_default\<lparr>q_limit := 1\<rparr>) sample_feedback_db = (Inr records, sample_feedback_db) \<and>
    distinct (map fb_submission_id records)"
  using feedback_all_complete [of sample_feedback_db "feedback_query_default\<lparr>q_limit := 1\<rparr>"]
  by (auto simp: feedback_keys_def sample_feedback_db_def)

section \<open>Releases are final\<close>

text \<open>How a row may change: a released row keeps its result, and nothing becomes pending again.\<close>

definition feedback_moves :: "'m feedback_row \<Rightarrow> 'm feedback_row \<Rightarrow> bool" where
  "feedback_moves f f' \<longleftrightarrow> f' = f \<or>
     (f_outcome f \<noteq> OutcomeReleased \<and> f_outcome f' \<noteq> OutcomePending \<and>
      f' = f\<lparr>f_outcome := f_outcome f', f_public_result := f_public_result f'\<rparr>)"

lemma transact_cases [consumes 1, case_names fault abort commit]:
  assumes "transact txn fail d = (r, d')"
  obtains (fault) msg where "r = Inl (fail msg)" "d' = d\<lparr>db_faults := tl (db_faults d)\<rparr>"
    | (abort) e where "r = Inl e" "txn (d\<lparr>db_faults := tl (db_faults d)\<rparr>) = Inl e"
        "d' = d\<lparr>db_faults := tl (db_faults d)\<rparr>"
    | (commit) x where "r = Inr x" "txn (d\<lparr>db_faults := tl (db_faults d)\<rparr>) = Inr (x, d')"
proof -
  note def' = assms [unfolded transact_def Let_def]
  consider (f) msg rest where "db_faults d = Some msg # rest"
    | (ok) "\<forall>msg rest. db_faults d \<noteq> Some msg # rest" by blast
  then show ?thesis
  proof cases
    case f
    with def' show ?thesis by (intro fault) auto
  next
    case ok
    with def' have run: "(case txn (d\<lparr>db_faults := tl (db_faults d)\<rparr>) of
        Inl e \<Rightarrow> (Inl e, d\<lparr>db_faults := tl (db_faults d)\<rparr>) | Inr (x, d2) \<Rightarrow> (Inr x, d2)) = (r, d')"
      by (cases "db_faults d") (auto split: option.splits sum.splits)
    show ?thesis
    proof (cases "txn (d\<lparr>db_faults := tl (db_faults d)\<rparr>)")
      case (Inl e)
      with run show ?thesis by (intro abort [of e]) auto
    next
      case (Inr xd)
      with run show ?thesis by (intro commit [of "fst xd"]) (auto split: prod.splits)
    qed
  qed
qed

lemma feedback_page_row:
  assumes "r \<in> set (feedback_page (q\<lparr>q_submission_ids := Some [i], q_limit := n\<rparr>) d)"
  obtains f s where "f \<in> set (p_feedback d)" "f_submission_id f = i" "r = feedback_record_of f s"
  using assms by (auto simp: feedback_page_def feedback_rows_def row_wanted_def dest!: in_set_takeD)

lemma apply_action_Applied:
  assumes "apply_action a r = Inr (Applied, r')"
  shows "fb_withheld r \<or> (fb_slot_held r \<and> a = ReleaseSlot)" and "fb_submission_id r' = fb_submission_id r"
    and "a = ReleaseSlot \<Longrightarrow> fb_slot_held r \<and> fb_withheld r' = fb_withheld r \<and> fb_result r' = fb_result r"
  using assms by (auto simp: apply_action_def Let_def split: feedback_action.splits sum.splits if_splits)

lemma feedback_update_moves:
  fixes d :: "('v, 'm, 'z) plugin_db_scheme"
  assumes "feedback_keys d" and "feedback_update i a d = Inr (out, d')"
  shows "list_all2 feedback_moves (p_feedback d) (p_feedback d') \<and>
    d' = d\<lparr>p_feedback := p_feedback d'\<rparr>"
proof -
  let ?page = "feedback_page (feedback_query_default\<lparr>q_submission_ids := Some [i], q_limit := 1\<rparr>) d"
  from assms(2) obtain r rs out' r' where page: "?page = r # rs" and act: "apply_action a r = Inr (out', r')"
    and d': "d' = (if out' = AlreadyApplied then d else d\<lparr>p_feedback := map (set_outcome r') (p_feedback d)\<rparr>)"
    by (auto simp: feedback_update_def split: if_splits list.splits sum.splits prod.splits
        feedback_update_outcome.splits)
  show ?thesis
  proof (cases out')
    case AlreadyApplied
    with d' show ?thesis by (simp add: list_all2_refl feedback_moves_def)
  next
    case Applied
    from page obtain f s where f: "f \<in> set (p_feedback d)" "f_submission_id f = i" "r = feedback_record_of f s"
      using feedback_page_row [where r = r and i = i and n = 1 and q = feedback_query_default and d = d] by auto
    note act' = apply_action_Applied [OF act [unfolded Applied]]
    from act'(1) f(3) have open': "f_outcome f \<noteq> OutcomeReleased" by (auto simp: feedback_record_of_def)
    have id': "fb_submission_id r' = i" using act'(2) f by simp
    have "feedback_moves g (set_outcome r' g)" if g: "g \<in> set (p_feedback d)" for g
    proof (cases "f_submission_id g = i")
      case True
      with f g assms(1) have "g = f" by (auto simp: feedback_keys_def distinct_map dest: inj_onD)
      with open' id' True show ?thesis by (simp add: feedback_moves_def set_outcome_def)
    next
      case False
      with id' show ?thesis by (simp add: feedback_moves_def set_outcome_def)
    qed
    with d' Applied show ?thesis by (simp add: list_all2_conv_all_nth)
  qed
qed

section \<open>Slots are exclusive\<close>

definition pending_in :: "string \<Rightarrow> 'm feedback_row list \<Rightarrow> 'm feedback_row list" where
  "pending_in k fs = filter (\<lambda>f. f_slot_key f = Some k \<and> f_outcome f = OutcomePending) fs"

definition slots_exclusive :: "('v, 'm, 'z) plugin_db_scheme \<Rightarrow> bool" where
  "slots_exclusive d \<longleftrightarrow> (\<forall>k. length (pending_in k (p_feedback d)) \<le> 1)"

lemma pending_in_moves:
  "list_all2 feedback_moves fs fs' \<Longrightarrow> length (pending_in k fs') \<le> length (pending_in k fs)"
  by (induction rule: list_all2_induct) (auto simp: pending_in_def feedback_moves_def)

lemma slot_state_free: "snd (slot_state k d) = None \<longleftrightarrow> pending_in k (p_feedback d) = []"
  by (auto simp: slot_state_def pending_in_def Let_def find_None_iff filter_empty_conv)

lemma admission_txn_ok:
  assumes "admission_txn new ad d = Inr (model, d')"
  obtains v revision cid where "h_storage d (ad_guard_key ad) = Some (v, revision)" "v = ad_expected_value ad"
    "revision \<noteq> I64_MAX" "s_contest_id new = Some cid" "model = new\<lparr>s_created_at := db_now d\<rparr>"
    "\<forall>slot. ad_slot ad = Some slot \<longrightarrow> slot_state (st_key slot) d = (st_generation slot, None)"
    "\<forall>e. ad_latest_arrival_ms ad = Some e \<longrightarrow> db_now d < e * 1000"
    "d' = (put_entry (ad_guard_key ad) v d)\<lparr>db_submissions := db_submissions d @ [model],
        p_feedback := p_feedback d @ [\<lparr>f_submission_id = s_id new, f_contest_id = cid, f_user_id = s_user_id new,
           f_state_key = ad_feedback_key ad, f_metadata = ad_metadata ad,
           f_slot_key = map_option st_key (ad_slot ad), f_outcome = OutcomePending, f_public_result = None\<rparr>]\<rparr>"
proof -
  from assms obtain v revision where sv: "h_storage d (ad_guard_key ad) = Some (v, revision)"
    by (auto simp: admission_txn_def split: if_splits option.splits)
  from assms obtain cid where "s_contest_id new = Some cid"
    by (auto simp: admission_txn_def sv split: if_splits option.splits)
  with assms sv that show ?thesis
    by (auto simp: admission_txn_def Let_def split: if_splits option.splits prod.splits)
qed

lemma admission_txn_exclusive:
  assumes "slots_exclusive d" and "admission_txn new ad d = Inr (model, d')"
  shows "slots_exclusive d'"
proof -
  from assms(2) obtain v revision cid row where
    row: "p_feedback d' = p_feedback d @ [row]" "f_slot_key row = map_option st_key (ad_slot ad)"
    and free: "\<forall>slot. ad_slot ad = Some slot \<longrightarrow> slot_state (st_key slot) d = (st_generation slot, None)"
    by (elim admission_txn_ok) auto
  have "pending_in k (p_feedback d) = []" if "f_slot_key row = Some k" for k
    using that row(2) free slot_state_free [of k d] by auto
  with row(1) assms(1) show ?thesis by (auto simp: slots_exclusive_def pending_in_def)
qed

end
