(* ===== verification/BracketDecide.thy ===== *)
theory BracketDecide
  imports BracketModel SubmissionFeedback "HOL-Library.Product_Lexorder"
begin

text \<open>
  The bracket's scoring rules: deciding one game and a whole match (\<open>decide.rs\<close>), the score
  penalties (\<open>feedback.rs\<close>), the problem each player faces (\<open>judge.rs\<close>) and the gate that
  admits a submission (\<open>gate.rs\<close>). All of it is computation on the match document and the
  submissions; the host calls around it are in the theory of the engine.
\<close>

section \<open>Submissions\<close>

record submission_record =
  sr_submission_id :: i32
  sr_user_id :: i32
  sr_problem_id :: i32
  sr_submitted_at_us :: i64
  sr_effective_at_us :: i64
  sr_verdict :: "verdict option"
  sr_status :: submission_lifecycle

definition is_in_flight :: "submission_lifecycle \<Rightarrow> bool" where
  "is_in_flight status \<longleftrightarrow> \<not> (status = Judged \<or> status = CompilationError)"

definition arrival_order :: "submission_record \<Rightarrow> i64 \<times> i32" where
  "arrival_order s = (sr_effective_at_us s, sr_submission_id s)"

definition submission_in_flight :: "submission_record \<Rightarrow> bool" where
  "submission_in_flight s \<longleftrightarrow> is_in_flight (sr_status s) \<or> sr_verdict s = Some SystemError"

definition oldest_in_flight :: "submission_record list \<Rightarrow> i32 option" where
  "oldest_in_flight subs =
    map_option sr_submission_id (min_by_key arrival_order (filter submission_in_flight subs))"

definition PENALTY_VERDICTS :: "verdict list" where
  "PENALTY_VERDICTS = [WrongAnswer, TimeLimitExceeded, MemoryLimitExceeded, RuntimeError]"

definition counts_as_penalty :: "submission_record \<Rightarrow> bool" where
  "counts_as_penalty s \<longleftrightarrow>
     sr_status s = Judged \<and> (case sr_verdict s of Some v \<Rightarrow> v \<in> set PENALTY_VERDICTS | None \<Rightarrow> False)"

definition score_delay_seconds :: "match_state \<Rightarrow> i64 \<Rightarrow> i64 \<Rightarrow> i64" where
  "score_delay_seconds m n penalty_seconds =
    (if (case list_last (m_xiaoju m) of Some game \<Rightarrow> is_regular_game m (x_index game) | None \<Rightarrow> False)
     then saturating_mul_i64 n penalty_seconds else 0)"

definition ac_settlement_at_us :: "match_state \<Rightarrow> submission_record list \<Rightarrow> submission_record \<Rightarrow> i64 \<Rightarrow> i64" where
  "ac_settlement_at_us m subs ac penalty_seconds =
    (let opponent = (if sr_user_id ac = m_player_a m then m_player_b m else m_player_a m);
         penalty_count = int (length (filter (\<lambda>s. sr_user_id s = opponent \<and> counts_as_penalty s \<and>
             (case list_last (m_xiaoju m) of
                Some game \<Rightarrow> contains_submission_at_us game (sr_submitted_at_us s) | None \<Rightarrow> False)) subs));
         delay = score_delay_seconds m penalty_count penalty_seconds
     in saturating_sub_i64 (sr_effective_at_us ac) (saturating_mul_i64 delay 1000000))"

section \<open>Deciding a game\<close>

datatype xiaoju_outcome = GameNotYet | GameDecided "i32 option" | GameAwaitingJudge i32

definition eligible_subs :: "xiaoju_state \<Rightarrow> i64 \<Rightarrow> submission_record list \<Rightarrow> submission_record list" where
  "eligible_subs current cutoff_ms subs =
    filter (\<lambda>s. contains_submission_at_us current (sr_submitted_at_us s) \<and>
                sr_submitted_at_us s < cutoff_ms * 1000) subs"

definition accepted_sub :: "submission_record \<Rightarrow> bool" where
  "accepted_sub s \<longleftrightarrow> \<not> submission_in_flight s \<and>
     (case sr_verdict s of Some v \<Rightarrow> is_accepted v | None \<Rightarrow> False)"

definition settle_game :: "match_state \<Rightarrow> xiaoju_state \<Rightarrow> i32 option \<Rightarrow> i64 \<Rightarrow> xiaoju_outcome \<times> match_state" where
  "settle_game m current winner ended_at_ms =
    (let extra_used = (if is_regular_game m (x_index current)
           then clamp_int 0 (m_extra_time_remaining_ms m)
                  (saturating_sub_i64 ended_at_ms (base_deadline_ms current))
           else 0);
         m1 = m\<lparr>m_extra_time_remaining_ms := wrap_i64 (m_extra_time_remaining_ms m - extra_used),
                m_xiaoju := butlast (m_xiaoju m) @
                  [current\<lparr>x_winner := winner, x_decided := True, x_extra_time_used_ms := extra_used\<rparr>]\<rparr>;
         m2 = (case winner of
                 Some uid \<Rightarrow> if uid = m_player_a m1 then m1\<lparr>m_score_a := wrap_u8 (m_score_a m1 + 1)\<rparr>
                            else if uid = m_player_b m1 then m1\<lparr>m_score_b := wrap_u8 (m_score_b m1 + 1)\<rparr>
                            else m1
               | None \<Rightarrow> m1)
     in (GameDecided winner, m2))"

definition decide_game_at_cutoff ::
  "match_state \<Rightarrow> submission_record list \<Rightarrow> i64 \<Rightarrow> i64 \<Rightarrow> i64 \<Rightarrow> xiaoju_outcome \<times> match_state" where
  "decide_game_at_cutoff m subs now_ms cutoff_ms penalty_seconds =
    (case list_last (m_xiaoju m) of
       None \<Rightarrow> (GameNotYet, m)
     | Some current \<Rightarrow>
         if x_decided current then (GameDecided (x_winner current), m)
         else
           let deadline_ms = x_deadline_ms current;
               eligible = eligible_subs current cutoff_ms subs
           in case min_by_key arrival_order (filter accepted_sub eligible) of
                Some ac \<Rightarrow>
                  if now_ms < cutoff_ms \<and>
                     saturating_mul_i64 now_ms 1000 < ac_settlement_at_us m subs ac penalty_seconds
                  then (GameNotYet, m)
                  else (case min_by_key arrival_order (filter (\<lambda>s. submission_in_flight s \<and>
                                arrival_order s < arrival_order ac) eligible) of
                          Some blocker \<Rightarrow>
                            if now_ms < deadline_ms then (GameNotYet, m)
                            else (GameAwaitingJudge (sr_submission_id blocker), m)
                        | None \<Rightarrow>
                            settle_game m current (Some (sr_user_id ac)) (trunc_div (sr_submitted_at_us ac) 1000))
              | None \<Rightarrow>
                  if now_ms < deadline_ms then (GameNotYet, m)
                  else (case min_by_key arrival_order (filter submission_in_flight eligible) of
                          Some blocker \<Rightarrow> (GameAwaitingJudge (sr_submission_id blocker), m)
                        | None \<Rightarrow> settle_game m current None deadline_ms))"

definition decide_xiaoju ::
  "match_state \<Rightarrow> submission_record list \<Rightarrow> i64 \<Rightarrow> i64 \<Rightarrow> xiaoju_outcome \<times> match_state" where
  "decide_xiaoju m subs now_ms penalty_seconds =
    (let cutoff_ms = (case list_last (m_xiaoju m) of Some game \<Rightarrow> x_deadline_ms game | None \<Rightarrow> now_ms)
     in decide_game_at_cutoff m subs now_ms cutoff_ms penalty_seconds)"

section \<open>Deciding a match\<close>

datatype match_outcome = MatchNotYet | MatchDecided i32 | OpenTiebreak i32 | MatchNeedsAdjudication

definition needs_staff :: "adjudication_reason \<Rightarrow> match_state \<Rightarrow> match_outcome \<times> match_state" where
  "needs_staff reason m =
    (MatchNeedsAdjudication, m\<lparr>m_state := NeedsAdjudicationPhase, m_adjudication_reason := Some reason\<rparr>)"

definition match_won :: "i32 \<Rightarrow> match_state \<Rightarrow> match_outcome \<times> match_state" where
  "match_won winner m = (MatchDecided winner, m\<lparr>m_state := DecidedPhase, m_winner := Some winner\<rparr>)"

definition decide_tiebreak :: "round_def \<Rightarrow> match_state \<Rightarrow> match_outcome \<times> match_state" where
  "decide_tiebreak rdef m =
    (case list_last (m_xiaoju m) of
       None \<Rightarrow> (MatchNotYet, m)
     | Some current \<Rightarrow>
         if \<not> x_decided current then (MatchNotYet, m)
         else (case x_winner current of
                 Some winner \<Rightarrow> match_won winner m
               | None \<Rightarrow>
                   let next_index = m_tiebreak_index m + 1 in
                   (case list_get (rd_tiebreak rdef) next_index of
                      Some problem \<Rightarrow> (OpenTiebreak problem, m\<lparr>m_tiebreak_index := next_index\<rparr>)
                    | None \<Rightarrow> needs_staff TiebreakExhausted m)))"

definition decide_match :: "match_state \<Rightarrow> bracket_setup \<Rightarrow> match_outcome \<times> match_state" where
  "decide_match m su =
    (if m_state m = DecidedPhase then
       (MatchDecided (case m_winner m of Some w \<Rightarrow> w | None \<Rightarrow> m_player_a m), m)
     else if m_state m = NeedsAdjudicationPhase then (MatchNeedsAdjudication, m)
     else case round_for_match su (m_round m) (m_pos m) of
       None \<Rightarrow> needs_staff SetupMissing m
     | Some rdef \<Rightarrow>
         if m_state m = TiebreakPhase then decide_tiebreak rdef m
         else if m_xiaoju m = [] \<or> (\<exists>x \<in> set (m_xiaoju m). \<not> x_decided x) then (MatchNotYet, m)
         else if \<not> max (m_score_a m) (m_score_b m) \<ge> win_target rdef \<and>
                 length (m_xiaoju m) < length (m_group_a m) then (MatchNotYet, m)
         else if m_score_a m > m_score_b m then match_won (m_player_a m) m
         else if m_score_a m < m_score_b m then match_won (m_player_b m) m
         else (case list_get (rd_tiebreak rdef) 0 of
                 Some problem \<Rightarrow> (OpenTiebreak problem, m\<lparr>m_state := TiebreakPhase, m_tiebreak_index := 0\<rparr>)
               | None \<Rightarrow> needs_staff TiebreakExhausted m))"

section \<open>The problem a player faces\<close>

definition current_regular_problem :: "match_state \<Rightarrow> i32 \<Rightarrow> i32 option" where
  "current_regular_problem m player =
    (let problem_at = (\<lambda>order. Option.bind (list_last (m_xiaoju m)) (\<lambda>x.
           Option.bind order (\<lambda>o'. list_get o' (x_index x)))) in
     if player = m_player_a m then problem_at (m_order_a m)
     else if player = m_player_b m then problem_at (m_order_b m)
     else None)"

definition current_problem :: "match_state \<Rightarrow> round_def \<Rightarrow> i32 \<Rightarrow> i32 option" where
  "current_problem m rdef player =
    (case m_state m of
       TiebreakPhase \<Rightarrow> list_get (rd_tiebreak rdef) (m_tiebreak_index m)
     | InProgressPhase \<Rightarrow> current_regular_problem m player
     | AwaitingJudgePhase \<Rightarrow>
         Option.bind (list_last (m_xiaoju m)) (\<lambda>x.
           if is_regular_game m (x_index x) then current_regular_problem m player
           else list_get (rd_tiebreak rdef) (m_tiebreak_index m))
     | _ \<Rightarrow> None)"

section \<open>The gate\<close>

record gate_ctx =
  g_player_a :: i32
  g_player_b :: i32
  g_order_a :: "i32 list option"
  g_order_b :: "i32 list option"
  g_state :: match_phase
  g_current_xiaoju_index :: "u8 option"
  g_current_xiaoju_decided :: bool
  g_tiebreak_problem :: "i32 option"

record rejection =
  rej_code :: string
  rej_message :: rstr

definition not_your_problem :: rejection where
  "not_your_problem = \<lparr>rej_code = ''NOT_YOUR_PROBLEM'',
     rej_message = lit ''This is not your current problem in this '' @ [23567, 23616] @ lit ''.''\<rparr>"

definition xiaoju_closed :: rejection where
  "xiaoju_closed = \<lparr>rej_code = ''XIAOJU_CLOSED'', rej_message = lit ''This game is closed for submissions.''\<rparr>"

definition not_in_match :: rejection where
  "not_in_match = \<lparr>rej_code = ''NOT_IN_MATCH'',
     rej_message = lit ''You are not a participant in a match for this problem.''\<rparr>"

definition match_not_started :: rejection where
  "match_not_started = \<lparr>rej_code = ''MATCH_NOT_STARTED'',
     rej_message = lit ''This match is not currently accepting submissions.''\<rparr>"

definition gate_check :: "gate_ctx \<Rightarrow> i32 \<Rightarrow> i32 \<Rightarrow> rejection + unit" where
  "gate_check ctx viewer problem_id =
    (let expected = (case g_state ctx of
           TiebreakPhase \<Rightarrow> g_tiebreak_problem ctx
         | InProgressPhase \<Rightarrow>
             (case (if viewer = g_player_a ctx then g_order_a ctx
                    else if viewer = g_player_b ctx then g_order_b ctx else None) of
                Some order \<Rightarrow> (case g_current_xiaoju_index ctx of
                                 Some index \<Rightarrow> list_get order index | None \<Rightarrow> None)
              | None \<Rightarrow> None)
         | _ \<Rightarrow> None)
     in if expected \<noteq> Some problem_id then Inl not_your_problem
        else if g_current_xiaoju_decided ctx then Inl xiaoju_closed
        else Inr ())"

definition gate_ctx_from_match :: "match_state \<Rightarrow> round_def \<Rightarrow> gate_ctx" where
  "gate_ctx_from_match m rdef =
    (let current = list_last (m_xiaoju m) in
     \<lparr>g_player_a = m_player_a m, g_player_b = m_player_b m, g_order_a = m_order_a m, g_order_b = m_order_b m,
      g_state = m_state m, g_current_xiaoju_index = map_option x_index current,
      g_current_xiaoju_decided = (case current of Some x \<Rightarrow> x_decided x | None \<Rightarrow> False),
      g_tiebreak_problem = list_get (rd_tiebreak rdef) (m_tiebreak_index m)\<rparr>)"

end
