(* ===== verification/BracketHost.thy ===== *)
theory BracketHost
  imports BracketDecide
begin

text \<open>
  The host side of the bracket plugin: the keys of its documents and timers with the parsers
  that route a fired timer (\<open>storage.rs\<close>, \<open>judge.rs\<close>), the clock, reading documents and
  submissions, opening a game, publishing feedback, and one transition of a match
  (\<open>judge.rs::step\<close>). A stored value is one of the plugin's documents; reading a document of
  another kind is the deserialization error. Every update of a match goes through the
  compare-and-set loop, with the interference \<open>itf\<close> of other writers between its read and its
  write.
\<close>

section \<open>Documents and the world\<close>

datatype bdoc = SetupDoc bracket_setup | MatchDoc match_state | TextDoc string

record admission_metadata =
  am_scope_key :: string
  am_delay_seconds :: i64
  am_effective_at_us :: "i64 option"

type_synonym 'z bworld = "(bdoc, admission_metadata, 'z) plugin_db_scheme"
type_synonym ('z, 'a) bcall = "('z bworld, sdk_error, 'a) call"
type_synonym 'z interference = "nat \<Rightarrow> 'z bworld \<Rightarrow> 'z bworld"

definition wrong_document :: sdk_error where
  "wrong_document = Serialization (lit ''invalid document'')"

definition dec_setup :: "bdoc \<Rightarrow> sdk_error + bracket_setup" where
  "dec_setup v = (case v of SetupDoc s \<Rightarrow> Inr s | _ \<Rightarrow> Inl wrong_document)"

definition dec_match :: "bdoc \<Rightarrow> sdk_error + match_state" where
  "dec_match v = (case v of MatchDoc m \<Rightarrow> Inr m | _ \<Rightarrow> Inl wrong_document)"

section \<open>Keys\<close>

definition setup_key :: "i32 \<Rightarrow> string" where
  "setup_key contest = ''setup:'' @ show_int contest"

definition slot_key :: "i32 \<Rightarrow> u8 \<Rightarrow> u8 \<Rightarrow> string" where
  "slot_key contest rnd pos = ''slot:'' @ show_int contest @ '':'' @ show_nat rnd @ '':'' @ show_nat pos"

definition match_prefix :: "i32 \<Rightarrow> string" where
  "match_prefix contest = ''match:'' @ show_int contest @ '':''"

definition match_key :: "i32 \<Rightarrow> u8 \<Rightarrow> string" where
  "match_key contest mid = match_prefix contest @ show_nat mid"

definition xiaoju_timer_key :: "i32 \<Rightarrow> u8 \<Rightarrow> u8 \<Rightarrow> string" where
  "xiaoju_timer_key contest mid index =
    ''xiaoju:'' @ show_int contest @ '':'' @ show_nat mid @ '':'' @ show_nat index"

definition effective_timer_key :: "i32 \<Rightarrow> u8 \<Rightarrow> u8 \<Rightarrow> i32 \<Rightarrow> string" where
  "effective_timer_key contest mid index submission =
    xiaoju_timer_key contest mid index @ '':effective:'' @ show_int submission"

definition settlement_timer_key :: "i32 \<Rightarrow> u8 \<Rightarrow> u8 \<Rightarrow> submission_record \<Rightarrow> i64 \<Rightarrow> string" where
  "settlement_timer_key contest mid index sub at_us =
    (let key = effective_timer_key contest mid index (sr_submission_id sub) in
     if at_us = sr_effective_at_us sub then key else key @ '':at:'' @ show_int at_us)"

definition judgewait_timer_key :: "i32 \<Rightarrow> u8 \<Rightarrow> u8 \<Rightarrow> string" where
  "judgewait_timer_key contest mid index =
    ''judgewait:'' @ show_int contest @ '':'' @ show_nat mid @ '':'' @ show_nat index"

definition start_timer_key :: "i32 \<Rightarrow> u8 \<Rightarrow> string" where
  "start_timer_key contest mid = ''start:'' @ show_int contest @ '':'' @ show_nat mid"

definition stage_timer_key :: "i32 \<Rightarrow> u8 \<Rightarrow> string" where
  "stage_timer_key contest rnd = ''stage:'' @ show_int contest @ '':'' @ show_nat rnd"

definition game_scope :: "i32 \<Rightarrow> u8 \<Rightarrow> u8 \<Rightarrow> string" where
  "game_scope contest mid index =
    ''game:'' @ show_int contest @ '':'' @ show_nat mid @ '':'' @ show_nat index"

definition player_slot :: "i32 \<Rightarrow> i32 \<Rightarrow> string" where
  "player_slot contest user = show_int contest @ '':'' @ show_int user"

definition two_ids :: "string \<Rightarrow> string \<Rightarrow> (i32 \<times> u8) option" where
  "two_ids a b = Option.bind (parse_i32 a) (\<lambda>c. Option.bind (parse_u8 b) (\<lambda>i. Some (c, i)))"

definition parse_indexed_key :: "string \<Rightarrow> string \<Rightarrow> (i32 \<times> u8) option" where
  "parse_indexed_key tag key =
    (case split_on CHR '':'' key of
       t # a # b # _ # _ \<Rightarrow> if t = tag then two_ids a b else None
     | _ \<Rightarrow> None)"

definition parse_xiaoju_timer_key :: "string \<Rightarrow> (i32 \<times> u8) option" where
  "parse_xiaoju_timer_key key = parse_indexed_key ''xiaoju'' key"

definition parse_judgewait_timer_key :: "string \<Rightarrow> (i32 \<times> u8) option" where
  "parse_judgewait_timer_key key = parse_indexed_key ''judgewait'' key"

definition parse_start_timer_key :: "string \<Rightarrow> (i32 \<times> u8) option" where
  "parse_start_timer_key key =
    (case split_on CHR '':'' key of
       [t, a, b] \<Rightarrow> if t = ''start'' then two_ids a b else None
     | _ \<Rightarrow> None)"

definition parse_stage_timer_key :: "string \<Rightarrow> (i32 \<times> u8) option" where
  "parse_stage_timer_key key =
    (case split_on CHR '':'' key of
       [t, a, b] \<Rightarrow> if t = ''stage'' then two_ids a b else None
     | [t, a, b, at_ms] \<Rightarrow> if t = ''stage'' \<and> parse_i64 at_ms \<noteq> None then two_ids a b else None
     | _ \<Rightarrow> None)"

section \<open>Reading documents\<close>

definition load_match :: "i32 \<Rightarrow> u8 \<Rightarrow> ('z, match_state option) bcall" where
  "load_match contest mid =
    hbind (storage_get_one (match_key contest mid)) (\<lambda>raw.
      case raw of
        None \<Rightarrow> hret None
      | Some v \<Rightarrow> (case dec_match v of Inl e \<Rightarrow> hthrow e | Inr m \<Rightarrow> hret (Some m)))"

definition load_setup :: "i32 \<Rightarrow> ('z, bracket_setup option) bcall" where
  "load_setup contest =
    hbind (storage_get_one (setup_key contest)) (\<lambda>raw.
      case raw of
        None \<Rightarrow> hret None
      | Some v \<Rightarrow> (case dec_setup v of Inl e \<Rightarrow> hthrow e | Inr s \<Rightarrow> hret (Some s)))"

definition visit_match :: "string \<Rightarrow> string \<times> bdoc \<Rightarrow> sdk_error + (u8 \<times> match_state)" where
  "visit_match prefix kv =
    (case parse_u8 (drop (length prefix) (fst kv)) of
       None \<Rightarrow> Inl (OtherError ''Invalid match key'')
     | Some mid \<Rightarrow> (case dec_match (snd kv) of Inl e \<Rightarrow> Inl e | Inr m \<Rightarrow> Inr (mid, m)))"

fun visit_all :: "('a \<Rightarrow> 'e + 'b) \<Rightarrow> 'a list \<Rightarrow> 'e + 'b list" where
  "visit_all f [] = Inr []"
| "visit_all f (x # xs) =
     (case f x of Inl e \<Rightarrow> Inl e
      | Inr y \<Rightarrow> (case visit_all f xs of Inl e \<Rightarrow> Inl e | Inr ys \<Rightarrow> Inr (y # ys)))"

text \<open>
  \<open>scan_documents\<close> reads pages until one is empty; every page that is not empty moves past at
  least one entry, so one round per entry and one more suffice.
\<close>

fun scan_loop :: "nat \<Rightarrow> string \<Rightarrow> string option \<Rightarrow> (u8 \<times> match_state) list \<Rightarrow>
    ('z, (u8 \<times> match_state) list) bcall" where
  "scan_loop 0 prefix after acc = hthrow (OtherError ''scan did not end'')"
| "scan_loop (Suc n) prefix after acc =
     hbind (storage_scan prefix after) (\<lambda>page.
       if page = [] then hret acc
       else case visit_all (visit_match prefix) page of
              Inl e \<Rightarrow> hthrow e
            | Inr ms \<Rightarrow> scan_loop n prefix (max_by_key char_codes (map fst page)) (acc @ ms))"

definition load_all_matches :: "i32 \<Rightarrow> ('z, (u8 \<times> match_state) list) bcall" where
  "load_all_matches contest d =
    hbind (scan_loop (Suc (length (h_entries d))) (match_prefix contest) None [])
      (\<lambda>ms. hret (sort_key fst ms)) d"

definition update_match ::
  "'z interference \<Rightarrow> i32 \<Rightarrow> u8 \<Rightarrow> (match_state \<Rightarrow> ('z, match_state) bcall) \<Rightarrow> ('z, match_state) bcall" where
  "update_match itf contest mid f =
    storage_modify itf dec_match MatchDoc match_default (match_key contest mid) f"

section \<open>The clock\<close>

record contest_times =
  tt_start_ms :: i64
  tt_end_ms :: "i64 option"

definition epoch_ms :: "i64 \<Rightarrow> i64" where
  "epoch_ms t = f64_as_i64 (F64 (of_int t / 1000))"

definition contest_times_of :: "i32 \<Rightarrow> ('z, contest_times) bcall" where
  "contest_times_of contest =
    hbind (db_query (find_contest contest)) (\<lambda>row.
      case row of
        Some c \<Rightarrow> hret \<lparr>tt_start_ms = epoch_ms (ct_start_time c), tt_end_ms = Some (epoch_ms (ct_end_time c))\<rparr>
      | None \<Rightarrow> hthrow (OtherError ''contest not found''))"

definition now_ms :: "('z, i64) bcall" where
  "now_ms = db_query (\<lambda>d. epoch_ms (db_now d))"

record bclock =
  ck_now :: i64
  ck_contest_end :: "i64 option"

definition contest_ended :: "bclock \<Rightarrow> bool" where
  "contest_ended ck = (case ck_contest_end ck of Some e \<Rightarrow> ck_now ck \<ge> e | None \<Rightarrow> False)"

definition clock_cutoff :: "bclock \<Rightarrow> i64 \<Rightarrow> i64" where
  "clock_cutoff ck deadline_ms = (case ck_contest_end ck of Some e \<Rightarrow> min deadline_ms e | None \<Rightarrow> deadline_ms)"

definition read_clock :: "i32 \<Rightarrow> ('z, bclock) bcall" where
  "read_clock contest =
    db_query (\<lambda>d. \<lparr>ck_now = epoch_ms (db_now d),
                   ck_contest_end = map_option (\<lambda>c. epoch_ms (ct_end_time c)) (find_contest contest d)\<rparr>)"

section \<open>Submissions of the open game\<close>

definition effective_time :: "admission_metadata feedback_record \<Rightarrow> i64" where
  "effective_time row =
    (case am_effective_at_us (fb_metadata row) of
       Some e \<Rightarrow> e
     | None \<Rightarrow> saturating_add_i64 (fb_submitted_at_us row)
                (saturating_mul_i64 (am_delay_seconds (fb_metadata row)) 1000000))"

definition opened_at :: "match_state \<Rightarrow> i64" where
  "opened_at m = (case list_last (m_xiaoju m) of Some g \<Rightarrow> x_opened_at_ms g | None \<Rightarrow> 0)"

definition game_rows :: "i32 \<Rightarrow> match_state \<Rightarrow> i32 option \<Rightarrow> i32 option \<Rightarrow> 'z bworld \<Rightarrow> submission_row list" where
  "game_rows contest m prob_a prob_b d =
    filter (\<lambda>s. s_contest_id s = Some contest \<and>
        ((s_user_id s = m_player_a m \<and> Some (s_problem_id s) = prob_a) \<or>
         (s_user_id s = m_player_b m \<and> Some (s_problem_id s) = prob_b)) \<and>
        s_created_at s \<ge> opened_at m * 1000) (db_submissions d)"

definition sub_record :: "(i32 \<times> i64) list \<Rightarrow> submission_row \<Rightarrow> submission_record" where
  "sub_record effective s =
    \<lparr>sr_submission_id = s_id s, sr_user_id = s_user_id s, sr_problem_id = s_problem_id s,
     sr_submitted_at_us = s_created_at s,
     sr_effective_at_us = (case map_of effective (s_id s) of Some e \<Rightarrow> e | None \<Rightarrow> s_created_at s),
     sr_verdict = map_option verdict_deserialize (c_verdict (s_cols s)),
     sr_status = c_status (s_cols s)\<rparr>"

definition fetch_subs :: "i32 \<Rightarrow> match_state \<Rightarrow> round_def \<Rightarrow> ('z, submission_record list) bcall" where
  "fetch_subs contest m rdef =
    (let prob_a = current_problem m rdef (m_player_a m);
         prob_b = current_problem m rdef (m_player_b m)
     in if prob_a = None \<and> prob_b = None then hret []
        else hbind (db_query (game_rows contest m prob_a prob_b)) (\<lambda>rows.
          hbind (feedback_all (feedback_query_default\<lparr>q_submission_ids := Some (map s_id rows)\<rparr>)) (\<lambda>fbs.
            hret (filter (\<lambda>s. case list_last (m_xiaoju m) of
                Some game \<Rightarrow> contains_submission_at_us game (sr_submitted_at_us s) | None \<Rightarrow> False)
              (map (sub_record (map (\<lambda>r. (fb_submission_id r, effective_time r)) fbs)) rows)))))"

section \<open>Opening a game\<close>

definition or_throw :: "string \<Rightarrow> 'a option \<Rightarrow> ('z, 'a) bcall" where
  "or_throw msg x = (case x of Some v \<Rightarrow> hret v | None \<Rightarrow> hthrow (OtherError msg))"

text \<open>The document with the new game, its deadline and its index, or the error of the arithmetic.\<close>

definition pin_extra_time :: "bracket_setup \<Rightarrow> round_def \<Rightarrow> match_state \<Rightarrow> string + match_state" where
  "pin_extra_time su rdef m =
    (if m_xiaoju m \<noteq> [] then Inr m
     else
       let extra = (case rd_match_extra_time_seconds rdef of
                      Some e \<Rightarrow> e | None \<Rightarrow> su_match_extra_time_seconds su)
       in case checked_mul_i64 extra 1000 of
            None \<Rightarrow> Inl ''Extra time is too large''
          | Some ms \<Rightarrow> Inr (m\<lparr>m_match_extra_time_seconds := extra, m_extra_time_remaining_ms := ms\<rparr>))"

definition pin_durations :: "round_def \<Rightarrow> match_state \<Rightarrow> game_durations" where
  "pin_durations rdef m = (case m_game_durations m of Some g \<Rightarrow> g | None \<Rightarrow> game_durations_of rdef)"

definition new_game :: "u8 \<Rightarrow> i64 \<Rightarrow> i64 \<Rightarrow> i64 \<Rightarrow> xiaoju_state" where
  "new_game index now base deadline =
    \<lparr>x_index = index, x_opened_at_ms = now, x_base_deadline_ms = Some base, x_deadline_ms = deadline,
     x_extra_time_used_ms = 0, x_winner = None, x_decided = False\<rparr>"

definition add_game :: "game_durations \<Rightarrow> xiaoju_state \<Rightarrow> match_state \<Rightarrow> match_state" where
  "add_game durations x m = m\<lparr>m_game_durations := Some durations, m_xiaoju := m_xiaoju m @ [x]\<rparr>"

definition push_game :: "round_def \<Rightarrow> i64 \<Rightarrow> match_state \<Rightarrow> string + match_state \<times> i64 \<times> u8" where
  "push_game rdef now m =
    (let durations = pin_durations rdef m;
         index = wrap_u8 (length (m_xiaoju m));
         regular = is_regular_game m index;
         seconds = (if regular then gd_xiaoju_seconds durations else gd_tiebreak_seconds durations)
     in case checked_mul_i64 seconds 1000 of
          None \<Rightarrow> Inl ''game duration overflow''
        | Some ms \<Rightarrow>
     (case checked_add_i64 now ms of
          None \<Rightarrow> Inl ''game deadline overflow''
        | Some base \<Rightarrow>
     (case checked_add_i64 base (if regular then m_extra_time_remaining_ms m else 0) of
          None \<Rightarrow> Inl ''Game deadline is too large''
        | Some deadline \<Rightarrow>
            Inr (add_game durations (new_game index now base deadline) m, deadline, index))))"

definition open_game_doc :: "bracket_setup \<Rightarrow> i64 \<Rightarrow> match_state \<Rightarrow> string + match_state \<times> i64 \<times> u8" where
  "open_game_doc su now m =
    (case round_for_match su (m_round m) (m_pos m) of
       None \<Rightarrow> Inl ''round setup missing''
     | Some rdef \<Rightarrow>
         (case pin_extra_time su rdef m of Inl e \<Rightarrow> Inl e | Inr m1 \<Rightarrow> push_game rdef now m1))"

definition open_xiaoju_at ::
  "i32 \<Rightarrow> u8 \<Rightarrow> bracket_setup \<Rightarrow> bclock \<Rightarrow> i64 \<Rightarrow> match_state \<Rightarrow> ('z, match_state) bcall" where
  "open_xiaoju_at contest mid su ck now m =
    (case open_game_doc su now m of
       Inl e \<Rightarrow> hthrow (OtherError e)
     | Inr (m', deadline, index) \<Rightarrow>
         hbind (timer_schedule (clock_cutoff ck deadline) (xiaoju_timer_key contest mid index) []) (\<lambda>_. hret m'))"

definition open_xiaoju ::
  "i32 \<Rightarrow> u8 \<Rightarrow> bracket_setup \<Rightarrow> bclock \<Rightarrow> match_state \<Rightarrow> ('z, match_state) bcall" where
  "open_xiaoju contest mid su ck m = open_xiaoju_at contest mid su ck (ck_now ck) m"

section \<open>One transition of a match\<close>

definition schedule_wakeups ::
  "i32 \<Rightarrow> u8 \<Rightarrow> match_state \<Rightarrow> xiaoju_state \<Rightarrow> bclock \<Rightarrow> submission_record list \<Rightarrow> i64 \<Rightarrow> ('z, unit) bcall" where
  "schedule_wakeups contest mid m current ck subs penalty_seconds =
    (let cutoff = clock_cutoff ck (x_deadline_ms current) in
     hbind (timer_schedule cutoff (xiaoju_timer_key contest mid (x_index current)) []) (\<lambda>_.
       hmapM (\<lambda>sub.
           let at_us = ac_settlement_at_us m subs sub penalty_seconds;
               at_ms = trunc_div (saturating_add_i64 at_us 999) 1000
           in if at_ms > ck_now ck \<and> at_us \<le> saturating_mul_i64 cutoff 1000
              then timer_schedule at_ms (settlement_timer_key contest mid (x_index current) sub at_us) []
              else hret ())
         (filter (\<lambda>s. contains_submission_at_us current (sr_submitted_at_us s) \<and>
              sr_submitted_at_us s < saturating_mul_i64 cutoff 1000 \<and> accepted_sub s) subs)))"

definition escalate_contest_ended :: "i32 \<Rightarrow> u8 \<Rightarrow> u8 \<Rightarrow> match_state \<Rightarrow> ('z, match_state) bcall" where
  "escalate_contest_ended contest mid index m =
    hbind (timer_cancel (judgewait_timer_key contest mid index)) (\<lambda>_.
      hret (m\<lparr>m_state := NeedsAdjudicationPhase, m_adjudication_reason := Some ContestEnded,
              m_awaiting_submission_id := None\<rparr>))"

definition step_intermission :: "i32 \<Rightarrow> u8 \<Rightarrow> bracket_setup \<Rightarrow> match_state \<Rightarrow> ('z, match_state) bcall" where
  "step_intermission contest mid su m =
    hbind (read_clock contest) (\<lambda>ck.
      if contest_ended ck then
        hret (m\<lparr>m_state := NeedsAdjudicationPhase, m_adjudication_reason := Some ContestEnded,
                m_next_game_at_ms := None\<rparr>)
      else hbind (or_throw ''Missing intermission deadline'' (m_next_game_at_ms m)) (\<lambda>at_ms.
        if ck_now ck < at_ms then
          hbind (timer_schedule at_ms (start_timer_key contest mid) []) (\<lambda>_. hret m)
        else open_xiaoju_at contest mid su ck at_ms
          (m\<lparr>m_state := (if is_regular_game m (wrap_u8 (length (m_xiaoju m))) then InProgressPhase else TiebreakPhase),
             m_next_game_at_ms := None\<rparr>)))"

definition step_awaiting ::
  "i32 \<Rightarrow> u8 \<Rightarrow> bracket_setup \<Rightarrow> u8 \<Rightarrow> i64 \<Rightarrow> i32 \<Rightarrow> match_state \<Rightarrow> ('z, match_state) bcall" where
  "step_awaiting contest mid su index now blocking m =
    (let m' = m\<lparr>m_state := AwaitingJudgePhase, m_awaiting_submission_id := Some blocking\<rparr> in
     if m_state m \<noteq> AwaitingJudgePhase then
       hbind (or_throw ''judge wait duration overflow'' (checked_mul_i64 (su_escalation_grace_seconds su) 1000)) (\<lambda>g.
       hbind (or_throw ''judge wait deadline overflow'' (checked_add_i64 now g)) (\<lambda>at_ms.
       hbind (timer_schedule at_ms (judgewait_timer_key contest mid index) []) (\<lambda>_. hret m')))
     else hret m')"

definition resume_phase :: "u8 \<Rightarrow> match_state \<Rightarrow> match_state" where
  "resume_phase index m =
    (if m_state m = AwaitingJudgePhase then
       m\<lparr>m_awaiting_submission_id := None,
         m_state := (if is_regular_game m index then InProgressPhase else TiebreakPhase)\<rparr>
     else m)"

definition step_decided ::
  "i32 \<Rightarrow> u8 \<Rightarrow> bracket_setup \<Rightarrow> round_def \<Rightarrow> u8 \<Rightarrow> bclock \<Rightarrow> match_state \<Rightarrow> ('z, match_state) bcall" where
  "step_decided contest mid su rdef index ck m0 =
    (let (outcome, m) = decide_match (resume_phase index m0) su;
         continue' =
           (if contest_ended ck then escalate_contest_ended contest mid index m
            else if game_break rdef = 0 then open_xiaoju contest mid su ck m
            else hbind (or_throw ''Intermission deadline overflow''
                     (Option.bind (checked_mul_i64 (game_break rdef) 1000) (\<lambda>dur. checked_add_i64 (ck_now ck) dur)))
                   (\<lambda>at_ms. hbind (timer_schedule at_ms (start_timer_key contest mid) []) (\<lambda>_.
                      hret (m\<lparr>m_state := IntermissionPhase, m_next_game_at_ms := Some at_ms\<rparr>))))
     in case outcome of
          MatchNotYet \<Rightarrow> continue'
        | OpenTiebreak _ \<Rightarrow> continue'
        | MatchDecided _ \<Rightarrow> hret (m\<lparr>m_decided_at_ms := ck_now ck\<rparr>)
        | MatchNeedsAdjudication \<Rightarrow> hret m)"

definition step_game ::
  "i32 \<Rightarrow> u8 \<Rightarrow> bracket_setup \<Rightarrow> round_def \<Rightarrow> xiaoju_state \<Rightarrow> bclock \<Rightarrow> submission_record list \<Rightarrow>
   match_state \<Rightarrow> ('z, match_state) bcall" where
  "step_game contest mid su rdef current ck subs m0 =
    (let (outcome, m) = decide_game_at_cutoff m0 subs (ck_now ck)
            (clock_cutoff ck (x_deadline_ms current)) (su_penalty_seconds su);
         index = x_index current
     in case outcome of
          GameNotYet \<Rightarrow>
            if contest_ended ck then
              (case oldest_in_flight subs of
                 Some blocking \<Rightarrow> step_awaiting contest mid su index (ck_now ck) blocking m
               | None \<Rightarrow> escalate_contest_ended contest mid index m)
            else hbind (schedule_wakeups contest mid m current ck subs (su_penalty_seconds su)) (\<lambda>_. hret m)
        | GameAwaitingJudge blocking \<Rightarrow> step_awaiting contest mid su index (ck_now ck) blocking m
        | GameDecided _ \<Rightarrow> step_decided contest mid su rdef index ck m)"

definition step :: "i32 \<Rightarrow> u8 \<Rightarrow> bracket_setup \<Rightarrow> match_state \<Rightarrow> ('z, match_state) bcall" where
  "step contest mid su m =
    (if m_state m = IntermissionPhase then step_intermission contest mid su m
     else if m_state m \<notin> {InProgressPhase, TiebreakPhase, AwaitingJudgePhase} then hret m
     else case list_last (m_xiaoju m) of
       None \<Rightarrow> hret m
     | Some current \<Rightarrow>
         (case round_for_match su (m_round m) (m_pos m) of
            None \<Rightarrow> hret (snd (decide_match m su))
          | Some rdef \<Rightarrow>
              hbind (read_clock contest) (\<lambda>ck.
              hbind (fetch_subs contest m rdef) (\<lambda>subs.
                step_game contest mid su rdef current ck subs m))))"

section \<open>Publishing feedback\<close>

definition publish_row ::
  "i32 \<Rightarrow> u8 \<Rightarrow> match_state \<Rightarrow> admission_metadata feedback_record \<Rightarrow> ('z, unit) bcall" where
  "publish_row contest mid m row =
    (let game = List.find (\<lambda>g. game_scope contest mid (x_index g) = am_scope_key (fb_metadata row)) (m_xiaoju m);
         rec = \<lparr>sr_submission_id = fb_submission_id row, sr_user_id = fb_user_id row,
                sr_problem_id = fb_problem_id row, sr_submitted_at_us = fb_submitted_at_us row,
                sr_effective_at_us = effective_time row, sr_verdict = fb_verdict row, sr_status = fb_status row\<rparr>;
         accepted = (case fb_verdict row of Some v \<Rightarrow> is_accepted v | None \<Rightarrow> False);
         losing =
           (if \<not> accepted then Some False
            else case game of
                   Some g \<Rightarrow> if x_decided g then Some (x_winner g \<noteq> Some (fb_user_id row))
                             else if m_state m = DecidedPhase then Some (m_winner m \<noteq> Some (fb_user_id row)) else None
                 | None \<Rightarrow> if m_state m = DecidedPhase then Some (m_winner m \<noteq> Some (fb_user_id row)) else None)
     in if submission_in_flight rec then
          (if m_state m \<noteq> DecidedPhase then hret ()
           else hbind (release_slot (fb_submission_id row)) (\<lambda>_. hret ()))
        else case losing of
               None \<Rightarrow> hret ()
             | Some losing_ac \<Rightarrow>
                 hbind (release_feedback (fb_submission_id row)
                    (if losing_ac then Override (Other (lit ''TooLate'')) f64_zero else Original)) (\<lambda>_. hret ()))"

definition completed_timer ::
  "i32 \<Rightarrow> u8 \<Rightarrow> match_state \<Rightarrow> admission_metadata feedback_record \<Rightarrow> string option" where
  "completed_timer contest mid m row =
    (case List.find (\<lambda>g. game_scope contest mid (x_index g) = am_scope_key (fb_metadata row)) (m_xiaoju m) of
       Some g \<Rightarrow> if m_state m = DecidedPhase \<or> x_decided g
                 then Some (effective_timer_key contest mid (x_index g) (fb_submission_id row)) else None
     | None \<Rightarrow> None)"

definition publish :: "i32 \<Rightarrow> u8 \<Rightarrow> match_state \<Rightarrow> ('z, string list) bcall" where
  "publish contest mid m =
    hbind (feedback_all (feedback_query_default\<lparr>q_key := Some (match_key contest mid), q_unpublished_only := True\<rparr>))
      (\<lambda>rows. hbind (hmapM (publish_row contest mid m) rows) (\<lambda>_.
         hret (List.map_filter (completed_timer contest mid m) rows)))"

end
