(* ===== verification/BracketEngine.thy ===== *)
theory BracketEngine
  imports BracketHost
begin

text \<open>
  What drives the bracket (\<open>judge.rs\<close>, \<open>stages.rs\<close>, \<open>storage.rs\<close>, \<open>gate.rs\<close>, \<open>ordering.rs\<close>): the
  creation of matches and the opening of stages, \<open>advance\<close> with its post-commit work, the staff
  override, the escalation, the timer handler, the admission gate and the ranking handler.
  \<open>advance\<close> may open the next stage, opening a stage may start its matches, and starting a match
  may advance it; the nesting grows with the round, so the function that opens a stage takes
  the number of nested openings it may still make.
\<close>

section \<open>Creating matches\<close>

definition parse_slot :: "string \<Rightarrow> bdoc \<Rightarrow> ('z, i32) bcall" where
  "parse_slot key v =
    (case v of
       TextDoc t \<Rightarrow> or_throw (''slot '' @ key @ '' holds a non-integer player id'') (parse_i32 t)
     | _ \<Rightarrow> hthrow (OtherError (''slot '' @ key @ '' holds a non-integer player id'')))"

definition match_players :: "i32 \<Rightarrow> bracket_setup \<Rightarrow> u8 \<Rightarrow> u8 \<Rightarrow> ('z, (i32 \<times> i32) option) bcall" where
  "match_players contest su rnd pos =
    (if rnd = 1 then
       (if pos * 2 + 2 \<le> length (su_seeds su)
        then hret (Some (su_seeds su ! (pos * 2), su_seeds su ! (pos * 2 + 1)))
        else hthrow (OtherError ''Invalid first-stage position''))
     else
       let key_a = slot_key contest rnd (wrap_u8 (pos * 2));
           key_b = slot_key contest rnd (wrap_u8 (wrap_u8 (pos * 2) + 1))
       in hbind (storage_get [key_a, key_b]) (\<lambda>raw.
            case (raw key_a, raw key_b) of
              (Some a, Some b) \<Rightarrow>
                hbind (parse_slot key_a a) (\<lambda>player_a. hbind (parse_slot key_b b) (\<lambda>player_b.
                  hret (Some (player_a, player_b))))
            | _ \<Rightarrow> hret None))"

definition new_match :: "round_def \<Rightarrow> u8 \<Rightarrow> u8 \<Rightarrow> i32 \<Rightarrow> i32 \<Rightarrow> match_state" where
  "new_match rdef rnd pos player_a player_b =
    match_default\<lparr>m_round := rnd, m_pos := pos, m_player_a := player_a, m_player_b := player_b,
                  m_group_a := rd_group_a rdef, m_group_b := rd_group_b rdef, m_state := OrderingPhase\<rparr>"

definition create_match_if_both_slots_filled ::
  "i32 \<Rightarrow> bracket_setup \<Rightarrow> u8 \<Rightarrow> u8 \<Rightarrow> ('z, unit) bcall" where
  "create_match_if_both_slots_filled contest su rnd pos =
    hbind (match_players contest su rnd pos) (\<lambda>players.
      case players of
        None \<Rightarrow> hret ()
      | Some (player_a, player_b) \<Rightarrow>
          hbind (or_throw (''setup has no RoundDef for round '' @ show_nat rnd) (round_for_match su rnd pos)) (\<lambda>rdef.
          hbind (compare_and_set (match_key contest (match_id_for (player_count su) rnd pos)) None
                   (MatchDoc (new_match rdef rnd pos player_a player_b)) None)
            (\<lambda>_. hret ())))"

section \<open>After a transition\<close>

definition write_next_round_slots :: "i32 \<Rightarrow> bracket_setup \<Rightarrow> match_state \<Rightarrow> i32 \<Rightarrow> ('z, unit) bcall" where
  "write_next_round_slots contest su m winner =
    (if m_round m \<ge> length (su_rounds su) then hret ()
     else
       let next_round = wrap_u8 (m_round m + 1) in
       hbind (storage_set [(slot_key contest next_round (m_pos m), TextDoc (show_int winner))]) (\<lambda>_.
         if su_third_place su \<noteq> None \<and> next_round = length (su_rounds su) then
           let loser = (if winner = m_player_a m then m_player_b m else m_player_a m) in
           storage_set [(slot_key contest next_round (wrap_u8 (m_pos m + 2)), TextDoc (show_int loser))]
         else hret ()))"

definition is_over :: "match_state \<Rightarrow> bool" where
  "is_over m \<longleftrightarrow> m_state m = DecidedPhase \<or> m_state m = NeedsAdjudicationPhase"

definition cancel_game_timers :: "i32 \<Rightarrow> u8 \<Rightarrow> match_state \<Rightarrow> xiaoju_state \<Rightarrow> ('z, unit) bcall" where
  "cancel_game_timers contest mid m game =
    (if x_decided game \<or> is_over m then
       hbind (timer_cancel (xiaoju_timer_key contest mid (x_index game))) (\<lambda>_.
         timer_cancel (judgewait_timer_key contest mid (x_index game)))
     else if m_state m = AwaitingJudgePhase then timer_cancel (xiaoju_timer_key contest mid (x_index game))
     else hret ())"

definition finish_transition ::
  "(u8 \<Rightarrow> ('z, unit) bcall) \<Rightarrow> i32 \<Rightarrow> u8 \<Rightarrow> bracket_setup \<Rightarrow> match_state \<Rightarrow> ('z, unit) bcall" where
  "finish_transition open_stage contest mid su m =
    hbind (if is_over m then timer_cancel (start_timer_key contest mid) else hret ()) (\<lambda>_.
    hbind (publish contest mid m) (\<lambda>effective_timers.
    hbind (case m_winner m of
             Some winner \<Rightarrow>
               if m_state m = DecidedPhase then
                 hbind (write_next_round_slots contest su m winner) (\<lambda>_. open_stage (wrap_u8 (m_round m + 1)))
               else hret ()
           | None \<Rightarrow> hret ()) (\<lambda>_.
    hbind (hmapM timer_cancel effective_timers) (\<lambda>_.
    hbind (if m_state m = DecidedPhase \<and> m_xiaoju m = [] then timer_cancel (xiaoju_timer_key contest mid 0)
           else hret ()) (\<lambda>_.
      hmapM (cancel_game_timers contest mid m) (m_xiaoju m))))))"

definition advance_with ::
  "(u8 \<Rightarrow> ('z, unit) bcall) \<Rightarrow> 'z interference \<Rightarrow> i32 \<Rightarrow> u8 \<Rightarrow> ('z, unit) bcall" where
  "advance_with open_stage itf contest mid =
    hbind (load_setup contest) (\<lambda>setup. case setup of None \<Rightarrow> hret () | Some su \<Rightarrow>
    hbind (load_match contest mid) (\<lambda>found. if found = None then hret () else
    hbind (update_match itf contest mid (step contest mid su)) (\<lambda>updated.
      finish_transition open_stage contest mid su updated)))"

section \<open>Starting a match\<close>

definition prepare_step ::
  "i32 \<Rightarrow> u8 \<Rightarrow> bracket_setup \<Rightarrow> stage_clock \<Rightarrow> bclock \<Rightarrow> match_state \<Rightarrow> ('z, match_state) bcall" where
  "prepare_step contest mid su stage ck m =
    (if m_state m \<notin> {OrderingPhase, PreparingPhase} then hret m
     else if contest_ended ck then
       hret (m\<lparr>m_state := NeedsAdjudicationPhase, m_adjudication_reason := Some ContestEnded\<rparr>)
     else
       let m1 = (if ck_now ck \<ge> sk_ordering_deadline_ms stage \<and> m_state m = OrderingPhase
                 then (fill_missing_orders m)\<lparr>m_state := PreparingPhase\<rparr> else m)
       in if ck_now ck \<ge> sk_starts_at_ms stage \<and> m_state m1 = PreparingPhase
          then open_xiaoju_at contest mid su ck (sk_starts_at_ms stage) (m1\<lparr>m_state := InProgressPhase\<rparr>)
          else hret m1)"

definition advance_preparation ::
  "'z interference \<Rightarrow> i32 \<Rightarrow> u8 \<Rightarrow> bracket_setup \<Rightarrow> match_state \<Rightarrow> ('z, unit) bcall" where
  "advance_preparation itf contest mid su current =
    (if m_state current \<notin> {OrderingPhase, PreparingPhase} then hret ()
     else case su_stage_clocks su (m_round current) of
       None \<Rightarrow> hret ()
     | Some stage \<Rightarrow>
         if sk_awaiting_reschedule stage then hret ()
         else hbind (read_clock contest) (\<lambda>ck.
              hbind (update_match itf contest mid (prepare_step contest mid su stage ck)) (\<lambda>updated.
                case m_state updated of
                  OrderingPhase \<Rightarrow> timer_schedule (sk_ordering_deadline_ms stage) (start_timer_key contest mid) []
                | PreparingPhase \<Rightarrow> timer_schedule (sk_starts_at_ms stage) (start_timer_key contest mid) []
                | _ \<Rightarrow> hret ())))"

definition start_step ::
  "i32 \<Rightarrow> u8 \<Rightarrow> bracket_setup \<Rightarrow> (u8 \<times> match_state) list \<Rightarrow> i64 \<Rightarrow> bclock \<Rightarrow> match_state \<Rightarrow> ('z, match_state) bcall" where
  "start_step contest mid su matches contest_start ck m =
    (if start_at_ms su matches m contest_start = None then hret m
     else open_xiaoju contest mid su ck (m\<lparr>m_state := InProgressPhase\<rparr>))"

definition try_autostart_with ::
  "(u8 \<Rightarrow> ('z, unit) bcall) \<Rightarrow> 'z interference \<Rightarrow> i32 \<Rightarrow> u8 \<Rightarrow> ('z, unit) bcall" where
  "try_autostart_with open_stage itf contest mid =
    hbind (load_setup contest) (\<lambda>setup. case setup of None \<Rightarrow> hret () | Some su \<Rightarrow>
    hbind (load_match contest mid) (\<lambda>found. case found of None \<Rightarrow> hret () | Some current \<Rightarrow>
      if m_state current = IntermissionPhase then advance_with open_stage itf contest mid
      else if (case list_get (su_rounds su) (m_round current - 1) of
                 Some r \<Rightarrow> rd_start_at_ms r \<noteq> None | None \<Rightarrow> False)
      then advance_preparation itf contest mid su current
      else
        hbind (load_all_matches contest) (\<lambda>matches.
        hbind (contest_times_of contest) (\<lambda>times.
          case start_at_ms su matches current (tt_start_ms times) of
            None \<Rightarrow> hret ()
          | Some at_ms \<Rightarrow>
              hbind (read_clock contest) (\<lambda>ck.
                if contest_ended ck \<or> (case ck_contest_end ck of Some e \<Rightarrow> at_ms \<ge> e | None \<Rightarrow> False) then hret ()
                else if ck_now ck < at_ms then timer_schedule at_ms (start_timer_key contest mid) []
                else hbind (update_match itf contest mid
                              (start_step contest mid su matches (tt_start_ms times) ck)) (\<lambda>_. hret ()))))))"

section \<open>Opening a stage\<close>

definition count_round :: "u8 \<Rightarrow> (u8 \<times> match_state) list \<Rightarrow> nat" where
  "count_round rnd matches = length (filter (\<lambda>(_, m). m_round m = rnd) matches)"

definition open_matches ::
  "(u8 \<Rightarrow> ('z, unit) bcall) \<Rightarrow> 'z interference \<Rightarrow> i32 \<Rightarrow> bracket_setup \<Rightarrow> u8 \<Rightarrow> ('z, unit) bcall" where
  "open_matches open_stage itf contest su rnd =
    hmapM (\<lambda>pos. hbind (create_match_if_both_slots_filled contest su rnd pos) (\<lambda>_.
        try_autostart_with open_stage itf contest (match_id_for (player_count su) rnd pos)))
      [0..<match_count su rnd]"

text \<open>The two loops retry a lost compare-and-set; their first argument is what is left of the 100 attempts.\<close>

fun open_scheduled_loop ::
  "nat \<Rightarrow> (u8 \<Rightarrow> ('z, unit) bcall) \<Rightarrow> 'z interference \<Rightarrow> i32 \<Rightarrow> u8 \<Rightarrow> ('z, bool) bcall" where
  "open_scheduled_loop 0 open_stage itf contest rnd = hthrow (OtherError ''Stage opening CAS retry limit exceeded'')"
| "open_scheduled_loop (Suc n) open_stage itf contest rnd =
     hbind (storage_snapshot (setup_key contest)) (\<lambda>snap. case snap of None \<Rightarrow> hret False | Some (v, revision) \<Rightarrow>
     (case dec_setup v of Inl e \<Rightarrow> hthrow e | Inr su \<Rightarrow>
     (case Option.bind (stage_of su rnd) rd_start_at_ms of None \<Rightarrow> hret False | Some start \<Rightarrow>
     hbind (read_clock contest) (\<lambda>ck.
       if contest_ended ck then hret True
       else
         let timer = stage_timer_key contest rnd @ '':'' @ show_int start in
         if ck_now ck < start then hbind (timer_schedule start timer []) (\<lambda>_. hret True)
         else
         hbind (load_all_matches contest) (\<lambda>matches.
         hbind (contest_times_of contest) (\<lambda>times.
         case decide_clock su matches rnd (tt_start_ms times) of
           Inl e \<Rightarrow> hthrow e
         | Inr clock' \<Rightarrow>
             let frozen = (su_stage_clocks su rnd = Some clock');
                 su1 = (if frozen then su else
                   su\<lparr>su_stage_clocks := (su_stage_clocks su)(rnd \<mapsto> clock'),
                      su_opened_rounds := (if sk_awaiting_reschedule clock' then su_opened_rounds su
                                           else max (su_opened_rounds su) rnd)\<rparr>)
             in hbind (if frozen then hret True
                       else hbind (timer_schedule (saturating_add_i64 (ck_now ck) 1000) timer []) (\<lambda>_ d.
                              compare_and_set_snapshot (setup_key contest) (Some (v, revision)) (SetupDoc su1) (itf n d)))
                (\<lambda>swapped.
                  if \<not> swapped then open_scheduled_loop n open_stage itf contest rnd
                  else if sk_awaiting_reschedule clock' then hbind (timer_cancel timer) (\<lambda>_. hret True)
                  else
                    hbind (open_matches open_stage itf contest su1 rnd) (\<lambda>_.
                    hbind (load_all_matches contest) (\<lambda>created.
                      if count_round rnd created \<noteq> match_count su1 rnd
                      then hthrow (OtherError ''Stage is waiting for feeder slots'')
                      else hbind (timer_cancel timer) (\<lambda>_. hret True))))))))))"

fun open_legacy_loop :: "nat \<Rightarrow> 'z interference \<Rightarrow> i32 \<Rightarrow> u8 \<Rightarrow> ('z, unit) bcall" where
  "open_legacy_loop 0 itf contest rnd = hthrow (OtherError ''Stage opening CAS retry limit exceeded'')"
| "open_legacy_loop (Suc n) itf contest rnd =
     hbind (storage_snapshot (setup_key contest)) (\<lambda>snap. case snap of None \<Rightarrow> hret () | Some (v, revision) \<Rightarrow>
     (case dec_setup v of Inl e \<Rightarrow> hthrow e | Inr su \<Rightarrow>
     if rnd = 0 \<or> rnd > length (su_rounds su) \<or> rnd > su_opened_rounds su + 1 then hret ()
     else
     hbind (load_all_matches contest) (\<lambda>matches.
     if rnd > 1 \<and> stage_open_at_ms su matches rnd 0 = None then hret ()
     else
     hbind (contest_times_of contest) (\<lambda>times.
     case stage_open_at_ms su matches rnd (tt_start_ms times) of None \<Rightarrow> hret () | Some at_ms \<Rightarrow>
     hbind now_ms (\<lambda>now.
       if (case tt_end_ms times of Some e \<Rightarrow> now \<ge> e \<or> at_ms \<ge> e | None \<Rightarrow> False) then hret ()
       else
         let wake = (if now < at_ms then at_ms else saturating_add_i64 now 1000);
             timer = stage_timer_key contest rnd @ '':'' @ show_int wake;
             opens = su_opened_rounds su < rnd;
             su1 = (if opens then su\<lparr>su_opened_rounds := rnd\<rparr> else su)
         in hbind (timer_schedule wake timer []) (\<lambda>_.
            if now < at_ms then hret ()
            else hbind (if opens then (\<lambda>d. compare_and_set_snapshot (setup_key contest) (Some (v, revision))
                                             (SetupDoc su1) (itf n d))
                        else hret True) (\<lambda>swapped.
              if \<not> swapped then open_legacy_loop n itf contest rnd
              else hbind (hmapM (create_match_if_both_slots_filled contest su1 rnd) [0..<match_count su1 rnd]) (\<lambda>_.
                   hbind (load_all_matches contest) (\<lambda>created.
                     if count_round rnd created \<noteq> match_count su1 rnd
                     then hthrow (OtherError ''Stage is waiting for winner slots; retry opening'')
                     else timer_cancel timer)))))))))"

fun try_open_stage :: "nat \<Rightarrow> 'z interference \<Rightarrow> i32 \<Rightarrow> u8 \<Rightarrow> ('z, unit) bcall" where
  "try_open_stage 0 itf contest rnd = hthrow (OtherError ''stages nested too deeply'')"
| "try_open_stage (Suc depth) itf contest rnd =
     hbind (open_scheduled_loop 100 (try_open_stage depth itf contest) itf contest rnd) (\<lambda>handled.
       if handled then hret () else open_legacy_loop 100 itf contest rnd)"

text \<open>Rounds are numbered by a byte, so 256 nested openings cover every bracket.\<close>

definition open_stage :: "'z interference \<Rightarrow> i32 \<Rightarrow> u8 \<Rightarrow> ('z, unit) bcall" where
  "open_stage itf contest = try_open_stage 256 itf contest"

definition advance :: "'z interference \<Rightarrow> i32 \<Rightarrow> u8 \<Rightarrow> ('z, unit) bcall" where
  "advance itf contest mid = advance_with (open_stage itf contest) itf contest mid"

definition try_autostart :: "'z interference \<Rightarrow> i32 \<Rightarrow> u8 \<Rightarrow> ('z, unit) bcall" where
  "try_autostart itf contest mid = try_autostart_with (open_stage itf contest) itf contest mid"

section \<open>Escalation and the staff override\<close>

definition escalate_step :: "match_state \<Rightarrow> ('z, match_state) bcall" where
  "escalate_step m =
    (if m_state m \<noteq> AwaitingJudgePhase then hret m
     else hret (m\<lparr>m_state := NeedsAdjudicationPhase, m_adjudication_reason := Some StuckJudge\<rparr>))"

definition escalate :: "'z interference \<Rightarrow> i32 \<Rightarrow> u8 \<Rightarrow> ('z, unit) bcall" where
  "escalate itf contest mid =
    hbind (load_setup contest) (\<lambda>setup. if setup = None then hret () else
    hbind (load_match contest mid) (\<lambda>found. if found = None then hret () else
    hbind (update_match itf contest mid escalate_step) (\<lambda>_. hret ())))"

definition ALREADY_DECIDED_MSG :: string where
  "ALREADY_DECIDED_MSG = ''this match has already been decided''"

definition apply_force_decide :: "match_state \<Rightarrow> i32 \<Rightarrow> i64 \<Rightarrow> string + match_state" where
  "apply_force_decide m winner now =
    (if winner \<noteq> m_player_a m \<and> winner \<noteq> m_player_b m
     then Inl (''player '' @ show_int winner @ '' is not a participant in this match'')
     else if m_state m = DecidedPhase then Inl ALREADY_DECIDED_MSG
     else Inr (m\<lparr>m_state := DecidedPhase, m_winner := Some winner, m_next_game_at_ms := None,
                 m_decided_at_ms := now, m_awaiting_submission_id := None, m_adjudication_reason := None\<rparr>))"

definition force_step :: "i32 \<Rightarrow> u8 \<Rightarrow> i32 \<Rightarrow> match_state \<Rightarrow> ('z, match_state) bcall" where
  "force_step contest mid winner m =
    hbind now_ms (\<lambda>now.
      case apply_force_decide m winner now of
        Inl msg \<Rightarrow> hthrow (OtherError msg)
      | Inr m' \<Rightarrow>
          hbind (timer_schedule (saturating_add_i64 now 1000)
              (xiaoju_timer_key contest mid (case list_last (m_xiaoju m') of Some g \<Rightarrow> x_index g | None \<Rightarrow> 0)) [])
            (\<lambda>_. hret m'))"

definition force_decide :: "'z interference \<Rightarrow> i32 \<Rightarrow> u8 \<Rightarrow> i32 \<Rightarrow> ('z, unit) bcall" where
  "force_decide itf contest mid winner =
    hbind (load_setup contest) (\<lambda>setup. case setup of
      None \<Rightarrow> hthrow (OtherError ''the bracket has not been set up yet'')
    | Some su \<Rightarrow>
        hbind (load_match contest mid) (\<lambda>found. if found = None then hthrow (OtherError ''match not found'') else
        hbind (update_match itf contest mid (force_step contest mid winner)) (\<lambda>updated.
          finish_transition (open_stage itf contest) contest mid su updated)))"

section \<open>Timers and judged submissions\<close>

definition handle_timer :: "'z interference \<Rightarrow> string \<Rightarrow> i64 \<Rightarrow> ('z, unit) bcall" where
  "handle_timer itf key fire_at d =
    (let run = (\<lambda>op. case op d of
            (Inr _, d') \<Rightarrow> (Inr (), d')
          | (Inl e, d') \<Rightarrow> hbind (timer_schedule (saturating_add_i64 fire_at 1000) key []) (\<lambda>_. hthrow e) d')
     in case parse_xiaoju_timer_key key of
          Some (contest, mid) \<Rightarrow> run (advance itf contest mid)
        | None \<Rightarrow>
     (case parse_start_timer_key key of
          Some (contest, mid) \<Rightarrow> run (try_autostart itf contest mid)
        | None \<Rightarrow>
     (case parse_stage_timer_key key of
          Some (contest, rnd) \<Rightarrow> run (open_stage itf contest rnd)
        | None \<Rightarrow>
     (case parse_judgewait_timer_key key of
          Some (contest, mid) \<Rightarrow> run (escalate itf contest mid)
        | None \<Rightarrow> (Inr (), d)))))"

definition resolve_and_advance :: "'z interference \<Rightarrow> i32 \<Rightarrow> i32 \<Rightarrow> i32 \<Rightarrow> ('z, unit) bcall" where
  "resolve_and_advance itf contest user problem =
    hbind (load_setup contest) (\<lambda>setup. case setup of None \<Rightarrow> hret () | Some su \<Rightarrow>
      case problem_round su problem of None \<Rightarrow> hret () | Some rnd \<Rightarrow>
      hbind (load_all_matches contest) (\<lambda>matches.
        case find_players_match matches rnd user of
          None \<Rightarrow> hret ()
        | Some m \<Rightarrow> advance itf contest (match_id_for (player_count su) (m_round m) (m_pos m))))"

section \<open>Admission\<close>

record before_submission_event =
  ev_user_id :: i32
  ev_problem_id :: i32
  ev_contest_id :: "i32 option"
  ev_contest_type :: string

record player_feedback =
  pf_penalty_count :: i64
  pf_delay_seconds :: i64
  pf_pending_submission_id :: "i32 option"
  pf_effective_at_us :: "i64 option"
  pf_slot_token :: "slot_token option"

definition penalty_rows :: "i32 \<Rightarrow> i32 \<Rightarrow> i32 \<Rightarrow> i64 \<Rightarrow> 'z bworld \<Rightarrow> submission_row list" where
  "penalty_rows contest user problem opened d =
    filter (\<lambda>s. c_status (s_cols s) = Judged \<and>
        (case c_verdict (s_cols s) of Some v \<Rightarrow> v \<in> set (map to_db_str PENALTY_VERDICTS) | None \<Rightarrow> False) \<and>
        s_contest_id s = Some contest \<and> s_user_id s = user \<and> s_problem_id s = problem \<and>
        s_created_at s \<ge> opened * 1000) (db_submissions d)"

definition player_feedback_of ::
  "i32 \<Rightarrow> match_state \<Rightarrow> i32 \<Rightarrow> i32 \<Rightarrow> i64 \<Rightarrow> ('z, player_feedback) bcall" where
  "player_feedback_of contest m user problem penalty_seconds =
    (case list_last (m_xiaoju m) of
       None \<Rightarrow> hret \<lparr>pf_penalty_count = 0, pf_delay_seconds = 0, pf_pending_submission_id = None,
                     pf_effective_at_us = None, pf_slot_token = None\<rparr>
     | Some game \<Rightarrow>
         hbind (observe_slot (player_slot contest user)) (\<lambda>slot.
         hbind (db_query (penalty_rows contest user problem (x_opened_at_ms game))) (\<lambda>rows.
           hret \<lparr>pf_penalty_count = int (length rows),
                 pf_delay_seconds = score_delay_seconds m (int (length rows)) penalty_seconds,
                 pf_pending_submission_id = map_option fb_submission_id (so_pending slot),
                 pf_effective_at_us = map_option effective_time (so_pending slot),
                 pf_slot_token = Some (so_token slot)\<rparr>)))"

type_synonym bracket_admission = "(bdoc, admission_metadata) submission_admission"

definition rejection_of :: "string \<Rightarrow> string \<Rightarrow> rejection" where
  "rejection_of code message = \<lparr>rej_code = code, rej_message = lit message\<rparr>"

definition admit_open_game ::
  "i32 \<Rightarrow> before_submission_event \<Rightarrow> bracket_setup \<Rightarrow> string \<Rightarrow> bdoc \<Rightarrow> match_state \<Rightarrow> player_feedback \<Rightarrow>
   ('z, rejection + bracket_admission) bcall" where
  "admit_open_game contest event su state_key snapshot m fb =
    (if pf_pending_submission_id fb \<noteq> None then
       hret (Inl (rejection_of ''SUBMISSION_IN_FLIGHT''
         ''Wait for your previous submission's result before submitting again.''))
     else hbind (or_throw ''no open game'' (list_last (m_xiaoju m))) (\<lambda>game.
     hbind (read_clock contest) (\<lambda>ck.
       if \<not> contains_submission_at_us game (saturating_mul_i64 (ck_now ck) 1000) then hret (Inl xiaoju_closed)
       else
         let deadline = clock_cutoff ck (x_deadline_ms game) in
         if ck_now ck \<ge> deadline then
           hret (Inl (rejection_of ''SUBMISSION_TOO_LATE'' ''The submission window for this game has closed.''))
         else hret (Inr
           \<lparr>ad_guard_key = state_key, ad_expected_value = snapshot, ad_feedback_key = state_key,
            ad_metadata = \<lparr>am_scope_key = game_scope contest
                (match_id_for (player_count su) (m_round m) (m_pos m)) (x_index game),
              am_delay_seconds = pf_delay_seconds fb, am_effective_at_us = None\<rparr>,
            ad_slot = pf_slot_token fb, ad_latest_arrival_ms = Some deadline\<rparr>))))"

definition resolve_rejection ::
  "before_submission_event \<Rightarrow> ('z, rejection + bracket_admission) bcall" where
  "resolve_rejection event =
    (case ev_contest_id event of None \<Rightarrow> hret (Inl not_in_match) | Some contest \<Rightarrow>
     hbind (load_setup contest) (\<lambda>setup. case setup of None \<Rightarrow> hret (Inl not_in_match) | Some su \<Rightarrow>
     case problem_round su (ev_problem_id event) of None \<Rightarrow> hret (Inl not_your_problem) | Some rnd \<Rightarrow>
     hbind (load_all_matches contest) (\<lambda>matches.
     case find_players_match matches rnd (ev_user_id event) of None \<Rightarrow> hret (Inl not_in_match) | Some found \<Rightarrow>
     hbind (or_throw ''Missing match problem groups'' (round_for_match su (m_round found) (m_pos found))) (\<lambda>rdef.
     let state_key = match_key contest (match_id_for (player_count su) (m_round found) (m_pos found)) in
     hbind (storage_snapshot state_key) (\<lambda>snap.
     hbind (or_throw ''match disappeared during submission'' snap) (\<lambda>(v, _).
     case dec_match v of Inl e \<Rightarrow> hthrow e | Inr m \<Rightarrow>
       if m_state m \<noteq> InProgressPhase \<and> m_state m \<noteq> TiebreakPhase then hret (Inl match_not_started)
       else case gate_check (gate_ctx_from_match m rdef) (ev_user_id event) (ev_problem_id event) of
              Inl rej \<Rightarrow> hret (Inl rej)
            | Inr _ \<Rightarrow>
                hbind (player_feedback_of contest m (ev_user_id event) (ev_problem_id event) (su_penalty_seconds su))
                  (\<lambda>fb. admit_open_game contest event su state_key v m fb)))))))"

datatype hook_response = HookAdmit bracket_admission | HookReject string rstr nat | HookPass

definition guarded_elsewhere :: "i32 \<Rightarrow> 'z bworld \<Rightarrow> bool" where
  "guarded_elsewhere problem d \<longleftrightarrow>
     (\<exists>c \<in> set (h_contests d). ct_contest_type c = Some ''codelink-bracket'' \<and> ct_deleted_at c = None \<and>
        ct_end_time c > db_now d \<and>
        (\<exists>(cid, pid, _) \<in> set (h_contest_problems d). cid = ct_id c \<and> pid = problem))"

definition dispatch_submission_gate :: "before_submission_event \<Rightarrow> ('z, hook_response) bcall" where
  "dispatch_submission_gate event =
    (if ev_contest_id event \<noteq> None \<and> ev_contest_type event = ''codelink-bracket'' then
       hbind (resolve_rejection event) (\<lambda>r.
         case r of
           Inr admission \<Rightarrow> hret (HookAdmit admission)
         | Inl rej \<Rightarrow> hret (HookReject (rej_code rej) (rej_message rej) 400))
     else
       hbind (if ev_contest_type event = ''codelink-bracket'' then hret True
              else db_query (guarded_elsewhere (ev_problem_id event))) (\<lambda>blocked.
         hret (if blocked then HookReject ''CONTEST_SUBMISSION_REQUIRED''
                 (lit ''Submit this problem through its bracket contest.'') 400
               else HookPass)))"

section \<open>Rankings\<close>

text \<open>The body of the request is what decoding it gave: nothing, an error, or the ranking.\<close>

definition param_u8 :: "http_request \<Rightarrow> string \<Rightarrow> sdk_error + u8" where
  "param_u8 req name =
    (case Option.bind (hr_params req name) parse_u8 of
       Some v \<Rightarrow> Inr v | None \<Rightarrow> Inl (OtherError (''Missing or invalid param: '' @ name)))"

definition order_step :: "(i64 \<times> i64) option \<Rightarrow> i32 \<Rightarrow> i32 list \<Rightarrow> match_state \<Rightarrow> ('z, match_state) bcall" where
  "order_step window submitter order m =
    hbind (case window of
             Some (start, end') \<Rightarrow> hbind now_ms (\<lambda>now.
               if now < start \<or> now \<ge> end' then hthrow (OtherError ORDERING_CLOSED_MSG) else hret ())
           | None \<Rightarrow> hret ()) (\<lambda>_.
      case record_order m submitter order of Inl msg \<Rightarrow> hthrow (OtherError msg) | Inr m' \<Rightarrow> hret m')"

definition race_error :: "('s, sdk_error, 'a) call \<Rightarrow> ('s, api_error, 'a) call" where
  "race_error c s = (case c s of
      (Inr x, t) \<Rightarrow> (Inr x, t)
    | (Inl (OtherError msg), t) \<Rightarrow>
        if msg = LEFT_ORDERING_PHASE_MSG \<or> msg = ORDERING_CLOSED_MSG then (Inl (ApiResponse 409 msg), t)
        else (Inl (ApiSdk (OtherError msg)), t)
    | (Inl e, t) \<Rightarrow> (Inl (ApiSdk e), t))"

definition stage_is_open :: "i32 \<Rightarrow> match_state \<Rightarrow> ('z bworld, api_error, unit) call" where
  "stage_is_open contest current =
    hbind (lift_sdk (load_setup contest)) (\<lambda>setup. case setup of None \<Rightarrow> hret () | Some su \<Rightarrow>
    hbind (lift_sdk (load_all_matches contest)) (\<lambda>matches.
    hbind (lift_sdk (contest_times_of contest)) (\<lambda>times.
      case stage_open_at_ms su matches (m_round current) (tt_start_ms times) of
        None \<Rightarrow> api_fail 409 ''This stage has not opened yet''
      | Some at_ms \<Rightarrow> hbind (lift_sdk now_ms) (\<lambda>now.
          if now < at_ms then api_fail 409 ''This stage has not opened yet'' else hret ()))))"

definition handle_order ::
  "'z interference \<Rightarrow> http_request \<Rightarrow> (string + i32 list) option \<Rightarrow>
   ('z bworld, api_error, i32 list option \<times> i32 list option) call" where
  "handle_order itf req body =
    hbind (of_result (param_i32 req ''contest_id'')) (\<lambda>contest.
    hbind (of_result (param_u8 req ''match_id'')) (\<lambda>mid.
    hbind (check_access req contest) (\<lambda>info.
    hbind (require_type info ''codelink-bracket'') (\<lambda>_.
    hbind (of_result (require_user_id req)) (\<lambda>submitter.
    hbind (case body of None \<Rightarrow> api_fail 400 ''Missing request body''
           | Some (Inl e) \<Rightarrow> api_fail 400 (''Invalid request body: '' @ e) | Some (Inr o') \<Rightarrow> hret o') (\<lambda>order.
    hbind (lift_sdk (load_match contest mid)) (\<lambda>found. case found of None \<Rightarrow> api_fail 404 ''Match not found'' | Some current \<Rightarrow>
    hbind (lift_sdk (load_setup contest)) (\<lambda>setup.
    let window = Option.bind setup (\<lambda>su. Option.bind (su_stage_clocks su (m_round current)) (\<lambda>s.
          if \<not> sk_awaiting_reschedule s then Some (sk_start_at_ms s, sk_ordering_deadline_ms s) else None)) in
    hbind (stage_is_open contest current) (\<lambda>_.
    hbind (case record_order current submitter order of Inl msg \<Rightarrow> api_fail 400 msg | Inr _ \<Rightarrow> hret ()) (\<lambda>_.
    hbind (race_error (update_match itf contest mid (order_step window submitter order))) (\<lambda>updated.
    hbind (lift_sdk (hignore (try_autostart itf contest mid))) (\<lambda>_.
      hret (m_order_a updated, m_order_b updated)))))))))))))"

end
