(* ===== verification/BracketKeys.thy ===== *)
theory BracketKeys
  imports BracketEngine
begin

text \<open>
  The keys under which the bracket keeps its documents and timers: what the parsers of the timer
  handler read back from the keys that the engine writes, and which handler a timer reaches.
\<close>

section \<open>Splitting\<close>

lemma split_on_plain: "c \<notin> set xs \<Longrightarrow> split_on c xs = [xs]"
  by (induction xs) auto

lemma split_on_sep: "c \<notin> set xs \<Longrightarrow> split_on c (xs @ c # ys) = xs # split_on c ys"
  by (induction xs) auto

lemma split_on_tag: "CHR '':'' \<notin> set tag \<Longrightarrow> split_on CHR '':'' (tag @ '':'' @ ys) = tag # split_on CHR '':'' ys"
  by (simp add: split_on_sep)

lemma colon_numbers: "CHR '':'' \<notin> set (show_int i)" "CHR '':'' \<notin> set (show_nat n)"
  using show_int_no_colon show_nat_no_colon by auto

lemmas split_numbers =
  split_on_sep [OF colon_numbers(1)] split_on_sep [OF colon_numbers(2)] split_on_plain [OF colon_numbers(1)]
  split_on_plain [OF colon_numbers(2)]

lemma two_ids_show: "is_i32 c \<Longrightarrow> i < 256 \<Longrightarrow> two_ids (show_int c) (show_nat i) = Some (c, i)"
  by (simp add: two_ids_def parse_i32_show parse_u8_show)

lemma split_xiaoju: "split_on CHR '':'' (xiaoju_timer_key c i g) = [''xiaoju'', show_int c, show_nat i, show_nat g]"
  by (simp add: xiaoju_timer_key_def split_numbers)

lemma split_effective:
  "split_on CHR '':'' (effective_timer_key c i g s) =
     [''xiaoju'', show_int c, show_nat i, show_nat g, ''effective'', show_int s]"
  "split_on CHR '':'' (effective_timer_key c i g s @ '':at:'' @ show_int t) =
     [''xiaoju'', show_int c, show_nat i, show_nat g, ''effective'', show_int s, ''at'', show_int t]"
  by (simp_all add: effective_timer_key_def xiaoju_timer_key_def split_numbers)

lemma split_others:
  "split_on CHR '':'' (judgewait_timer_key c i g) = [''judgewait'', show_int c, show_nat i, show_nat g]"
  "split_on CHR '':'' (start_timer_key c i) = [''start'', show_int c, show_nat i]"
  "split_on CHR '':'' (stage_timer_key c r) = [''stage'', show_int c, show_nat r]"
  "split_on CHR '':'' (stage_timer_key c r @ '':'' @ show_int t) = [''stage'', show_int c, show_nat r, show_int t]"
  by (simp_all add: judgewait_timer_key_def start_timer_key_def stage_timer_key_def split_numbers)

section \<open>Routes\<close>

text \<open>Which call the timer handler makes for a key, in the order in which it tries its parsers.\<close>

datatype timer_route = ToAdvance i32 u8 | ToAutostart i32 u8 | ToStage i32 u8 | ToEscalate i32 u8 | ToNothing

definition timer_route_of :: "string \<Rightarrow> timer_route" where
  "timer_route_of key =
    (case parse_xiaoju_timer_key key of Some (c, i) \<Rightarrow> ToAdvance c i | None \<Rightarrow>
    (case parse_start_timer_key key of Some (c, i) \<Rightarrow> ToAutostart c i | None \<Rightarrow>
    (case parse_stage_timer_key key of Some (c, r) \<Rightarrow> ToStage c r | None \<Rightarrow>
    (case parse_judgewait_timer_key key of Some (c, i) \<Rightarrow> ToEscalate c i | None \<Rightarrow> ToNothing))))"

lemmas parser_defs = timer_route_of_def parse_xiaoju_timer_key_def parse_start_timer_key_def parse_stage_timer_key_def
  parse_judgewait_timer_key_def parse_indexed_key_def

text \<open>
  C16: Timer keys round trip. The handler of a fired timer recovers the contest and the match
  or round from every key the engine schedules under, and dispatches it to the operation the
  engine meant: deadlines and settlement times to \<open>advance\<close>, starts to \<open>try_autostart\<close>, stages to
  the opening of the stage, judge waits to the escalation. No key is taken for one of another
  kind.
\<close>

theorem timer_keys_round_trip:
  assumes "is_i32 contest" and "mid < 256" and "is_i64 at_ms"
  shows "timer_route_of (xiaoju_timer_key contest mid index) = ToAdvance contest mid \<and>
    timer_route_of (settlement_timer_key contest mid index sub at_us) = ToAdvance contest mid \<and>
    timer_route_of (start_timer_key contest mid) = ToAutostart contest mid \<and>
    timer_route_of (stage_timer_key contest mid) = ToStage contest mid \<and>
    timer_route_of (stage_timer_key contest mid @ '':'' @ show_int at_ms) = ToStage contest mid \<and>
    timer_route_of (judgewait_timer_key contest mid index) = ToEscalate contest mid"
  using assms two_ids_show [OF assms(1,2)]
  unfolding parser_defs settlement_timer_key_def Let_def
  by (simp add: split_xiaoju split_effective split_others split_effective [simplified] split_others [simplified] parse_i64_show)

theorem timer_keys_round_trip_witness:
  "timer_route_of (xiaoju_timer_key 5 3 1) = ToAdvance 5 3 \<and>
    timer_route_of (settlement_timer_key 5 3 1 \<lparr>sr_submission_id = 1, sr_user_id = 2, sr_problem_id = 3,
      sr_submitted_at_us = 4, sr_effective_at_us = 5, sr_verdict = None, sr_status = Judged\<rparr> 9) = ToAdvance 5 3 \<and>
    timer_route_of (start_timer_key 5 3) = ToAutostart 5 3 \<and>
    timer_route_of (stage_timer_key 5 3) = ToStage 5 3 \<and>
    timer_route_of (stage_timer_key 5 3 @ '':'' @ show_int 1000) = ToStage 5 3 \<and>
    timer_route_of (judgewait_timer_key 5 3 1) = ToEscalate 5 3"
  by (rule timer_keys_round_trip) (simp_all add: rust_int)

lemma handle_timer_route:
  "handle_timer itf key fire_at d =
    (let run = (\<lambda>op. case op d of
            (Inr _, d') \<Rightarrow> (Inr (), d')
          | (Inl e, d') \<Rightarrow> hbind (timer_schedule (saturating_add_i64 fire_at 1000) key []) (\<lambda>_. hthrow e) d')
     in case timer_route_of key of
          ToAdvance c i \<Rightarrow> run (advance itf c i)
        | ToAutostart c i \<Rightarrow> run (try_autostart itf c i)
        | ToStage c r \<Rightarrow> run (open_stage itf c r)
        | ToEscalate c i \<Rightarrow> run (escalate itf c i)
        | ToNothing \<Rightarrow> (Inr (), d))"
  unfolding handle_timer_def timer_route_of_def Let_def by (auto split: option.splits)

end
