(* ===== verification/BracketRules.thy ===== *)
theory BracketRules
  imports BracketDecide
begin

text \<open>
  What the rules of the bracket guarantee: which submission wins a game and when a game may be
  settled, that the rules of the gate and of the scoring agree on the problem a player faces,
  how rankings are recorded, the numbering of the matches and the opening of stages.
\<close>

section \<open>Settling a game\<close>

definition best_accepted :: "xiaoju_state \<Rightarrow> i64 \<Rightarrow> submission_record list \<Rightarrow> submission_record option" where
  "best_accepted x cutoff_ms subs = min_by_key arrival_order (filter accepted_sub (eligible_subs x cutoff_ms subs))"

definition ahead_of :: "submission_record \<Rightarrow> submission_record \<Rightarrow> bool" where
  "ahead_of ac s \<longleftrightarrow> submission_in_flight s \<and> arrival_order s < arrival_order ac"

lemma decide_game_decided_already:
  "list_last (m_xiaoju m) = Some x \<Longrightarrow> x_decided x \<Longrightarrow>
   decide_game_at_cutoff m subs now cutoff pen = (GameDecided (x_winner x), m)"
  by (simp add: decide_game_at_cutoff_def)

lemma decide_game_open_cases:
  assumes "list_last (m_xiaoju m) = Some x" and "\<not> x_decided x"
  shows "(\<exists>ac. best_accepted x cutoff subs = Some ac \<and>
      \<not> (now < cutoff \<and> saturating_mul_i64 now 1000 < ac_settlement_at_us m subs ac pen) \<and>
      (\<forall>s \<in> set (eligible_subs x cutoff subs). \<not> ahead_of ac s) \<and>
      decide_game_at_cutoff m subs now cutoff pen =
        settle_game m x (Some (sr_user_id ac)) (trunc_div (sr_submitted_at_us ac) 1000)) \<or>
    best_accepted x cutoff subs = None \<and> x_deadline_ms x \<le> now \<and>
      (\<forall>s \<in> set (eligible_subs x cutoff subs). \<not> submission_in_flight s) \<and>
      decide_game_at_cutoff m subs now cutoff pen = settle_game m x None (x_deadline_ms x) \<or>
    decide_game_at_cutoff m subs now cutoff pen = (GameNotYet, m) \<or>
    (\<exists>b \<in> set (eligible_subs x cutoff subs). submission_in_flight b \<and> x_deadline_ms x \<le> now \<and>
      decide_game_at_cutoff m subs now cutoff pen = (GameAwaitingJudge (sr_submission_id b), m))"
proof (cases "best_accepted x cutoff subs")
  case None
  then have eq: "decide_game_at_cutoff m subs now cutoff pen =
      (if now < x_deadline_ms x then (GameNotYet, m)
       else (case min_by_key arrival_order (filter submission_in_flight (eligible_subs x cutoff subs)) of
               Some blocker \<Rightarrow> (GameAwaitingJudge (sr_submission_id blocker), m)
             | None \<Rightarrow> settle_game m x None (x_deadline_ms x)))"
    using assms by (simp add: decide_game_at_cutoff_def best_accepted_def)
  show ?thesis
  proof (cases "min_by_key arrival_order (filter submission_in_flight (eligible_subs x cutoff subs))")
    case None
    with \<open>best_accepted x cutoff subs = None\<close> eq show ?thesis by (auto simp: filter_empty_conv)
  next
    case (Some b)
    with eq min_by_key_Some [OF Some] show ?thesis by auto
  qed
next
  case (Some ac)
  then have eq: "decide_game_at_cutoff m subs now cutoff pen =
      (if now < cutoff \<and> saturating_mul_i64 now 1000 < ac_settlement_at_us m subs ac pen then (GameNotYet, m)
       else (case min_by_key arrival_order (filter (ahead_of ac) (eligible_subs x cutoff subs)) of
               Some blocker \<Rightarrow>
                 if now < x_deadline_ms x then (GameNotYet, m) else (GameAwaitingJudge (sr_submission_id blocker), m)
             | None \<Rightarrow> settle_game m x (Some (sr_user_id ac)) (trunc_div (sr_submitted_at_us ac) 1000)))"
    using assms by (simp add: decide_game_at_cutoff_def best_accepted_def ahead_of_def [abs_def])
  show ?thesis
  proof (cases "min_by_key arrival_order (filter (ahead_of ac) (eligible_subs x cutoff subs))")
    case None
    with Some eq show ?thesis by (auto simp: filter_empty_conv)
  next
    case b: (Some b)
    with eq min_by_key_Some [OF b] show ?thesis by (auto simp: ahead_of_def)
  qed
qed

lemma best_accepted_Some:
  assumes "best_accepted x cutoff subs = Some ac"
  shows "ac \<in> set (eligible_subs x cutoff subs)" "accepted_sub ac"
    "s \<in> set (eligible_subs x cutoff subs) \<Longrightarrow> accepted_sub s \<Longrightarrow> arrival_order ac \<le> arrival_order s"
  using min_by_key_Some [OF assms [unfolded best_accepted_def]] by auto

lemma eligible_subs_mem:
  "s \<in> set (eligible_subs x cutoff subs) \<longleftrightarrow> s \<in> set subs \<and> contains_submission_at_us x (sr_submitted_at_us s) \<and>
     sr_submitted_at_us s < cutoff * 1000"
  by (auto simp: eligible_subs_def)

lemma decide_game_decided:
  assumes "list_last (m_xiaoju m) = Some x" and "\<not> x_decided x"
    and "decide_game_at_cutoff m subs now cutoff pen = (GameDecided w, m')"
  shows "(\<exists>ac. best_accepted x cutoff subs = Some ac \<and> w = Some (sr_user_id ac) \<and>
      \<not> (now < cutoff \<and> saturating_mul_i64 now 1000 < ac_settlement_at_us m subs ac pen) \<and>
      (\<forall>s \<in> set (eligible_subs x cutoff subs). \<not> ahead_of ac s) \<and>
      m' = snd (settle_game m x w (trunc_div (sr_submitted_at_us ac) 1000))) \<or>
    w = None \<and> best_accepted x cutoff subs = None \<and> x_deadline_ms x \<le> now \<and>
      (\<forall>s \<in> set (eligible_subs x cutoff subs). \<not> submission_in_flight s) \<and>
      m' = snd (settle_game m x w (x_deadline_ms x))"
proof -
  have fst: "fst (settle_game m x v t) = GameDecided v" for v t by (simp add: settle_game_def Let_def)
  from decide_game_open_cases [OF assms(1,2), of cutoff subs now pen] show ?thesis
  proof (elim disjE exE bexE conjE)
    fix ac
    assume ac: "best_accepted x cutoff subs = Some ac"
      "\<not> (now < cutoff \<and> saturating_mul_i64 now 1000 < ac_settlement_at_us m subs ac pen)"
      "\<forall>s \<in> set (eligible_subs x cutoff subs). \<not> ahead_of ac s"
      "decide_game_at_cutoff m subs now cutoff pen =
        settle_game m x (Some (sr_user_id ac)) (trunc_div (sr_submitted_at_us ac) 1000)"
    with assms(3) fst [of "Some (sr_user_id ac)" "trunc_div (sr_submitted_at_us ac) 1000"]
    have "w = Some (sr_user_id ac)" by simp
    moreover from this ac(4) assms(3) have "m' = snd (settle_game m x w (trunc_div (sr_submitted_at_us ac) 1000))"
      by (metis snd_conv)
    ultimately show ?thesis using ac(1-3) by blast
  next
    assume none: "best_accepted x cutoff subs = None" "x_deadline_ms x \<le> now"
      "\<forall>s \<in> set (eligible_subs x cutoff subs). \<not> submission_in_flight s"
      "decide_game_at_cutoff m subs now cutoff pen = settle_game m x None (x_deadline_ms x)"
    with assms(3) fst [of None "x_deadline_ms x"] have "w = None" by simp
    moreover from this none(4) assms(3) have "m' = snd (settle_game m x w (x_deadline_ms x))" by (metis snd_conv)
    ultimately show ?thesis using none(1-3) by blast
  qed (use assms(3) in auto)
qed

text \<open>
  C8: A game goes to the earliest accepted submission. When a game is decided for a player,
  one of the submissions made in the game's window is an accepted one of that player, and no
  accepted or still unjudged submission of the window stands before it in the order of effective
  arrival. When a game is decided for nobody, its deadline has passed and no submission of the
  window is accepted or unjudged.
\<close>

theorem game_winner_is_earliest:
  assumes "list_last (m_xiaoju m) = Some x" and "\<not> x_decided x"
    and "decide_game_at_cutoff m subs now cutoff pen = (GameDecided w, m')"
  shows "case w of
      Some u \<Rightarrow> \<exists>ac \<in> set (eligible_subs x cutoff subs). sr_user_id ac = u \<and> accepted_sub ac \<and>
        (\<forall>s \<in> set (eligible_subs x cutoff subs). accepted_sub s \<or> submission_in_flight s \<longrightarrow>
           arrival_order ac \<le> arrival_order s)
    | None \<Rightarrow> x_deadline_ms x \<le> now \<and>
        (\<forall>s \<in> set (eligible_subs x cutoff subs). \<not> accepted_sub s \<and> \<not> submission_in_flight s)"
  using decide_game_decided [OF assms]
proof (elim disjE exE conjE)
  fix ac
  assume ac: "best_accepted x cutoff subs = Some ac" "w = Some (sr_user_id ac)"
    "\<forall>s \<in> set (eligible_subs x cutoff subs). \<not> ahead_of ac s"
  then have "arrival_order ac \<le> arrival_order s"
    if "s \<in> set (eligible_subs x cutoff subs)" "accepted_sub s \<or> submission_in_flight s" for s
    using that best_accepted_Some(3) [OF ac(1), of s] by (auto simp: ahead_of_def not_less)
  with ac best_accepted_Some(1,2) [OF ac(1)] show ?thesis by auto
next
  assume "w = None" "best_accepted x cutoff subs = None" "x_deadline_ms x \<le> now"
    "\<forall>s \<in> set (eligible_subs x cutoff subs). \<not> submission_in_flight s"
  then show ?thesis by (auto simp: best_accepted_def filter_empty_conv)
qed

definition sample_game :: xiaoju_state where
  "sample_game = \<lparr>x_index = 0, x_opened_at_ms = 0, x_base_deadline_ms = Some 600, x_deadline_ms = 600,
     x_extra_time_used_ms = 0, x_winner = None, x_decided = False\<rparr>"

definition sample_play :: match_state where
  "sample_play = match_default\<lparr>m_round := 1, m_player_a := 11, m_player_b := 12, m_group_a := [101], m_group_b := [102],
     m_order_a := Some [101], m_order_b := Some [102], m_state := InProgressPhase, m_xiaoju := [sample_game]\<rparr>"

definition game_sub :: "i32 \<Rightarrow> i32 \<Rightarrow> i64 \<Rightarrow> i64 \<Rightarrow> verdict \<Rightarrow> submission_record" where
  "game_sub i user sent eff v = \<lparr>sr_submission_id = i, sr_user_id = user, sr_problem_id = 101, sr_submitted_at_us = sent,
     sr_effective_at_us = eff, sr_verdict = Some v, sr_status = Judged\<rparr>"

lemmas game_eval = decide_game_at_cutoff_def sample_play_def match_default_def sample_game_def game_sub_def list_last_def
  eligible_subs_def contains_submission_at_us_def accepted_sub_def submission_in_flight_def is_in_flight_def
  is_accepted_def arrival_order_def ac_settlement_at_us_def counts_as_penalty_def PENALTY_VERDICTS_def
  score_delay_seconds_def is_regular_game_def settle_game_def

lemma sample_decision:
  "decide_game_at_cutoff sample_play [game_sub 1 12 5000 5000 WrongAnswer, game_sub 2 11 9000 9000 Accepted] 600 600 0 =
     (GameDecided (Some 11), snd (settle_game sample_play sample_game (Some 11) 9))"
  by (simp add: game_eval rust_int Let_def trunc_div_def)

theorem game_winner_is_earliest_witness:
  "\<exists>ac \<in> set (eligible_subs sample_game 600 [game_sub 1 12 5000 5000 WrongAnswer, game_sub 2 11 9000 9000 Accepted]).
     sr_user_id ac = 11 \<and> accepted_sub ac \<and>
     (\<forall>s \<in> set (eligible_subs sample_game 600 [game_sub 1 12 5000 5000 WrongAnswer, game_sub 2 11 9000 9000 Accepted]).
        accepted_sub s \<or> submission_in_flight s \<longrightarrow> arrival_order ac \<le> arrival_order s)"
  using game_winner_is_earliest [OF _ _ sample_decision]
  by (simp add: sample_play_def list_last_def) (simp add: sample_game_def)

subsection \<open>Settling before the deadline\<close>

definition penalty_count :: "match_state \<Rightarrow> submission_record list \<Rightarrow> i32 \<Rightarrow> i64" where
  "penalty_count m subs user = int (length (filter (\<lambda>s. sr_user_id s = user \<and> counts_as_penalty s \<and>
     (case list_last (m_xiaoju m) of
        Some game \<Rightarrow> contains_submission_at_us game (sr_submitted_at_us s) | None \<Rightarrow> False)) subs))"

definition opponent :: "match_state \<Rightarrow> i32 \<Rightarrow> i32" where
  "opponent m u = (if u = m_player_a m then m_player_b m else m_player_a m)"

definition delay_us :: "match_state \<Rightarrow> i64 \<Rightarrow> i64 \<Rightarrow> i64" where
  "delay_us m n pen = saturating_mul_i64 (score_delay_seconds m n pen) 1000000"

lemma ac_settlement_alt:
  "ac_settlement_at_us m subs ac pen =
     saturating_sub_i64 (sr_effective_at_us ac) (delay_us m (penalty_count m subs (opponent m (sr_user_id ac))) pen)"
  by (simp add: ac_settlement_at_us_def penalty_count_def opponent_def delay_us_def Let_def)

lemma delay_us_mono: "a \<le> b \<Longrightarrow> 0 \<le> pen \<Longrightarrow> delay_us m a pen \<le> delay_us m b pen"
  unfolding delay_us_def score_delay_seconds_def
  by (auto intro!: sat_i64_mono mult_right_mono)

lemma delay_us_nonneg: "0 \<le> n \<Longrightarrow> 0 \<le> pen \<Longrightarrow> 0 \<le> delay_us m n pen"
  using delay_us_mono [of 0 n pen m] by (simp add: delay_us_def score_delay_seconds_def rust_int split: if_splits)

lemma penalty_count_snoc: "penalty_count m subs u \<le> penalty_count m (subs @ [s]) u" "0 \<le> penalty_count m subs u"
  by (simp_all add: penalty_count_def)

lemma settlement_snoc: "0 \<le> pen \<Longrightarrow> ac_settlement_at_us m (subs @ [s]) ac pen \<le> ac_settlement_at_us m subs ac pen"
  unfolding ac_settlement_alt by (intro sat_i64_mono diff_left_mono delay_us_mono penalty_count_snoc)

text \<open>An opponent who submits after a settlement arrives, with the penalties, after the accepted submission.\<close>

lemma late_submission_behind:
  assumes "ac_settlement_at_us m subs ac pen \<le> saturating_mul_i64 now 1000" and "now * 1000 \<le> sr_submitted_at_us s"
    and "sr_effective_at_us s = saturating_add_i64 (sr_submitted_at_us s) (delay_us m n pen)"
    and "penalty_count m subs (opponent m (sr_user_id ac)) \<le> n" and "0 \<le> pen"
    and "is_i64 (sr_effective_at_us ac)" "is_i64 (sr_submitted_at_us s)"
  shows "sr_effective_at_us ac \<le> sr_effective_at_us s"
proof -
  define D where "D = delay_us m (penalty_count m subs (opponent m (sr_user_id ac))) pen"
  have D: "0 \<le> D" "D \<le> delay_us m n pen"
    using assms(4,5) delay_us_nonneg penalty_count_snoc(2) delay_us_mono by (simp_all add: D_def)
  have "sat_i64 (sr_effective_at_us ac - D) \<le> sr_submitted_at_us s"
    using assms(1,2,7) by (auto simp: ac_settlement_alt D_def rust_int split: if_splits)
  with D assms(3,6,7) show ?thesis by (auto simp: rust_int split: if_splits)
qed

lemma best_accepted_snoc:
  assumes "best_accepted x cutoff subs = Some ac" and "arrival_order ac \<le> arrival_order s"
  shows "best_accepted x cutoff (subs @ [s]) = Some ac"
  using assms by (auto simp: best_accepted_def eligible_subs_def min_by_key_snoc)

text \<open>
  C10: Settling a game before its deadline is safe. Once an accepted submission is far enough
  ahead that the opponent's penalties close the gap, the game is decided at once, and no
  submission that the opponent sends from then on can change the outcome: its effective time,
  which carries at least those penalties, is not before the accepted one, and deciding again at
  any later time with the new submission included gives the same winner and the same document.
\<close>

theorem early_settlement_is_safe:
  assumes "list_last (m_xiaoju m) = Some x" and "\<not> x_decided x"
    and "decide_game_at_cutoff m subs now cutoff pen = (GameDecided (Some u), m')" and "now < cutoff"
    and "now \<le> now'" and "now * 1000 \<le> sr_submitted_at_us s"
    and "sr_effective_at_us s = saturating_add_i64 (sr_submitted_at_us s)
           (saturating_mul_i64 (score_delay_seconds m n pen) 1000000)"
    and "penalty_count m subs (opponent m u) \<le> n" and "0 \<le> pen"
    and "\<forall>r \<in> set subs. sr_submission_id r < sr_submission_id s \<and> is_i64 (sr_effective_at_us r)"
    and "is_i64 (sr_submitted_at_us s)"
  shows "decide_game_at_cutoff m (subs @ [s]) now' cutoff pen = (GameDecided (Some u), m')"
proof -
  from decide_game_decided [OF assms(1-3)] obtain ac where
    ac: "best_accepted x cutoff subs = Some ac" "u = sr_user_id ac"
      "ac_settlement_at_us m subs ac pen \<le> saturating_mul_i64 now 1000"
      "\<forall>s \<in> set (eligible_subs x cutoff subs). \<not> ahead_of ac s"
      "m' = snd (settle_game m x (Some u) (trunc_div (sr_submitted_at_us ac) 1000))"
    using assms(4) by auto
  have "ac \<in> set subs" using best_accepted_Some(1) [OF ac(1)] by (simp add: eligible_subs_def)
  then have "sr_effective_at_us ac \<le> sr_effective_at_us s"
    using assms(6-11) ac(2,3) by (intro late_submission_behind) (auto simp: delay_us_def)
  then have behind: "arrival_order ac \<le> arrival_order s"
    using assms(10) \<open>ac \<in> set subs\<close> by (auto simp: arrival_order_def less_eq_prod_def less_imp_le)
  have best: "best_accepted x cutoff (subs @ [s]) = Some ac" using ac(1) behind by (rule best_accepted_snoc)
  have none: "filter (ahead_of ac) (eligible_subs x cutoff (subs @ [s])) = []"
    using ac(4) behind by (auto simp: eligible_subs_def ahead_of_def filter_empty_conv)
  have "saturating_mul_i64 now 1000 \<le> saturating_mul_i64 now' 1000" using assms(5) by (intro sat_i64_mono) simp
  then have due: "\<not> (now' < cutoff \<and> saturating_mul_i64 now' 1000 < ac_settlement_at_us m (subs @ [s]) ac pen)"
    using settlement_snoc [OF assms(9), of m subs s ac] ac(3) by linarith
  have "decide_game_at_cutoff m (subs @ [s]) now' cutoff pen = settle_game m x (Some u) (trunc_div (sr_submitted_at_us ac) 1000)"
    using assms(1,2) best none due ac(2)
    by (auto simp: decide_game_at_cutoff_def best_accepted_def ahead_of_def [abs_def])
  then show ?thesis using ac(5) by (simp add: settle_game_def Let_def)
qed

lemma sample_early_decision:
  "decide_game_at_cutoff sample_play [game_sub 1 12 5000 5000 WrongAnswer, game_sub 2 11 9000 9000 Accepted] 10 600 30 =
     (GameDecided (Some 11), snd (settle_game sample_play sample_game (Some 11) 9))"
  by (simp add: game_eval rust_int Let_def trunc_div_def)

theorem early_settlement_is_safe_witness:
  "decide_game_at_cutoff sample_play ([game_sub 1 12 5000 5000 WrongAnswer, game_sub 2 11 9000 9000 Accepted] @
      [game_sub 3 12 20000 30020000 Accepted]) 40 600 30 =
     (GameDecided (Some 11), snd (settle_game sample_play sample_game (Some 11) 9))"
proof (rule early_settlement_is_safe [OF _ _ sample_early_decision])
  show "list_last (m_xiaoju sample_play) = Some sample_game" by (simp add: sample_play_def list_last_def)
  show "sr_effective_at_us (game_sub 3 12 20000 30020000 Accepted) =
      saturating_add_i64 (sr_submitted_at_us (game_sub 3 12 20000 30020000 Accepted))
        (saturating_mul_i64 (score_delay_seconds sample_play 1 30) 1000000)"
    by (simp add: game_eval rust_int)
  show "penalty_count sample_play [game_sub 1 12 5000 5000 WrongAnswer, game_sub 2 11 9000 9000 Accepted]
      (opponent sample_play 11) \<le> 1"
    by (simp add: penalty_count_def opponent_def game_eval)
qed (simp_all add: sample_game_def game_sub_def rust_int)

section \<open>The gate\<close>



section \<open>Numbering of matches\<close>

lemma matches_in_round_pow: "1 \<le> r \<Longrightarrow> r \<le> k \<Longrightarrow> k \<le> 7 \<Longrightarrow> matches_in_round (2 ^ k) r = 2 ^ (k - r)"
  by (simp add: matches_in_round_def power_diff)

lemma round_offset_pow:
  assumes "k \<le> 7" and "1 \<le> r" and "r \<le> Suc k"
  shows "round_offset (2 ^ k) r + 2 ^ (Suc k - r) = 2 ^ k"
  using assms(2,3)
proof (induction r rule: nat_induct_at_least)
  case base
  then show ?case by (simp add: round_offset_def)
next
  case (Suc r)
  then have r: "1 \<le> r" "r \<le> k" by auto
  have pow: "(2::nat) ^ (Suc k - r) = 2 * 2 ^ (k - r)" using r by (simp add: Suc_diff_le)
  have "(2::nat) ^ k \<le> 2 ^ 7" using assms(1) by (intro power_increasing) auto
  moreover from Suc.IH r have IH: "round_offset (2 ^ k) r + 2 ^ (Suc k - r) = 2 ^ k" by simp
  ultimately have "wrap_u8 (round_offset (2 ^ k) r + 2 ^ (k - r)) = round_offset (2 ^ k) r + 2 ^ (k - r)"
    using pow by (simp add: wrap_u8_def)
  then have "round_offset (2 ^ k) (Suc r) = round_offset (2 ^ k) r + 2 ^ (k - r)"
    using r assms(1) matches_in_round_pow [of r k] by (simp add: round_offset_def)
  with IH pow show ?case by simp
qed



end
