(* ===== verification/BracketMachine.thy ===== *)
theory BracketMachine
  imports BracketEngine BracketRules
begin

text \<open>
  The life of one match as a state machine on its document: the transitions that rankings,
  results, deadlines, the contest end and staff may cause, what every reachable document
  satisfies, and the refinement lemmas that each update the engine makes inside its
  compare-and-set loop is a run of this machine.
\<close>

section \<open>Transitions\<close>

definition in_play :: "match_state \<Rightarrow> bool" where
  "in_play m \<longleftrightarrow> m_state m \<in> {InProgressPhase, TiebreakPhase, AwaitingJudgePhase} \<and> m_xiaoju m \<noteq> []"

definition game_over :: "match_state \<Rightarrow> bool" where
  "game_over m \<longleftrightarrow> in_play m \<and> x_decided (last (m_xiaoju m))"

definition goes_on :: "match_outcome \<Rightarrow> bool" where
  "goes_on out \<longleftrightarrow> (case out of MatchNotYet \<Rightarrow> True | OpenTiebreak _ \<Rightarrow> True | _ \<Rightarrow> False)"

definition settle_match :: "bracket_setup \<Rightarrow> match_state \<Rightarrow> match_outcome \<times> match_state" where
  "settle_match su m = decide_match (resume_phase (x_index (last (m_xiaoju m))) m) su"

inductive match_moves :: "match_state \<Rightarrow> match_state \<Rightarrow> bool" where
  rank: "record_order m u order = Inr m' \<Longrightarrow> match_moves m m'"
| close_ordering: "m_state m = OrderingPhase \<Longrightarrow> m' = (fill_missing_orders m)\<lparr>m_state := PreparingPhase\<rparr> \<Longrightarrow>
    match_moves m m'"
| start: "m_state m \<in> {OrderingPhase, PreparingPhase} \<Longrightarrow>
    open_game_doc su now (m\<lparr>m_state := InProgressPhase\<rparr>) = Inr (m', dl, i) \<Longrightarrow> match_moves m m'"
| resume: "m_state m = IntermissionPhase \<Longrightarrow> ph \<in> {InProgressPhase, TiebreakPhase} \<Longrightarrow>
    open_game_doc su now (m\<lparr>m_state := ph, m_next_game_at_ms := None\<rparr>) = Inr (m', dl, i) \<Longrightarrow> match_moves m m'"
| settle: "in_play m \<Longrightarrow> \<forall>s \<in> set subs. sr_user_id s \<in> {m_player_a m, m_player_b m} \<Longrightarrow>
    decide_game_at_cutoff m subs now cutoff pen = (out, m') \<Longrightarrow> match_moves m m'"
| await: "in_play m \<Longrightarrow> \<not> x_decided (last (m_xiaoju m)) \<Longrightarrow>
    m' = m\<lparr>m_state := AwaitingJudgePhase, m_awaiting_submission_id := Some b\<rparr> \<Longrightarrow> match_moves m m'"
| win: "game_over m \<Longrightarrow> settle_match su m = (MatchDecided w, m1) \<Longrightarrow> m' = m1\<lparr>m_decided_at_ms := now\<rparr> \<Longrightarrow>
    match_moves m m'"
| exhausted: "game_over m \<Longrightarrow> settle_match su m = (MatchNeedsAdjudication, m') \<Longrightarrow> match_moves m m'"
| next_game: "game_over m \<Longrightarrow> settle_match su m = (out, m1) \<Longrightarrow> goes_on out \<Longrightarrow>
    open_game_doc su now m1 = Inr (m', dl, i) \<Longrightarrow> match_moves m m'"
| pause: "game_over m \<Longrightarrow> settle_match su m = (out, m1) \<Longrightarrow> goes_on out \<Longrightarrow>
    m' = m1\<lparr>m_state := IntermissionPhase, m_next_game_at_ms := Some at_ms\<rparr> \<Longrightarrow> match_moves m m'"
| cut_short: "game_over m \<Longrightarrow> settle_match su m = (out, m1) \<Longrightarrow> goes_on out \<Longrightarrow>
    m' = m1\<lparr>m_state := NeedsAdjudicationPhase, m_adjudication_reason := Some ContestEnded,
            m_awaiting_submission_id := None\<rparr> \<Longrightarrow> match_moves m m'"
| contest_over: "m_state m \<notin> {PendingPhase, DecidedPhase, NeedsAdjudicationPhase} \<Longrightarrow>
    m' = m\<lparr>m_state := NeedsAdjudicationPhase, m_adjudication_reason := Some ContestEnded,
           m_awaiting_submission_id := a, m_next_game_at_ms := n\<rparr> \<Longrightarrow>
    a \<in> {None, m_awaiting_submission_id m} \<Longrightarrow> match_moves m m'"
| lost_setup: "in_play m \<Longrightarrow>
    m' = m\<lparr>m_state := NeedsAdjudicationPhase, m_adjudication_reason := Some SetupMissing\<rparr> \<Longrightarrow> match_moves m m'"
| stuck: "m_state m = AwaitingJudgePhase \<Longrightarrow>
    m' = m\<lparr>m_state := NeedsAdjudicationPhase, m_adjudication_reason := Some StuckJudge\<rparr> \<Longrightarrow> match_moves m m'"
| forced: "apply_force_decide m w now = Inr m' \<Longrightarrow> match_moves m m'"

section \<open>What a document satisfies\<close>

definition wins_of :: "i32 \<Rightarrow> xiaoju_state list \<Rightarrow> nat" where
  "wins_of u xs = length (filter (\<lambda>x. x_winner x = Some u) xs)"

definition games_ok :: "match_state \<Rightarrow> bool" where
  "games_ok m \<longleftrightarrow>
     (\<forall>i < length (m_xiaoju m). x_index (m_xiaoju m ! i) = wrap_u8 i) \<and>
     (\<forall>x \<in> set (butlast (m_xiaoju m)). x_decided x) \<and>
     (\<forall>x \<in> set (m_xiaoju m). x_winner x \<in> {None, Some (m_player_a m), Some (m_player_b m)} \<and>
        (\<not> x_decided x \<longrightarrow> x_winner x = None \<and> x_extra_time_used_ms x = 0))"

definition scores_ok :: "match_state \<Rightarrow> bool" where
  "scores_ok m \<longleftrightarrow> (m_player_a m \<noteq> m_player_b m \<longrightarrow>
     m_score_a m = wrap_u8 (wins_of (m_player_a m) (m_xiaoju m)) \<and>
     m_score_b m = wrap_u8 (wins_of (m_player_b m) (m_xiaoju m)))"

definition extra_used :: "xiaoju_state list \<Rightarrow> i64" where
  "extra_used xs = sum_list (map x_extra_time_used_ms xs)"

definition extra_ok :: "match_state \<Rightarrow> bool" where
  "extra_ok m \<longleftrightarrow> (m_xiaoju m \<noteq> [] \<and> 0 \<le> m_match_extra_time_seconds m \<longrightarrow>
     is_i64 (m_match_extra_time_seconds m * 1000) \<and> 0 \<le> m_extra_time_remaining_ms m \<and>
     m_extra_time_remaining_ms m + extra_used (m_xiaoju m) = m_match_extra_time_seconds m * 1000 \<and>
     (\<forall>x \<in> set (m_xiaoju m). 0 \<le> x_extra_time_used_ms x))"

definition phase_ok :: "match_state \<Rightarrow> bool" where
  "phase_ok m \<longleftrightarrow>
     (m_state m \<in> {PendingPhase, OrderingPhase, PreparingPhase} \<longrightarrow> m_xiaoju m = []) \<and>
     (m_state m \<in> {InProgressPhase, TiebreakPhase, AwaitingJudgePhase, IntermissionPhase} \<longrightarrow> m_xiaoju m \<noteq> []) \<and>
     (m_state m = IntermissionPhase \<longrightarrow> (\<forall>x \<in> set (m_xiaoju m). x_decided x)) \<and>
     (m_state m = DecidedPhase \<longleftrightarrow> m_winner m \<noteq> None) \<and>
     m_winner m \<in> {None, Some (m_player_a m), Some (m_player_b m)} \<and>
     (m_awaiting_submission_id m \<noteq> None \<longrightarrow> m_state m \<in> {AwaitingJudgePhase, NeedsAdjudicationPhase})"

definition orders_ok :: "match_state \<Rightarrow> bool" where
  "orders_ok m \<longleftrightarrow>
     (\<forall>order. m_order_a m = Some order \<longrightarrow> mset order = mset (m_group_a m)) \<and>
     (\<forall>order. m_order_b m = Some order \<longrightarrow> mset order = mset (m_group_b m))"

definition match_inv :: "match_state \<Rightarrow> bool" where
  "match_inv m \<longleftrightarrow> games_ok m \<and> scores_ok m \<and> extra_ok m \<and> phase_ok m \<and> orders_ok m"

lemmas match_inv_defs = match_inv_def games_ok_def scores_ok_def extra_ok_def phase_ok_def orders_ok_def

lemma match_inv_default: "match_inv match_default"
  by (simp add: match_inv_defs match_default_def wins_of_def wrap_u8_def)

lemma match_inv_new: "match_inv (new_match rdef rnd pos a b)"
  by (simp add: match_inv_defs new_match_def match_default_def wins_of_def wrap_u8_def)

subsection \<open>Rankings\<close>

lemma is_permutation_of_iff: "is_permutation_of order grp \<longleftrightarrow> mset order = mset grp"
  unfolding is_permutation_of_def by (metis mset_sort properties_for_sort sorted_sort)

lemma match_inv_record_order:
  assumes "match_inv m" and "record_order m u order = Inr m'"
  shows "match_inv m'"
  using assms unfolding record_order_def
  by (auto simp: match_inv_defs is_permutation_of_iff split: if_splits)

lemma match_inv_fill:
  assumes "match_inv m" and "m_state m = OrderingPhase"
  shows "match_inv ((fill_missing_orders m)\<lparr>m_state := PreparingPhase\<rparr>)"
  using assms by (auto simp: match_inv_defs fill_missing_orders_def Let_def)

subsection \<open>Opening a game\<close>

lemma pin_extra_time_Inr:
  assumes "pin_extra_time su rdef m = Inr m1"
  shows "m1 = m \<and> m_xiaoju m \<noteq> [] \<or> (\<exists>e. m_xiaoju m = [] \<and> is_i64 (e * 1000) \<and>
    m1 = m\<lparr>m_match_extra_time_seconds := e, m_extra_time_remaining_ms := e * 1000\<rparr>)"
  using assms by (auto simp: pin_extra_time_def Let_def split: if_splits option.splits dest!: check_i64_SomeD)

lemma push_game_Inr:
  assumes "push_game rdef now m = Inr (m', dl, i)"
  obtains x g where "m' = m\<lparr>m_game_durations := Some g, m_xiaoju := m_xiaoju m @ [x]\<rparr>"
    "x_index x = wrap_u8 (length (m_xiaoju m))" "\<not> x_decided x" "x_winner x = None" "x_extra_time_used_ms x = 0"
    "x_opened_at_ms x = now" "x_deadline_ms x = dl" "i = x_index x"
proof -
  from assms obtain base where
    "m' = add_game (pin_durations rdef m) (new_game (wrap_u8 (length (m_xiaoju m))) now base dl) m"
    "i = wrap_u8 (length (m_xiaoju m))"
    unfolding push_game_def Let_def case_option_Inr by blast
  then show ?thesis
    by (intro that [where x = "new_game (wrap_u8 (length (m_xiaoju m))) now base dl" and g = "pin_durations rdef m"])
      (simp_all add: add_game_def new_game_def)
qed

lemma open_game_doc_Inr:
  assumes "open_game_doc su now m = Inr (m', dl, i)"
  obtains x g e r where
    "m' = m\<lparr>m_game_durations := Some g, m_xiaoju := m_xiaoju m @ [x],
            m_match_extra_time_seconds := e, m_extra_time_remaining_ms := r\<rparr>"
    "m_xiaoju m \<noteq> [] \<Longrightarrow> e = m_match_extra_time_seconds m \<and> r = m_extra_time_remaining_ms m"
    "m_xiaoju m = [] \<Longrightarrow> is_i64 (e * 1000) \<and> r = e * 1000"
    "x_index x = wrap_u8 (length (m_xiaoju m))" "\<not> x_decided x" "x_winner x = None" "x_extra_time_used_ms x = 0"
    "x_opened_at_ms x = now" "x_deadline_ms x = dl" "i = x_index x"
proof -
  from assms obtain rdef m1 where m1: "pin_extra_time su rdef m = Inr m1" "push_game rdef now m1 = Inr (m', dl, i)"
    by (auto simp: open_game_doc_def split: option.splits sum.splits)
  from push_game_Inr [OF m1(2)] obtain x g where
    x: "m' = m1\<lparr>m_game_durations := Some g, m_xiaoju := m_xiaoju m1 @ [x]\<rparr>"
      "x_index x = wrap_u8 (length (m_xiaoju m1))" "\<not> x_decided x" "x_winner x = None" "x_extra_time_used_ms x = 0"
      "x_opened_at_ms x = now" "x_deadline_ms x = dl" "i = x_index x" .
  from pin_extra_time_Inr [OF m1(1)] show ?thesis
  proof (elim disjE conjE exE)
    assume "m1 = m" "m_xiaoju m \<noteq> []"
    with x show ?thesis
      by (intro that [where g = g and x = x and e = "m_match_extra_time_seconds m" and r = "m_extra_time_remaining_ms m"]) auto
  next
    fix e
    assume "m_xiaoju m = []" "is_i64 (e * 1000)"
      "m1 = m\<lparr>m_match_extra_time_seconds := e, m_extra_time_remaining_ms := e * 1000\<rparr>"
    with x show ?thesis by (intro that [where g = g and x = x and e = e and r = "e * 1000"]) auto
  qed
qed

lemma wins_of_snoc [simp]: "wins_of u (xs @ [x]) = wins_of u xs + (if x_winner x = Some u then 1 else 0)"
  by (simp add: wins_of_def)

lemma extra_used_snoc [simp]: "extra_used (xs @ [x]) = extra_used xs + x_extra_time_used_ms x"
  by (simp add: extra_used_def)

text \<open>What a document needs so that a game may be opened on it.\<close>

definition openable :: "match_state \<Rightarrow> bool" where
  "openable m \<longleftrightarrow> games_ok m \<and> scores_ok m \<and> extra_ok m \<and> orders_ok m \<and>
     (\<forall>x \<in> set (m_xiaoju m). x_decided x) \<and> m_state m \<in> {InProgressPhase, TiebreakPhase} \<and>
     m_winner m = None \<and> m_awaiting_submission_id m = None"

lemma match_inv_open_game:
  assumes "openable m" and "open_game_doc su now m = Inr (m', dl, i)"
  shows "match_inv m'"
proof -
  from assms(2) obtain x g e r where
    m': "m' = m\<lparr>m_game_durations := Some g, m_xiaoju := m_xiaoju m @ [x],
            m_match_extra_time_seconds := e, m_extra_time_remaining_ms := r\<rparr>"
    and er: "m_xiaoju m \<noteq> [] \<Longrightarrow> e = m_match_extra_time_seconds m \<and> r = m_extra_time_remaining_ms m"
      "m_xiaoju m = [] \<Longrightarrow> is_i64 (e * 1000) \<and> r = e * 1000"
    and x: "x_index x = wrap_u8 (length (m_xiaoju m))" "\<not> x_decided x" "x_winner x = None" "x_extra_time_used_ms x = 0"
    by (rule open_game_doc_Inr) blast
  have "games_ok m'" using assms(1) x by (auto simp: openable_def games_ok_def m' nth_append less_Suc_eq)
  moreover have "scores_ok m'" using assms(1) x by (simp add: openable_def scores_ok_def m')
  moreover have "extra_ok m'"
    using assms(1) x er by (cases "m_xiaoju m = []") (auto simp: openable_def extra_ok_def m' extra_used_def)
  moreover have "phase_ok m'" "orders_ok m'" using assms(1) by (auto simp: openable_def phase_ok_def orders_ok_def m')
  ultimately show ?thesis by (simp add: match_inv_def)
qed

subsection \<open>Settling a game\<close>

lemma wrap_u8_Suc: "wrap_u8 (wrap_u8 n + 1) = wrap_u8 (n + 1)"
  by (simp add: wrap_u8_def mod_simps)

lemma extra_used_nonneg: "\<forall>x \<in> set xs. 0 \<le> x_extra_time_used_ms x \<Longrightarrow> 0 \<le> extra_used xs"
  by (induction xs) (auto simp: extra_used_def)

definition game_extra :: "match_state \<Rightarrow> xiaoju_state \<Rightarrow> i64 \<Rightarrow> i64" where
  "game_extra m x t = (if is_regular_game m (x_index x)
    then clamp_int 0 (m_extra_time_remaining_ms m) (saturating_sub_i64 t (base_deadline_ms x)) else 0)"

lemma settle_game_form:
  assumes "m_xiaoju m = xs @ [x]"
  shows "settle_game m x w t = (GameDecided w,
    m\<lparr>m_xiaoju := xs @ [x\<lparr>x_winner := w, x_decided := True, x_extra_time_used_ms := game_extra m x t\<rparr>],
      m_score_a := (if w = Some (m_player_a m) then wrap_u8 (m_score_a m + 1) else m_score_a m),
      m_score_b := (if w = Some (m_player_b m) \<and> m_player_a m \<noteq> m_player_b m
                    then wrap_u8 (m_score_b m + 1) else m_score_b m),
      m_extra_time_remaining_ms := wrap_i64 (m_extra_time_remaining_ms m - game_extra m x t)\<rparr>)"
  by (cases w) (simp_all add: assms settle_game_def Let_def flip: game_extra_def)

lemma game_extra_bounds:
  "0 \<le> m_extra_time_remaining_ms m \<Longrightarrow> 0 \<le> game_extra m x t \<and> game_extra m x t \<le> m_extra_time_remaining_ms m"
  using clamp_int_bounds [of 0 "m_extra_time_remaining_ms m"] by (simp add: game_extra_def)

lemma extra_ok_settle:
  assumes "extra_ok m" and "m_xiaoju m = xs @ [x]" and "x_extra_time_used_ms x = 0"
    and "m' = snd (settle_game m x w t)"
  shows "extra_ok m'"
proof (cases "0 \<le> m_match_extra_time_seconds m")
  case True
  with assms(1-3) have r: "0 \<le> m_extra_time_remaining_ms m" "\<forall>y \<in> set xs. 0 \<le> x_extra_time_used_ms y"
    "m_extra_time_remaining_ms m + extra_used xs = m_match_extra_time_seconds m * 1000"
    "is_i64 (m_match_extra_time_seconds m * 1000)"
    by (auto simp: extra_ok_def)
  with extra_used_nonneg [OF r(2)] game_extra_bounds [OF r(1), of x t]
  have "is_i64 (m_extra_time_remaining_ms m - game_extra m x t)"
    by (auto simp: rust_int)
  then show ?thesis using r game_extra_bounds [OF r(1), of x t]
    by (simp add: assms(4) settle_game_form [OF assms(2)] extra_ok_def wrap_i64_id)
qed (simp add: assms(4) settle_game_form [OF assms(2)] extra_ok_def)

lemma games_ok_settle:
  assumes "games_ok m" and "m_xiaoju m = xs @ [x]" and "w \<in> {None, Some (m_player_a m), Some (m_player_b m)}"
    and "m' = snd (settle_game m x w t)"
  shows "games_ok m'"
proof -
  have "x_index ((xs @ [y]) ! i) = wrap_u8 i" if "i < Suc (length xs)" "x_index y = x_index x" for i y
    using assms(1,2) that by (auto simp: games_ok_def nth_append dest: spec [where x = i])
  then show ?thesis using assms(1-3)
    by (auto simp: assms(4) settle_game_form [OF assms(2)] games_ok_def)
qed

lemma scores_ok_settle:
  assumes "scores_ok m" and "m_xiaoju m = xs @ [x]" and "x_winner x = None"
    and "m' = snd (settle_game m x w t)"
  shows "scores_ok m'"
  using assms(1,3) wrap_u8_Suc
  by (auto simp: assms(2) assms(4) settle_game_form [OF assms(2)] scores_ok_def)

lemma match_inv_settle_game:
  assumes "match_inv m" and "m_xiaoju m = xs @ [x]" and "\<not> x_decided x"
    and "w \<in> {None, Some (m_player_a m), Some (m_player_b m)}" and "settle_game m x w t = (out, m')"
  shows "match_inv m'"
proof -
  from assms(1-3) have x: "x_winner x = None" "x_extra_time_used_ms x = 0"
    by (auto simp: match_inv_def games_ok_def)
  have m': "m' = snd (settle_game m x w t)" using assms(5) by simp
  have "phase_ok m'" "orders_ok m'"
    using assms(1,3) by (auto simp: m' settle_game_form [OF assms(2)] match_inv_defs assms(2))
  with assms(1) x show ?thesis
    using games_ok_settle [OF _ assms(2,4) m'] scores_ok_settle [OF _ assms(2) _ m']
      extra_ok_settle [OF _ assms(2) _ m'] by (auto simp: match_inv_def)
qed

subsection \<open>After a settled game\<close>

lemma decide_game_moves:
  assumes "list_last (m_xiaoju m) = Some x" and "decide_game_at_cutoff m subs now cutoff pen = (out, m')" and "m' \<noteq> m"
  obtains w t where "\<not> x_decided x" "settle_game m x w t = (out, m')"
    "w = None \<or> (\<exists>s \<in> set subs. w = Some (sr_user_id s))"
proof (cases "x_decided x")
  case True
  with assms decide_game_decided_already show ?thesis by fastforce
next
  case False
  note res = decide_game_open_cases [OF assms(1) False, of cutoff subs now pen]
  from res assms(2,3) show ?thesis
  proof (elim disjE exE bexE conjE)
    fix ac
    assume "best_accepted x cutoff subs = Some ac" "decide_game_at_cutoff m subs now cutoff pen =
        settle_game m x (Some (sr_user_id ac)) (trunc_div (sr_submitted_at_us ac) 1000)"
    with assms(2) best_accepted_Some(1) False show ?thesis
      by (intro that [of "Some (sr_user_id ac)" "trunc_div (sr_submitted_at_us ac) 1000"]) (fastforce simp: eligible_subs_def)+
  qed (use that False in auto)
qed

lemma match_inv_decide_game:
  assumes "match_inv m" and "in_play m" and "\<forall>s \<in> set subs. sr_user_id s \<in> {m_player_a m, m_player_b m}"
    and "decide_game_at_cutoff m subs now cutoff pen = (out, m')"
  shows "match_inv m'"
proof (cases "m' = m")
  case False
  from assms(2) obtain xs x where xs: "m_xiaoju m = xs @ [x]"
    by (metis in_play_def rev_exhaust)
  then have "list_last (m_xiaoju m) = Some x" by (simp add: list_last_def)
  from this assms(4) False obtain w t where "\<not> x_decided x" "settle_game m x w t = (out, m')"
    "w = None \<or> (\<exists>s \<in> set subs. w = Some (sr_user_id s))" by (rule decide_game_moves)
  with xs assms(1,3) match_inv_settle_game show ?thesis by blast
qed (use assms in simp)

lemma openable_resume:
  assumes "match_inv m" and "game_over m"
  shows "openable (resume_phase i m)" "m_xiaoju (resume_phase i m) = m_xiaoju m" "m_xiaoju m \<noteq> []"
proof -
  from assms(2) obtain xs x where xs: "m_xiaoju m = xs @ [x]" "x_decided x"
    by (metis game_over_def in_play_def last_snoc rev_exhaust)
  have "games_ok (resume_phase i m)" "scores_ok (resume_phase i m)" "extra_ok (resume_phase i m)" "orders_ok (resume_phase i m)"
    using assms(1) by (auto simp: match_inv_defs resume_phase_def)
  moreover have "m_state (resume_phase i m) \<in> {InProgressPhase, TiebreakPhase}"
    "m_winner (resume_phase i m) = None" "m_awaiting_submission_id (resume_phase i m) = None"
    using assms by (auto simp: match_inv_def phase_ok_def game_over_def in_play_def resume_phase_def)
  moreover have "\<forall>x \<in> set (m_xiaoju m). x_decided x" using assms(1) xs by (auto simp: match_inv_def games_ok_def)
  ultimately show "openable (resume_phase i m)" by (auto simp: openable_def resume_phase_def)
  show "m_xiaoju (resume_phase i m) = m_xiaoju m" "m_xiaoju m \<noteq> []" using xs by (auto simp: resume_phase_def)
qed

lemma decide_match_openable:
  assumes "openable m" and "m_xiaoju m \<noteq> []" and "decide_match m su = (out, m1)"
  shows "goes_on out \<and> openable m1 \<and> m_xiaoju m1 = m_xiaoju m \<or>
    (\<exists>r. out = MatchNeedsAdjudication \<and> m1 = m\<lparr>m_state := NeedsAdjudicationPhase, m_adjudication_reason := Some r\<rparr>) \<or>
    (\<exists>w \<in> {m_player_a m, m_player_b m}. out = MatchDecided w \<and> m1 = m\<lparr>m_state := DecidedPhase, m_winner := Some w\<rparr>)"
proof -
  from assms(2) obtain xs x where xs: "m_xiaoju m = xs @ [x]" by (metis rev_exhaust)
  with assms(1) have x: "x_decided x" "x_winner x \<in> {None, Some (m_player_a m), Some (m_player_b m)}"
    by (auto simp: openable_def games_ok_def)
  have op: "openable (m\<lparr>m_state := TiebreakPhase, m_tiebreak_index := j\<rparr>)" "openable (m\<lparr>m_tiebreak_index := j\<rparr>)" for j
    using assms(1) by (auto simp: openable_def games_ok_def scores_ok_def extra_ok_def orders_ok_def)
  show ?thesis
  proof (cases "m_state m = TiebreakPhase")
    case True
    with x(1) xs have "decide_match m su =
      (case round_for_match su (m_round m) (m_pos m) of None \<Rightarrow> needs_staff SetupMissing m | Some rdef \<Rightarrow>
        (case x_winner x of Some winner \<Rightarrow> match_won winner m | None \<Rightarrow>
          (case list_get (rd_tiebreak rdef) (m_tiebreak_index m + 1) of
             Some problem \<Rightarrow> (OpenTiebreak problem, m\<lparr>m_tiebreak_index := m_tiebreak_index m + 1\<rparr>)
           | None \<Rightarrow> needs_staff TiebreakExhausted m)))"
      by (simp add: decide_match_def decide_tiebreak_def list_last_def Let_def split: option.splits)
    note res = this [unfolded assms(3)]
    show ?thesis
    proof (cases "round_for_match su (m_round m) (m_pos m)")
      case None
      with res have "out = MatchNeedsAdjudication"
        "m1 = m\<lparr>m_state := NeedsAdjudicationPhase, m_adjudication_reason := Some SetupMissing\<rparr>"
        by (simp_all add: needs_staff_def)
      then show ?thesis by blast
    next
      case rdef: (Some rdef)
      show ?thesis
      proof (cases "x_winner x")
        case (Some w)
        with res rdef x(2) show ?thesis by (auto simp: match_won_def)
      next
        case None
        with res rdef op(2) show ?thesis
          by (cases "list_get (rd_tiebreak rdef) (m_tiebreak_index m + 1)") (simp_all add: needs_staff_def goes_on_def, blast)
      qed
    qed
  next
    case False
    with assms(1) have "m_state m = InProgressPhase" by (simp add: openable_def)
    moreover have "\<not> (\<exists>x \<in> set (m_xiaoju m). \<not> x_decided x)" using assms(1) by (simp add: openable_def)
    ultimately have "decide_match m su =
      (case round_for_match su (m_round m) (m_pos m) of None \<Rightarrow> needs_staff SetupMissing m | Some rdef \<Rightarrow>
         if \<not> max (m_score_a m) (m_score_b m) \<ge> win_target rdef \<and> length (m_xiaoju m) < length (m_group_a m)
         then (MatchNotYet, m)
         else if m_score_a m > m_score_b m then match_won (m_player_a m) m
         else if m_score_a m < m_score_b m then match_won (m_player_b m) m
         else (case list_get (rd_tiebreak rdef) 0 of
                 Some problem \<Rightarrow> (OpenTiebreak problem, m\<lparr>m_state := TiebreakPhase, m_tiebreak_index := 0\<rparr>)
               | None \<Rightarrow> needs_staff TiebreakExhausted m))"
      using assms(2) by (cases "round_for_match su (m_round m) (m_pos m)") (simp_all add: decide_match_def)
    then consider (staff) r where "decide_match m su = needs_staff r m"
      | (won) w where "decide_match m su = match_won w m" "w \<in> {m_player_a m, m_player_b m}"
      | (again) p where "decide_match m su = (OpenTiebreak p, m\<lparr>m_state := TiebreakPhase, m_tiebreak_index := 0\<rparr>)"
      | (more) "decide_match m su = (MatchNotYet, m)"
      by (smt (verit, ccfv_threshold) insertCI option.case_eq_if)
    then show ?thesis
    proof cases
      case (staff r)
      with assms(3) have "out = MatchNeedsAdjudication"
        "m1 = m\<lparr>m_state := NeedsAdjudicationPhase, m_adjudication_reason := Some r\<rparr>"
        by (simp_all add: needs_staff_def)
      then show ?thesis by blast
    next
      case (won w)
      with assms(3) show ?thesis by (auto simp: match_won_def)
    qed (use assms(1,3) op(1) in \<open>auto simp: goes_on_def\<close>)
  qed
qed

lemma match_inv_ended:
  assumes "openable m" and "m_xiaoju m \<noteq> []"
  shows "match_inv (m\<lparr>m_state := NeedsAdjudicationPhase, m_adjudication_reason := r\<rparr>)"
    "w \<in> {m_player_a m, m_player_b m} \<Longrightarrow> match_inv (m\<lparr>m_state := DecidedPhase, m_winner := Some w, m_decided_at_ms := t\<rparr>)"
    "match_inv (m\<lparr>m_state := IntermissionPhase, m_next_game_at_ms := n\<rparr>)"
    "match_inv (m\<lparr>m_state := NeedsAdjudicationPhase, m_adjudication_reason := r, m_awaiting_submission_id := None\<rparr>)"
  using assms by (auto simp: openable_def match_inv_defs)

lemma settle_match_inv:
  assumes "match_inv m" and "game_over m" and "settle_match su m = (out, m1)"
  shows "out = MatchDecided w \<Longrightarrow> match_inv (m1\<lparr>m_decided_at_ms := t\<rparr>)"
    "out = MatchNeedsAdjudication \<Longrightarrow> match_inv m1"
    "goes_on out \<Longrightarrow> openable m1" "goes_on out \<Longrightarrow> m_xiaoju m1 \<noteq> []"
proof -
  define m0 where "m0 = resume_phase (x_index (last (m_xiaoju m))) m"
  have m0: "openable m0" "m_xiaoju m0 \<noteq> []" and dm: "decide_match m0 su = (out, m1)"
    using openable_resume [OF assms(1,2)] assms(3) by (simp_all add: m0_def settle_match_def)
  note res = decide_match_openable [OF m0 dm]
  show "out = MatchDecided w \<Longrightarrow> match_inv (m1\<lparr>m_decided_at_ms := t\<rparr>)"
    using res match_inv_ended(2) [OF m0, of w t] by (auto simp: goes_on_def)
  show "out = MatchNeedsAdjudication \<Longrightarrow> match_inv m1"
    using res match_inv_ended(1) [OF m0] by (auto simp: goes_on_def)
  show "goes_on out \<Longrightarrow> openable m1" "goes_on out \<Longrightarrow> m_xiaoju m1 \<noteq> []"
    using res m0(2) by (auto simp: goes_on_def)
qed

section \<open>The invariant\<close>

lemma match_inv_frame:
  assumes "match_inv m" and "phase_ok m'"
    and "m_xiaoju m' = m_xiaoju m" "m_player_a m' = m_player_a m" "m_player_b m' = m_player_b m"
    and "m_score_a m' = m_score_a m" "m_score_b m' = m_score_b m"
    and "m_match_extra_time_seconds m' = m_match_extra_time_seconds m"
    and "m_extra_time_remaining_ms m' = m_extra_time_remaining_ms m"
    and "m_order_a m' = m_order_a m" "m_order_b m' = m_order_b m"
    and "m_group_a m' = m_group_a m" "m_group_b m' = m_group_b m"
  shows "match_inv m'"
  using assms(1,2) unfolding match_inv_def games_ok_def scores_ok_def extra_ok_def orders_ok_def assms(3-) by simp

lemma no_winner_yet: "phase_ok m \<Longrightarrow> m_state m \<noteq> DecidedPhase \<Longrightarrow> m_winner m = None"
  unfolding phase_ok_def by blast

lemma not_playing:
  assumes "match_inv m" and "m_state m \<in> {OrderingPhase, PreparingPhase, IntermissionPhase}"
  shows "\<forall>x \<in> set (m_xiaoju m). x_decided x" "m_winner m = None" "m_awaiting_submission_id m = None"
proof -
  note ph = assms(1) [unfolded match_inv_def phase_ok_def]
  show "\<forall>x \<in> set (m_xiaoju m). x_decided x" using ph assms(2) by (cases "m_state m = IntermissionPhase") auto
  show "m_winner m = None" using ph assms(2) by auto
  show "m_awaiting_submission_id m = None" using ph assms(2) by auto
qed

lemma openable_frame:
  assumes "match_inv m" and "\<forall>x \<in> set (m_xiaoju m). x_decided x" "m_winner m = None" "m_awaiting_submission_id m = None"
    and "ph \<in> {InProgressPhase, TiebreakPhase}"
  shows "openable (m\<lparr>m_state := ph, m_next_game_at_ms := n\<rparr>)"
  using assms unfolding openable_def match_inv_def games_ok_def scores_ok_def extra_ok_def orders_ok_def by simp

theorem match_moves_inv:
  assumes "match_moves m m'" and "match_inv m"
  shows "match_inv m'"
  using assms
proof (induction rule: match_moves.induct)
  case (rank m u order m')
  then show ?case using match_inv_record_order by blast
next
  case (close_ordering m m')
  then show ?case using match_inv_fill by blast
next
  case (start m su now m' dl i)
  then have "openable (m\<lparr>m_state := InProgressPhase\<rparr>)"
    using openable_frame [of m InProgressPhase "m_next_game_at_ms m"] not_playing [of m] by auto
  from match_inv_open_game [OF this start(2)] show ?case .
next
  case (resume m ph su now m' dl i)
  then have "openable (m\<lparr>m_state := ph, m_next_game_at_ms := None\<rparr>)"
    using not_playing [of m] by (intro openable_frame) auto
  from match_inv_open_game [OF this resume(3)] show ?case .
next
  case (settle m subs now cutoff pen out m')
  then show ?case using match_inv_decide_game by blast
next
  case (await m m' b)
  then have "m_winner m = None" using no_winner_yet by (auto simp: match_inv_def in_play_def)
  with await have "phase_ok m'" by (simp add: match_inv_def phase_ok_def in_play_def)
  with await show ?case by - (rule match_inv_frame [of m], simp_all)
next
  case (win m su w m1 m' now)
  from settle_match_inv(1) [OF \<open>match_inv m\<close> \<open>game_over m\<close>] win(2,3) show ?case by blast
next
  case (exhausted m su m')
  from settle_match_inv(2) [OF \<open>match_inv m\<close> \<open>game_over m\<close>] exhausted(2) show ?case by blast
next
  case (next_game m su out m1 now m' dl i)
  from settle_match_inv(3) [OF \<open>match_inv m\<close> \<open>game_over m\<close>] next_game(2,3,4) match_inv_open_game show ?case by blast
next
  case (pause m su out m1 m' at_ms)
  from settle_match_inv(3,4) [OF \<open>match_inv m\<close> \<open>game_over m\<close>] pause(2,3) match_inv_ended(3) show ?case unfolding pause(4) by blast
next
  case (cut_short m su out m1 m')
  from settle_match_inv(3,4) [OF \<open>match_inv m\<close> \<open>game_over m\<close>] cut_short(2,3) match_inv_ended(4) show ?case unfolding cut_short(4) by blast
next
  case (contest_over m m' a n)
  then have "phase_ok m'" by (simp add: match_inv_def phase_ok_def in_play_def)
  with contest_over show ?case by - (rule match_inv_frame [of m], simp_all)
next
  case (lost_setup m m')
  then have "m_winner m = None" using no_winner_yet by (auto simp: match_inv_def in_play_def)
  with lost_setup have "phase_ok m'" by (simp add: match_inv_def phase_ok_def in_play_def)
  with lost_setup show ?case by - (rule match_inv_frame [of m], simp_all)
next
  case (stuck m m')
  then have "phase_ok m'" by (simp add: match_inv_def phase_ok_def in_play_def)
  with stuck show ?case by - (rule match_inv_frame [of m], simp_all)
next
  case (forced m w now m')
  then have w: "w \<in> {m_player_a m, m_player_b m}" and m': "m' = m\<lparr>m_state := DecidedPhase, m_winner := Some w,
      m_next_game_at_ms := None, m_decided_at_ms := now, m_awaiting_submission_id := None, m_adjudication_reason := None\<rparr>"
    by (auto simp: apply_force_decide_def split: if_splits)
  then have "phase_ok m'" by (simp add: phase_ok_def)
  with \<open>match_inv m\<close> m' show ?case by - (rule match_inv_frame [of m], simp_all)
qed

abbreviation match_run :: "match_state \<Rightarrow> match_state \<Rightarrow> bool" where
  "match_run \<equiv> match_moves\<^sup>*\<^sup>*"

lemma match_run_inv: "match_run m m' \<Longrightarrow> match_inv m \<Longrightarrow> match_inv m'"
  by (induction rule: rtranclp_induct) (auto intro: match_moves_inv)

lemma match_moves_decided: "match_moves m m' \<Longrightarrow> m_state m \<noteq> DecidedPhase"
  by (induction rule: match_moves.induct)
    (auto simp: record_order_def apply_force_decide_def in_play_def game_over_def split: if_splits)

lemma match_run_decided: "match_run m m' \<Longrightarrow> m_state m = DecidedPhase \<Longrightarrow> m' = m"
  by (induction rule: converse_rtranclp_induct) (auto dest: match_moves_decided)

section \<open>The updates of the engine are runs of the machine\<close>

lemma or_throw_Inr [simp]: "or_throw msg x d = (Inr v, d') \<longleftrightarrow> x = Some v \<and> d' = d"
  by (auto simp: or_throw_def hret_def hthrow_def split: option.splits)

lemma open_xiaoju_at_Inr:
  "open_xiaoju_at contest mid su ck now m d = (Inr m', d') \<Longrightarrow> \<exists>dl i. open_game_doc su now m = Inr (m', dl, i)"
  by (auto simp: open_xiaoju_at_def hbind_Inr case_sum_call_Inr)

lemma contest_over_run:
  assumes "m_state m \<notin> {PendingPhase, DecidedPhase, NeedsAdjudicationPhase}" and "a \<in> {None, m_awaiting_submission_id m}"
  shows "match_run m (m\<lparr>m_state := NeedsAdjudicationPhase, m_adjudication_reason := Some ContestEnded,
    m_awaiting_submission_id := a, m_next_game_at_ms := n\<rparr>)"
  using contest_over [OF assms(1) refl assms(2)] by blast

lemma contest_over_keep:
  assumes "m_state m \<notin> {PendingPhase, DecidedPhase, NeedsAdjudicationPhase}"
  shows "match_run m (m\<lparr>m_state := NeedsAdjudicationPhase, m_adjudication_reason := Some ContestEnded\<rparr>)"
    "match_run m (m\<lparr>m_state := NeedsAdjudicationPhase, m_adjudication_reason := Some ContestEnded, m_next_game_at_ms := n\<rparr>)"
    "match_run m (m\<lparr>m_state := NeedsAdjudicationPhase, m_adjudication_reason := Some ContestEnded,
       m_awaiting_submission_id := None\<rparr>)"
  using contest_over_run [OF assms, of "m_awaiting_submission_id m" "m_next_game_at_ms m"]
    contest_over_run [OF assms, of "m_awaiting_submission_id m" n]
    contest_over_run [OF assms, of None "m_next_game_at_ms m"] by simp_all

lemma prepare_step_run:
  assumes "prepare_step contest mid su stage ck m d = (Inr m', d')"
  shows "match_run m m'"
proof (cases "m_state m \<notin> {OrderingPhase, PreparingPhase} \<or> contest_ended ck")
  case True
  then show ?thesis
    using assms contest_over_keep(1) [of m] by (auto simp: prepare_step_def split: if_splits)
next
  case False
  define m1 where "m1 = (if ck_now ck \<ge> sk_ordering_deadline_ms stage \<and> m_state m = OrderingPhase
    then (fill_missing_orders m)\<lparr>m_state := PreparingPhase\<rparr> else m)"
  have "match_run m m1" using close_ordering [of m] by (auto simp: m1_def)
  moreover have "match_run m1 m'"
  proof -
    have "(m_state m \<notin> {OrderingPhase, PreparingPhase}) = False" "contest_ended ck = False" using False by auto
    with assms have res: "(if ck_now ck \<ge> sk_starts_at_ms stage \<and> m_state m1 = PreparingPhase
        then open_xiaoju_at contest mid su ck (sk_starts_at_ms stage) (m1\<lparr>m_state := InProgressPhase\<rparr>)
        else hret m1) d = (Inr m', d')"
      unfolding prepare_step_def Let_def m1_def [symmetric] by (simp only: if_False)
    then show ?thesis using start [of m1] open_xiaoju_at_Inr by (fastforce split: if_splits)
  qed
  ultimately show ?thesis by simp
qed

lemma start_at_ms_phase: "start_at_ms su matches m t = Some u \<Longrightarrow> m_state m \<in> {OrderingPhase, PreparingPhase}"
  by (auto simp: start_at_ms_def bind_eq_Some_conv split: if_splits)

lemma start_step_run:
  assumes "start_step contest mid su matches t ck m d = (Inr m', d')"
  shows "match_run m m'"
proof (cases "start_at_ms su matches m t")
  case (Some u)
  with assms open_xiaoju_at_Inr start [OF start_at_ms_phase [OF Some]] show ?thesis
    by (fastforce simp: start_step_def open_xiaoju_def)
qed (use assms in \<open>simp add: start_step_def\<close>)

lemma escalate_step_run: "escalate_step m d = (Inr m', d') \<Longrightarrow> match_run m m'"
  using stuck [of m m'] by (auto simp: escalate_step_def split: if_splits)

lemma force_step_run: "force_step contest mid w m d = (Inr m', d') \<Longrightarrow> match_run m m'"
  by (auto simp: force_step_def hbind_Inr case_sum_call_Inr intro: forced)

lemma order_step_run: "order_step window u order m d = (Inr m', d') \<Longrightarrow> match_run m m'"
  by (auto simp: order_step_def hbind_Inr case_sum_call_Inr intro: rank)

subsection \<open>One step of a match\<close>

lemma step_intermission_run:
  assumes "m_state m = IntermissionPhase" and "step_intermission contest mid su m d = (Inr m', d')"
  shows "match_run m m'"
proof -
  from assms(2) obtain ck d1 where
    res: "(if contest_ended ck then hret (m\<lparr>m_state := NeedsAdjudicationPhase, m_adjudication_reason := Some ContestEnded,
             m_next_game_at_ms := None\<rparr>)
      else hbind (or_throw ''Missing intermission deadline'' (m_next_game_at_ms m)) (\<lambda>at_ms.
        if ck_now ck < at_ms then
          hbind (timer_schedule at_ms (start_timer_key contest mid) []) (\<lambda>_. hret m)
        else open_xiaoju_at contest mid su ck at_ms
          (m\<lparr>m_state := (if is_regular_game m (wrap_u8 (length (m_xiaoju m))) then InProgressPhase else TiebreakPhase),
             m_next_game_at_ms := None\<rparr>))) d1 = (Inr m', d')"
    unfolding step_intermission_def hbind_Inr by blast
  then consider "contest_ended ck" | at_ms where "\<not> contest_ended ck" "m' = m"
    | at_ms where "\<not> contest_ended ck" "open_xiaoju_at contest mid su ck at_ms
          (m\<lparr>m_state := (if is_regular_game m (wrap_u8 (length (m_xiaoju m))) then InProgressPhase else TiebreakPhase),
             m_next_game_at_ms := None\<rparr>) d1 = (Inr m', d')"
    by (auto simp: hbind_Inr split: if_splits)
  then show ?thesis
  proof cases
    case 1
    with res contest_over_keep(2) [of m] assms(1) show ?thesis by auto
  next
    case 3
    then obtain dl i where "open_game_doc su at_ms (m\<lparr>m_state := (if is_regular_game m (wrap_u8 (length (m_xiaoju m)))
        then InProgressPhase else TiebreakPhase), m_next_game_at_ms := None\<rparr>) = Inr (m', dl, i)"
      using open_xiaoju_at_Inr by blast
    from resume [OF assms(1) _ this] show ?thesis by auto
  qed simp
qed

lemma step_awaiting_run:
  assumes "in_play m" and "\<not> x_decided (last (m_xiaoju m))" and "step_awaiting contest mid su index now b m d = (Inr m', d')"
  shows "match_run m m'"
proof -
  from assms(3) have "m' = m\<lparr>m_state := AwaitingJudgePhase, m_awaiting_submission_id := Some b\<rparr>"
    unfolding step_awaiting_def Let_def by (auto simp: hbind_Inr split: if_splits)
  with await [OF assms(1,2)] show ?thesis by blast
qed

lemma in_play_ended:
  assumes "in_play m"
  shows "m_state m \<notin> {PendingPhase, DecidedPhase, NeedsAdjudicationPhase}"
  using assms by (auto simp: in_play_def)

lemma escalate_contest_ended_Inr:
  "escalate_contest_ended contest mid index m d = (Inr m', d') \<Longrightarrow>
   m' = m\<lparr>m_state := NeedsAdjudicationPhase, m_adjudication_reason := Some ContestEnded,
          m_awaiting_submission_id := None\<rparr>"
  by (auto simp: escalate_contest_ended_def hbind_Inr)

lemma step_decided_run:
  assumes "game_over m" and "index = x_index (last (m_xiaoju m))"
    and "step_decided contest mid su rdef index ck m d = (Inr m', d')"
  shows "match_run m m'"
proof -
  obtain out m1 where dm: "settle_match su m = (out, m1)" by (cases "settle_match su m")
  then have dm': "decide_match (resume_phase index m) su = (out, m1)" by (simp add: settle_match_def assms(2))
  show ?thesis
  proof (cases "goes_on out")
    case False
    note res = assms(3) [unfolded step_decided_def dm' Let_def prod.case]
    from False consider "out = MatchNeedsAdjudication" | w where "out = MatchDecided w"
      by (cases out) (auto simp: goes_on_def)
    then have "out = MatchNeedsAdjudication \<and> m' = m1 \<or> (\<exists>w. out = MatchDecided w \<and> m' = m1\<lparr>m_decided_at_ms := ck_now ck\<rparr>)"
      using res by cases simp_all
    then show ?thesis
    proof (elim disjE conjE exE)
      assume "out = MatchNeedsAdjudication" "m' = m1"
      with dm exhausted [OF assms(1)] show ?thesis by (metis r_into_rtranclp)
    next
      fix w
      assume "out = MatchDecided w" "m' = m1\<lparr>m_decided_at_ms := ck_now ck\<rparr>"
      with dm win [OF assms(1)] show ?thesis by (metis r_into_rtranclp)
    qed
  next
    case True
    with assms(3) dm' have "(if contest_ended ck then escalate_contest_ended contest mid index m1
        else if game_break rdef = 0 then open_xiaoju contest mid su ck m1
        else hbind (or_throw ''Intermission deadline overflow''
                 (Option.bind (checked_mul_i64 (game_break rdef) 1000) (\<lambda>dur. checked_add_i64 (ck_now ck) dur)))
               (\<lambda>at_ms. hbind (timer_schedule at_ms (start_timer_key contest mid) []) (\<lambda>_.
                  hret (m1\<lparr>m_state := IntermissionPhase, m_next_game_at_ms := Some at_ms\<rparr>)))) d = (Inr m', d')"
      by (cases out) (simp_all add: step_decided_def goes_on_def)
    then consider "escalate_contest_ended contest mid index m1 d = (Inr m', d')"
      | "open_xiaoju_at contest mid su ck (ck_now ck) m1 d = (Inr m', d')"
      | at_ms where "m' = m1\<lparr>m_state := IntermissionPhase, m_next_game_at_ms := Some at_ms\<rparr>"
      by (auto simp: hbind_Inr open_xiaoju_def split: if_splits)
    then show ?thesis
    proof cases
      case 1
      from cut_short [OF assms(1) dm True escalate_contest_ended_Inr [OF this]] show ?thesis by blast
    next
      case 2
      with open_xiaoju_at_Inr next_game [OF assms(1) dm True] show ?thesis by blast
    next
      case 3
      from pause [OF assms(1) dm True this] show ?thesis by blast
    qed
  qed
qed

lemma decide_game_over:
  assumes "in_play m" and "decide_game_at_cutoff m subs now cutoff pen = (GameDecided w, m')"
  shows "game_over m' \<and> x_index (last (m_xiaoju m')) = x_index (last (m_xiaoju m))"
proof -
  from assms(1) obtain xs x where xs: "m_xiaoju m = xs @ [x]" by (metis in_play_def rev_exhaust)
  then have last: "list_last (m_xiaoju m) = Some x" by (simp add: list_last_def)
  show ?thesis
  proof (cases "m' = m")
    case True
    have decided: "x_decided (last (m_xiaoju (snd (settle_game m x w' t))))" for w' t
      by (simp add: settle_game_form [OF xs])
    have "x_decided x"
    proof (rule ccontr)
      assume "\<not> x_decided x"
      from decide_game_open_cases [OF last this, of cutoff subs now pen] assms(2)
      have "\<exists>w' t. settle_game m x w' t = (GameDecided w, m')" by (elim disjE exE bexE conjE) auto
      with decided True xs \<open>\<not> x_decided x\<close> show False by (metis last_snoc snd_conv)
    qed
    with assms(1) True xs show ?thesis by (simp add: game_over_def)
  next
    case False
    from last assms(2) False obtain w' t where "settle_game m x w' t = (GameDecided w, m')" by (rule decide_game_moves)
    with assms(1) show ?thesis by (auto simp: settle_game_form [OF xs] game_over_def in_play_def xs)
  qed
qed

lemma decide_game_undecided:
  assumes "in_play m" and "decide_game_at_cutoff m subs now cutoff pen = (out, m')" and "\<nexists>w. out = GameDecided w"
  shows "m' = m \<and> \<not> x_decided (last (m_xiaoju m))"
proof -
  from assms(1) obtain xs x where xs: "m_xiaoju m = xs @ [x]" by (metis in_play_def rev_exhaust)
  then have last: "list_last (m_xiaoju m) = Some x" by (simp add: list_last_def)
  show ?thesis
  proof (cases "x_decided x")
    case True
    with assms(2,3) decide_game_decided_already [OF last] show ?thesis by auto
  next
    case False
    with decide_game_moves [OF last assms(2)] assms(3) xs show ?thesis
      by (metis last_snoc prod.inject settle_game_form)
  qed
qed

lemma step_game_run:
  assumes "in_play m" and "\<forall>s \<in> set subs. sr_user_id s \<in> {m_player_a m, m_player_b m}"
    and "step_game contest mid su rdef (last (m_xiaoju m)) ck subs m d = (Inr m', d')"
  shows "match_run m m'"
proof -
  obtain out m1 where dg: "decide_game_at_cutoff m subs (ck_now ck)
      (clock_cutoff ck (x_deadline_ms (last (m_xiaoju m)))) (su_penalty_seconds su) = (out, m1)"
    by (metis surj_pair)
  have run: "match_run m m1" using settle [OF assms(1,2) dg] by blast
  note step = assms(3) [unfolded step_game_def dg Let_def prod.case]
  show ?thesis
  proof (cases out)
    case (GameDecided w)
    from decide_game_over [OF assms(1) dg [unfolded GameDecided]] step GameDecided
    have "match_run m1 m'" by (intro step_decided_run) auto
    with run show ?thesis by simp
  next
    case (GameAwaitingJudge b)
    with decide_game_undecided [OF assms(1) dg] step step_awaiting_run [OF assms(1)] show ?thesis by auto
  next
    case GameNotYet
    with decide_game_undecided [OF assms(1) dg] have und: "m1 = m" "\<not> x_decided (last (m_xiaoju m))" by auto
    from step GameNotYet consider b where "step_awaiting contest mid su (x_index (last (m_xiaoju m))) (ck_now ck) b m1 d = (Inr m', d')"
      | "escalate_contest_ended contest mid (x_index (last (m_xiaoju m))) m1 d = (Inr m', d')" | "m' = m1"
      by (auto simp: hbind_Inr split: if_splits option.splits)
    then show ?thesis
    proof cases
      case 1
      with und step_awaiting_run [OF assms(1)] show ?thesis by blast
    next
      case 2
      from escalate_contest_ended_Inr [OF 2] contest_over_keep(3) [OF in_play_ended [OF assms(1)]] und(1)
      show ?thesis by simp
    qed (use und in simp)
  qed
qed

lemma fetch_subs_users:
  assumes "fetch_subs contest m rdef d = (Inr subs, d')"
  shows "\<forall>s \<in> set subs. sr_user_id s \<in> {m_player_a m, m_player_b m}"
proof (cases "current_problem m rdef (m_player_a m) = None \<and> current_problem m rdef (m_player_b m) = None")
  case False
  from assms [unfolded fetch_subs_def Let_def if_not_P [OF False] hbind_Inr] obtain rows d1 fbs where
    rows: "db_query (game_rows contest m (current_problem m rdef (m_player_a m)) (current_problem m rdef (m_player_b m))) d = (Inr rows, d1)"
    and "subs = filter (\<lambda>s. case list_last (m_xiaoju m) of
        Some game \<Rightarrow> contains_submission_at_us game (sr_submitted_at_us s) | None \<Rightarrow> False)
      (map (sub_record (map (\<lambda>r. (fb_submission_id r, effective_time r)) fbs)) rows)"
    by auto
  then show ?thesis using db_query_Inr [OF rows] by (auto simp: game_rows_def sub_record_def)
qed (use assms in \<open>simp add: fetch_subs_def\<close>)

lemma step_run:
  assumes "step contest mid su m d = (Inr m', d')"
  shows "match_run m m'"
proof (cases "m_state m = IntermissionPhase")
  case True
  with assms step_intermission_run show ?thesis by (simp add: step_def)
next
  case False
  show ?thesis
  proof (cases "in_play m")
    case True
    then have last: "list_last (m_xiaoju m) = Some (last (m_xiaoju m))"
      and ph: "(m_state m \<notin> {InProgressPhase, TiebreakPhase, AwaitingJudgePhase}) = False"
      by (auto simp: in_play_def list_last_def)
    note res = assms [unfolded step_def last ph if_False option.case if_not_P [OF False]]
    show ?thesis
    proof (cases "round_for_match su (m_round m) (m_pos m)")
      case None
      moreover have "m_state m \<noteq> DecidedPhase" "m_state m \<noteq> NeedsAdjudicationPhase" using in_play_ended [OF True] by auto
      ultimately have "m' = m\<lparr>m_state := NeedsAdjudicationPhase, m_adjudication_reason := Some SetupMissing\<rparr>"
        using res by (simp add: decide_match_def needs_staff_def)
      from lost_setup [OF True this] show ?thesis by blast
    next
      case (Some rdef)
      with res obtain ck d1 subs d2 where subs: "fetch_subs contest m rdef d1 = (Inr subs, d2)"
        and game: "step_game contest mid su rdef (last (m_xiaoju m)) ck subs m d2 = (Inr m', d')"
        by (auto simp: hbind_Inr)
      from step_game_run [OF True fetch_subs_users [OF subs] game] show ?thesis .
    qed
  next
    case out: False
    with False assms have "m' = m"
      by (auto simp: step_def in_play_def list_last_def split: if_splits)
    then show ?thesis by simp
  qed
qed

end
