(* ===== verification/BracketWorld.thy ===== *)
theory BracketWorld
  imports BracketMachine
begin

text \<open>
  What the whole engine may do to the world, for any interleaving with other writers. A
  relation on worlds that allows the elementary writes of the plugin is kept by every
  operation of the engine; the relations it is used with are that match documents follow the
  state machine, that the judge's tables stay as they are and that published feedback is
  final.
\<close>

section \<open>Elementary writes\<close>

locale world_rel = state_rel R
  for R :: "'z bworld \<Rightarrow> 'z bworld \<Rightarrow> bool" +
  assumes rel_faults: "R d (d\<lparr>db_faults := fs\<rparr>)"
    and rel_timers: "R d (d\<lparr>p_timers := ts\<rparr>)"
    and rel_feedback: "feedback_update i act d = Inr (out, d') \<Longrightarrow> R d d'"
    and rel_slot: "R d (put_entry (slot_key contest rnd pos) (TextDoc t) d)"
    and rel_setup: "R d (put_entry (setup_key contest) (SetupDoc su) d)"
    and rel_new: "h_storage d (match_key contest mid) = None \<Longrightarrow>
      R d (put_entry (match_key contest mid) (MatchDoc (new_match rdef rnd pos a b)) d)"
    and rel_match: "read_or_default dec_match match_default (h_storage d (match_key contest mid)) = Inr m \<Longrightarrow>
      match_run m m' \<Longrightarrow> R d (put_entry (match_key contest mid) (MatchDoc m') d)"
begin

lemma hrel_trap: "hrel R m \<Longrightarrow> hrel R (trap m)"
  by (auto simp: hrel_def trap_def split: prod.splits sum.splits) (metis snd_conv)+

lemma hrel_lift_sdk: "hrel R m \<Longrightarrow> hrel R (lift_sdk m)"
  by (auto simp: hrel_def lift_sdk_def split: prod.splits sum.splits) (metis snd_conv)+

lemma hrel_db_query: "hrel R (db_query q)"
  by (rule hrelI) (auto elim: db_query_cases simp: rel_faults)

lemma hrel_execute:
  assumes "\<And>d. R d (snd (stmt d))"
  shows "hrel R (execute stmt)"
proof (rule hrelI)
  fix d :: "'z bworld" and r d'
  assume "execute stmt d = (r, d')"
  then show "R d d'"
  proof (cases rule: execute_cases)
    case (fault msg rest)
    then show ?thesis by (simp add: rel_faults)
  next
    case (ok n rest)
    then show ?thesis using assms [of "d\<lparr>db_faults := rest\<rparr>"] rel_faults [of d rest] rel_trans by (metis snd_conv)
  qed
qed

lemma hrel_transact:
  assumes "\<And>d x d'. txn d = Inr (x, d') \<Longrightarrow> R d d'"
  shows "hrel R (transact txn fail)"
proof (rule hrelI)
  fix d :: "'z bworld" and r d'
  assume "transact txn fail d = (r, d')"
  then show "R d d'"
  proof (cases rule: transact_cases)
    case (commit x)
    then show ?thesis using assms rel_faults rel_trans by blast
  qed (simp_all add: rel_faults)
qed

lemma hrel_timer_schedule: "hrel R (timer_schedule t key payload)"
proof -
  have "hrel R (\<lambda>d. if \<not> p_representable d t then hthrow (HostCall (lit ''fire_at_ms is out of range'')) d
      else trap (hbind (execute (\<lambda>d. (1, timer_put key t payload d))) (\<lambda>_. hret ())) d)"
  proof (rule hrelI)
    fix d :: "'z bworld" and r d'
    assume run: "(if \<not> p_representable d t then hthrow (HostCall (lit ''fire_at_ms is out of range'')) d
      else trap (hbind (execute (\<lambda>d. (1, timer_put key t payload d))) (\<lambda>_. hret ())) d) = (r, d')"
    have "hrel R (trap (hbind (execute (\<lambda>d. (1, timer_put key t payload d))) (\<lambda>_. hret ())))"
      by (intro hrel_trap hrel_hbind hrel_execute hrel_hret) (simp add: timer_put_def rel_timers)
    with run show "R d d'" by (auto simp: hthrow_def rel_refl split: if_splits dest: hrelD)
  qed
  then show ?thesis unfolding timer_schedule_def by (intro hrel_basic hrel_trap hrel_db_query)
qed

lemma hrel_timer_cancel: "hrel R (timer_cancel key)"
  unfolding timer_cancel_def by (intro hrel_trap hrel_hbind hrel_execute hrel_hret) (simp add: rel_timers)

lemma hrel_update_feedback: "hrel R (update_feedback i a)"
  unfolding update_feedback_def by (intro hrel_transact) (rule rel_feedback)

lemma hrel_feedback_loop: "hrel R (feedback_loop n q rs)"
  by (induction n arbitrary: q rs)
    (auto simp: feedback_def Let_def intro!: hrel_hthrow hrel_hbind hrel_hret hrel_db_query)

lemma hrel_feedback_all: "hrel R (feedback_all q)"
  using hrel_feedback_loop unfolding hrel_def feedback_all_def by blast

lemma hrel_compare_and_set_snapshot:
  assumes "\<And>d. h_storage d key = snap \<Longrightarrow> R d (put_entry key new d)"
  shows "hrel R (compare_and_set_snapshot key snap new)"
proof -
  have "R d (snd (cas_statement key (map_option fst snap) new (map_option snd snap) d))" for d
    using assms [of d] rel_refl [of d] by (auto simp: cas_statement_def split: option.splits)
  then show ?thesis unfolding compare_and_set_snapshot_def compare_and_set_def
    by (intro hrel_trap hrel_hbind hrel_execute hrel_if hrel_hret hrel_hthrow)
qed

lemma hrel_modify_loop:
  fixes key :: string and f :: "'t \<Rightarrow> ('z, 't) bcall"
  assumes "\<And>n d. R d (itf n d)" and "\<And>x. hrel R (f x)"
    and "\<And>d x new s t. read_or_default dec dflt (h_storage d key) = Inr x \<Longrightarrow> f x s = (Inr new, t) \<Longrightarrow>
      R d (put_entry key (enc new) d)"
  shows "hrel R (modify_loop n itf dec enc dflt key f)"
proof (induction n)
  case 0
  then show ?case by (simp add: hrel_hthrow)
next
  case (Suc n)
  have "hrel R (\<lambda>d. hbind (compare_and_set_snapshot key snap (enc new)) (\<lambda>swapped.
      if swapped then hret new else modify_loop n itf dec enc dflt key f) (itf n d))"
    if "read_or_default dec dflt snap = Inr x" "f x s = (Inr new, t)" for snap x new s t
  proof (rule hrel_after [OF assms(1)], rule hrel_hbind)
    show "hrel R (compare_and_set_snapshot key snap (enc new))"
      using that assms(3) by (intro hrel_compare_and_set_snapshot) blast
    show "hrel R (if swapped then hret new else modify_loop n itf dec enc dflt key f)" for swapped
      using Suc by (simp add: hrel_hret)
  qed
  then show ?case
    by (auto simp: storage_snapshot_def intro!: hrel_hbind hrel_trap hrel_db_query hrel_sum hrel_hthrow hrel_hbind_value [OF assms(2)])
qed

end

section \<open>The engine\<close>

context world_rel
begin

lemma hrel_storage_read:
  "hrel R (storage_get_one key)" "hrel R (storage_snapshot key)" "hrel R (storage_get keys)" "hrel R (storage_scan p after)"
  unfolding storage_get_one_def storage_snapshot_def storage_get_def storage_scan_def
  by (intro hrel_basic hrel_trap hrel_db_query)+

lemma hrel_or_throw: "hrel R (or_throw msg x)"
  unfolding or_throw_def by (intro hrel_basic)

lemma hrel_scan_loop: "hrel R (scan_loop n prefix after acc)"
  by (induction n arbitrary: after acc) (auto intro!: hrel_basic hrel_storage_read)

lemma hrel_load_all_matches: "hrel R (load_all_matches contest)"
proof -
  have "hrel R (hbind (scan_loop n (match_prefix contest) None []) (\<lambda>ms. hret (sort_key fst ms)))" for n
    by (intro hrel_basic hrel_scan_loop)
  then show ?thesis unfolding hrel_def load_all_matches_def by blast
qed

lemma hrel_load:
  "hrel R (load_match contest mid)" "hrel R (load_setup contest)" "hrel R (contest_times_of contest)"
  "hrel R now_ms" "hrel R (read_clock contest)"
  unfolding load_match_def load_setup_def contest_times_of_def now_ms_def read_clock_def
  by (intro hrel_basic hrel_storage_read hrel_db_query)+

lemma hrel_release: "hrel R (release_feedback i r)" "hrel R (release_slot i)"
  unfolding release_feedback_def release_slot_def by (intro hrel_basic hrel_update_feedback)+

lemma hrel_fetch_subs: "hrel R (fetch_subs contest m rdef)"
  unfolding fetch_subs_def by (intro hrel_basic hrel_db_query hrel_feedback_all)

lemmas hrel_reads = hrel_storage_read hrel_or_throw hrel_load hrel_load_all_matches hrel_db_query
  hrel_feedback_all hrel_fetch_subs hrel_timer_schedule hrel_timer_cancel hrel_release

lemma hrel_open_xiaoju: "hrel R (open_xiaoju_at contest mid su ck now m)" "hrel R (open_xiaoju contest mid su ck m)"
  unfolding open_xiaoju_def open_xiaoju_at_def by (intro hrel_basic hrel_reads)+

lemma hrel_step_parts:
  "hrel R (schedule_wakeups contest mid m current ck subs pen)" "hrel R (escalate_contest_ended contest mid index m)"
  "hrel R (step_intermission contest mid su m)" "hrel R (step_awaiting contest mid su index now b m)"
  unfolding schedule_wakeups_def escalate_contest_ended_def step_intermission_def step_awaiting_def
  by (intro hrel_basic hrel_reads hrel_open_xiaoju)+

lemma hrel_match_outcome:
  "hrel R a \<Longrightarrow> (\<And>w. hrel R (b w)) \<Longrightarrow> (\<And>p. hrel R (c p)) \<Longrightarrow> hrel R e \<Longrightarrow>
   hrel R (case out of MatchNotYet \<Rightarrow> a | MatchDecided w \<Rightarrow> b w | OpenTiebreak p \<Rightarrow> c p | MatchNeedsAdjudication \<Rightarrow> e)"
  by (cases out) auto

lemma hrel_game_outcome:
  "hrel R a \<Longrightarrow> (\<And>w. hrel R (b w)) \<Longrightarrow> (\<And>p. hrel R (c p)) \<Longrightarrow>
   hrel R (case out of GameNotYet \<Rightarrow> a | GameDecided w \<Rightarrow> b w | GameAwaitingJudge p \<Rightarrow> c p)"
  by (cases out) auto

lemma hrel_step_decided: "hrel R (step_decided contest mid su rdef index ck m)"
  unfolding step_decided_def Let_def
  by (intro hrel_prod hrel_match_outcome hrel_basic hrel_reads hrel_open_xiaoju hrel_step_parts)

lemma hrel_step_game: "hrel R (step_game contest mid su rdef current ck subs m)"
  unfolding step_game_def Let_def
  by (intro hrel_prod hrel_game_outcome hrel_basic hrel_reads hrel_step_parts hrel_step_decided)

lemma hrel_step: "hrel R (step contest mid su m)"
  unfolding step_def by (intro hrel_basic hrel_reads hrel_step_parts hrel_step_game)

lemma hrel_updates:
  "hrel R (prepare_step contest mid su stage ck m)" "hrel R (start_step contest mid su matches t ck m)"
  "hrel R (escalate_step m)" "hrel R (force_step contest mid w m)" "hrel R (order_step window u order m)"
  unfolding prepare_step_def start_step_def escalate_step_def force_step_def order_step_def
  by (intro hrel_basic hrel_reads hrel_open_xiaoju)+

lemma hrel_publish: "hrel R (publish contest mid m)"
  unfolding publish_def publish_row_def by (intro hrel_basic hrel_reads)

lemma hrel_update_match:
  assumes "\<And>n d. R d (itf n d)" and "\<And>m. hrel R (f m)" and "\<And>m m' d d'. f m d = (Inr m', d') \<Longrightarrow> match_run m m'"
  shows "hrel R (update_match itf contest mid f)"
  unfolding update_match_def storage_modify_def
  by (rule hrel_modify_loop [OF assms(1,2)]) (blast intro: rel_match assms(3))

lemma hrel_storage_set_slot: "hrel R (storage_set [(slot_key contest rnd pos, TextDoc t)])"
  unfolding storage_set_def by (intro hrel_basic hrel_trap hrel_execute) (simp add: rel_slot)

lemma hrel_create_match: "hrel R (create_match_if_both_slots_filled contest su rnd pos)"
proof -
  have cas: "hrel R (compare_and_set (match_key contest mid) None (MatchDoc (new_match rdef rnd pos a b)) None)" for mid rdef a b
    using hrel_compare_and_set_snapshot [of "match_key contest mid" None] rel_new
    by (simp add: compare_and_set_snapshot_def)
  have slot: "hrel R (parse_slot key v)" for key v
    unfolding parse_slot_def by (cases v) (auto intro: hrel_hthrow hrel_or_throw)
  have "hrel R (match_players contest su rnd pos)"
    unfolding match_players_def Let_def by (intro hrel_basic hrel_reads slot)
  then show ?thesis
    unfolding create_match_if_both_slots_filled_def by (intro hrel_basic hrel_reads cas)
qed

end

context world_rel
begin

lemma hrel_finish_transition:
  assumes "\<And>r. hrel R (op r)"
  shows "hrel R (finish_transition op contest mid su m)"
  unfolding finish_transition_def write_next_round_slots_def cancel_game_timers_def
  by (intro hrel_basic hrel_reads hrel_publish hrel_storage_set_slot assms)

lemma hrel_advance_with:
  assumes "\<And>n d. R d (itf n d)" and "\<And>r. hrel R (op r)"
  shows "hrel R (advance_with op itf contest mid)"
  unfolding advance_with_def
  by (intro hrel_basic hrel_reads hrel_finish_transition assms(2) hrel_update_match [OF assms(1) hrel_step]) (rule step_run)

lemma hrel_advance_preparation:
  assumes "\<And>n d. R d (itf n d)"
  shows "hrel R (advance_preparation itf contest mid su m)"
proof -
  have "hrel R (update_match itf contest mid (prepare_step contest mid su stage ck))" for stage ck
    by (rule hrel_update_match [OF assms hrel_updates(1)]) (rule prepare_step_run)
  moreover have "hrel R (case ph of OrderingPhase \<Rightarrow> timer_schedule a k [] | PreparingPhase \<Rightarrow> timer_schedule b k [] | _ \<Rightarrow> hret ())"
    for ph a b k by (cases ph) (simp_all add: hrel_hret hrel_timer_schedule)
  ultimately show ?thesis unfolding advance_preparation_def by (intro hrel_basic hrel_reads)
qed

lemma hrel_try_autostart_with:
  assumes "\<And>n d. R d (itf n d)" and "\<And>r. hrel R (op r)"
  shows "hrel R (try_autostart_with op itf contest mid)"
proof -
  have "hrel R (update_match itf contest mid (start_step contest mid su matches t ck))" for su matches t ck
    by (rule hrel_update_match [OF assms(1) hrel_updates(2)]) (rule start_step_run)
  then show ?thesis unfolding try_autostart_with_def
    by (intro hrel_basic hrel_reads hrel_advance_with [OF assms] hrel_advance_preparation [OF assms(1)])
qed

lemma hrel_swap_setup:
  assumes "\<And>n d. R d (itf n d)"
  shows "hrel R (\<lambda>d. compare_and_set_snapshot (setup_key contest) snap (SetupDoc su) (itf n d))"
  by (rule hrel_after [OF assms]) (rule hrel_compare_and_set_snapshot, rule rel_setup)

lemma hrel_open_matches:
  assumes "\<And>n d. R d (itf n d)" and "\<And>r. hrel R (op r)"
  shows "hrel R (open_matches op itf contest su rnd)"
  unfolding open_matches_def by (intro hrel_basic hrel_create_match hrel_try_autostart_with [OF assms])

lemma hrel_open_scheduled_loop:
  assumes "\<And>n d. R d (itf n d)" and "\<And>r. hrel R (op r)"
  shows "hrel R (open_scheduled_loop n op itf contest rnd)"
proof (induction n)
  case (Suc n)
  show ?case unfolding open_scheduled_loop.simps
    by (intro hrel_basic hrel_reads hrel_swap_setup [OF assms(1)] hrel_open_matches [OF assms] Suc)
qed (simp add: hrel_hthrow)

lemma hrel_open_legacy_loop:
  assumes "\<And>n d. R d (itf n d)"
  shows "hrel R (open_legacy_loop n itf contest rnd)"
proof (induction n)
  case (Suc n)
  show ?case unfolding open_legacy_loop.simps
    by (intro hrel_basic hrel_reads hrel_swap_setup [OF assms] hrel_create_match Suc)
qed (simp add: hrel_hthrow)

lemma hrel_open_stage:
  assumes "\<And>n d. R d (itf n d)"
  shows "hrel R (open_stage itf contest rnd)"
proof -
  have "hrel R (try_open_stage depth itf contest rnd)" for depth
  proof (induction depth arbitrary: rnd)
    case (Suc depth)
    show ?case unfolding try_open_stage.simps
      by (intro hrel_basic hrel_open_scheduled_loop [OF assms] hrel_open_legacy_loop [OF assms] Suc)
  qed (simp add: hrel_hthrow)
  then show ?thesis by (simp add: open_stage_def)
qed

lemma hrel_advance:
  assumes "\<And>n d. R d (itf n d)"
  shows "hrel R (advance itf contest mid)"
  unfolding advance_def by (intro hrel_advance_with [OF assms] hrel_open_stage [OF assms])

lemma hrel_try_autostart:
  assumes "\<And>n d. R d (itf n d)"
  shows "hrel R (try_autostart itf contest mid)"
  unfolding try_autostart_def by (intro hrel_try_autostart_with [OF assms] hrel_open_stage [OF assms])

lemma hrel_escalate:
  assumes "\<And>n d. R d (itf n d)"
  shows "hrel R (escalate itf contest mid)"
  unfolding escalate_def
  by (intro hrel_basic hrel_reads hrel_update_match [OF assms hrel_updates(3)]) (rule escalate_step_run)

lemma hrel_force_decide:
  assumes "\<And>n d. R d (itf n d)"
  shows "hrel R (force_decide itf contest mid w)"
  unfolding force_decide_def
  by (intro hrel_basic hrel_reads hrel_finish_transition hrel_open_stage [OF assms] hrel_update_match [OF assms hrel_updates(4)])
    (rule force_step_run)

lemma hrel_resolve_and_advance:
  assumes "\<And>n d. R d (itf n d)"
  shows "hrel R (resolve_and_advance itf contest user problem)"
  unfolding resolve_and_advance_def by (intro hrel_basic hrel_reads hrel_advance [OF assms])

lemma hrel_handle_timer:
  assumes "\<And>n d. R d (itf n d)"
  shows "hrel R (handle_timer itf key fire_at)"
proof (rule hrelI)
  fix d :: "'z bworld" and r d'
  assume run: "handle_timer itf key fire_at d = (r, d')"
  have one: "R d (snd (case op d of (Inr _, d1) \<Rightarrow> (Inr (), d1)
      | (Inl e, d1) \<Rightarrow> hbind (timer_schedule (saturating_add_i64 fire_at 1000) key []) (\<lambda>_. hthrow e) d1))"
    if "hrel R op" for op :: "('z, unit) bcall"
  proof -
    obtain r1 d1 where op: "op d = (r1, d1)" by force
    let ?retry = "\<lambda>e. hbind (timer_schedule (saturating_add_i64 fire_at 1000) key []) (\<lambda>_. hthrow e) :: ('z, unit) bcall"
    have "hrel R (?retry e)" for e by (intro hrel_basic hrel_reads)
    then have "R d1 (snd (?retry e d1))" for e by (simp add: hrel_def)
    then have "R d (snd (?retry e d1))" for e using hrelD [OF that op] rel_trans by blast
    with hrelD [OF that op] op show ?thesis by (cases r1) simp_all
  qed
  note ops = one [OF hrel_advance [OF assms]] one [OF hrel_try_autostart [OF assms]]
    one [OF hrel_open_stage [OF assms]] one [OF hrel_escalate [OF assms]]
  from run have "d' = snd (handle_timer itf key fire_at d)" by simp
  also have "R d \<dots>" unfolding handle_timer_def Let_def using ops rel_refl by (auto split: option.splits)
  finally show "R d d'" .
qed

lemma hrel_race_error: "hrel R c \<Longrightarrow> hrel R (race_error c)"
  by (auto simp: hrel_def race_error_def split: prod.splits sum.splits sdk_error.splits) (metis snd_conv)+

lemma hrel_of_result: "hrel R (of_result r)"
  unfolding of_result_def by (intro hrel_basic)

lemma hrel_api_fail: "hrel R (api_fail n msg)"
  unfolding api_fail_def by (intro hrel_basic)

lemma hrel_require_type: "hrel R (require_type info t)"
  unfolding require_type_def by (intro hrel_basic hrel_api_fail)

lemma hrel_check_access: "hrel R (check_access req contest)"
  unfolding check_access_def load_info_def can_view_def is_participant_def
  by (intro hrel_basic hrel_api_fail hrel_lift_sdk hrel_db_query)

lemmas hrel_api = hrel_lift_sdk hrel_race_error hrel_of_result hrel_api_fail hrel_require_type hrel_check_access

lemma hrel_handle_order:
  assumes "\<And>n d. R d (itf n d)"
  shows "hrel R (handle_order itf req body)"
proof -
  have upd: "hrel R (update_match itf contest mid (order_step window u order))" for contest mid window u order
    by (rule hrel_update_match [OF assms hrel_updates(5)]) (rule order_step_run)
  show ?thesis unfolding handle_order_def stage_is_open_def
    by (intro hrel_basic hrel_api upd hrel_reads hrel_try_autostart [OF assms])
qed

end

end
