(* ===== verification/BracketSafety.thy ===== *)
theory BracketSafety
  imports BracketWorld
begin

text \<open>
  The relations the engine stays within, each an instance of the contract of elementary writes:
  the documents of the matches follow the state machine, the tables of the judge are only read,
  and published feedback is final. With the state machine's invariant they give what holds of
  every document at any time, whatever runs in between.
\<close>

section \<open>Documents follow the state machine\<close>

definition match_initial :: "match_state \<Rightarrow> bool" where
  "match_initial m \<longleftrightarrow> m = match_default \<or> (\<exists>rdef rnd pos a b. m = new_match rdef rnd pos a b)"

inductive doc_evolves :: "(bdoc \<times> i64) option \<Rightarrow> (bdoc \<times> i64) option \<Rightarrow> bool" where
  same: "doc_evolves s s"
| new: "match_initial m0 \<Longrightarrow> match_run m0 m \<Longrightarrow> doc_evolves None (Some (MatchDoc m, r))"
| run: "match_run m m' \<Longrightarrow> r < r' \<Longrightarrow> doc_evolves (Some (MatchDoc m, r)) (Some (MatchDoc m', r'))"

inductive_cases doc_evolves_from: "doc_evolves (Some (MatchDoc m, r)) t"

definition evolves :: "'z bworld \<Rightarrow> 'z bworld \<Rightarrow> bool" where
  "evolves d d' \<longleftrightarrow> (\<forall>contest mid. doc_evolves (h_storage d (match_key contest mid)) (h_storage d' (match_key contest mid)))"

lemma doc_evolves_trans:
  assumes "doc_evolves s t" and "doc_evolves t u"
  shows "doc_evolves s u"
  using assms
proof (cases rule: doc_evolves.cases)
  case (new m0 m r)
  from \<open>doc_evolves t u\<close> [unfolded new] new show ?thesis
    by (cases rule: doc_evolves_from) (auto intro: doc_evolves.intros rtranclp_trans)
next
  case (run m m' r r')
  from \<open>doc_evolves t u\<close> [unfolded run] run show ?thesis
    by (cases rule: doc_evolves_from) (auto intro: doc_evolves.intros rtranclp_trans)
qed simp

lemma evolves_write: "doc_evolves (h_storage d k) (Some (v, next_revision (h_storage d k))) \<Longrightarrow> evolves d (put_entry k v d)"
  by (simp add: evolves_def doc_evolves.same)

lemma evolves_other: "(\<And>contest mid. k \<noteq> match_key contest mid) \<Longrightarrow> evolves d (put_entry k v d)"
  by (auto simp: evolves_def doc_evolves.same)

lemma other_keys: "slot_key contest rnd pos \<noteq> match_key c i" "setup_key contest \<noteq> match_key c i"
  by (simp_all add: slot_key_def setup_key_def match_key_def match_prefix_def)

lemma read_match_Inr:
  assumes "read_or_default dec_match match_default s = Inr m"
  shows "s = None \<and> m = match_default \<or> (\<exists>r. s = Some (MatchDoc m, r))"
  using assms by (auto simp: read_or_default_def dec_match_def split: option.splits bdoc.splits)

lemma h_storage_frame [simp]:
  "h_storage (d\<lparr>p_timers := ts\<rparr>) = h_storage d" "h_storage (d\<lparr>p_feedback := fs\<rparr>) = h_storage d"
  by (simp_all add: h_storage_def)

lemma match_initial_new: "match_initial (new_match rdef rnd pos a b)"
  unfolding match_initial_def by blast

interpretation doc: world_rel evolves
proof
  show "evolves s s" for s :: "'z bworld" by (simp add: evolves_def doc_evolves.same)
  show "evolves s t \<Longrightarrow> evolves t u \<Longrightarrow> evolves s u" for s t u :: "'z bworld"
    unfolding evolves_def using doc_evolves_trans by blast
  show "evolves d (d\<lparr>db_faults := fs\<rparr>)" "evolves d (d\<lparr>p_timers := ts\<rparr>)" for d :: "'z bworld" and fs ts
    by (simp_all add: evolves_def doc_evolves.same)
  show "evolves d d'" if "feedback_update i act d = Inr (out, d')" for d d' :: "'z bworld" and i act out
  proof -
    from that have "h_storage d' = h_storage d"
      by (auto simp: feedback_update_def split: if_splits list.splits sum.splits prod.splits feedback_update_outcome.splits)
    then show ?thesis by (simp add: evolves_def doc_evolves.same)
  qed
  show "evolves d (put_entry (slot_key contest rnd pos) (TextDoc t) d)" for d :: "'z bworld" and contest rnd pos t
    by (rule evolves_other) (rule other_keys)
  show "evolves d (put_entry (setup_key contest) (SetupDoc su) d)" for d :: "'z bworld" and contest su
    by (rule evolves_other) (rule other_keys)
  show "evolves d (put_entry (match_key contest mid) (MatchDoc (new_match rdef rnd pos a b)) d)"
    if "h_storage d (match_key contest mid) = None" for d :: "'z bworld" and contest mid rdef rnd pos a b
    by (rule evolves_write, unfold that, rule doc_evolves.new [OF match_initial_new rtranclp.rtrancl_refl])
  show "evolves d (put_entry (match_key contest mid) (MatchDoc m') d)"
    if "read_or_default dec_match match_default (h_storage d (match_key contest mid)) = Inr m" "match_run m m'"
    for d :: "'z bworld" and contest mid m m'
    using read_match_Inr [OF that(1)]
  proof (elim disjE conjE exE)
    assume none: "h_storage d (match_key contest mid) = None" and "m = match_default"
    then have "doc_evolves None (Some (MatchDoc m', next_revision None))"
      using that(2) by (intro doc_evolves.new [of match_default]) (simp_all add: match_initial_def)
    then show ?thesis by (intro evolves_write) (simp add: none)
  next
    fix r
    assume some: "h_storage d (match_key contest mid) = Some (MatchDoc m, r)"
    have "doc_evolves (Some (MatchDoc m, r)) (Some (MatchDoc m', r + 1))"
      using that(2) by (intro doc_evolves.run) simp_all
    then show ?thesis by (intro evolves_write) (simp add: some next_revision_def)
  qed
qed

section \<open>The tables of the judge\<close>

definition same_judging :: "'z bworld \<Rightarrow> 'z bworld \<Rightarrow> bool" where
  "same_judging d d' \<longleftrightarrow> db_submissions d' = db_submissions d \<and> db_judgements d' = db_judgements d \<and>
     db_results d' = db_results d"

interpretation tables: world_rel same_judging
proof
  show "same_judging d d'" if "feedback_update i act d = Inr (out, d')" for d d' :: "'z bworld" and i act out
    using that by (auto simp: same_judging_def feedback_update_def split: if_splits list.splits sum.splits
        prod.splits feedback_update_outcome.splits)
qed (auto simp: same_judging_def put_entry_def)

section \<open>Published feedback\<close>

definition published_stays :: "'z bworld \<Rightarrow> 'z bworld \<Rightarrow> bool" where
  "published_stays d d' \<longleftrightarrow> (feedback_keys d \<longrightarrow> feedback_keys d' \<and>
     (\<forall>f \<in> set (p_feedback d). \<exists>f' \<in> set (p_feedback d'). feedback_moves f f'))"

lemma feedback_moves_trans: "feedback_moves f g \<Longrightarrow> feedback_moves g h \<Longrightarrow> feedback_moves f h"
  by (cases f; cases g; cases h) (auto simp: feedback_moves_def)

lemma feedback_moves_id: "feedback_moves f g \<Longrightarrow> f_submission_id g = f_submission_id f"
  by (cases f; cases g) (auto simp: feedback_moves_def)

interpretation published: world_rel published_stays
proof
  show "published_stays d d'" if upd: "feedback_update i act d = Inr (out, d')" for d d' :: "'z bworld" and i act out
    unfolding published_stays_def
  proof
    assume keys: "feedback_keys d"
    note moves = feedback_update_moves [OF keys upd]
    then have "map f_submission_id (p_feedback d') = map f_submission_id (p_feedback d)"
      by (auto simp: list_all2_conv_all_nth feedback_moves_id intro!: nth_equalityI)
    moreover from moves obtain fs where "d' = d\<lparr>p_feedback := fs\<rparr>" by blast
    ultimately have "feedback_keys d'" using keys by (simp add: feedback_keys_def)
    moreover have "\<forall>f \<in> set (p_feedback d). \<exists>f' \<in> set (p_feedback d'). feedback_moves f f'"
      using moves by (metis in_set_conv_nth list_all2_conv_all_nth)
    ultimately show "feedback_keys d' \<and> (\<forall>f \<in> set (p_feedback d). \<exists>f' \<in> set (p_feedback d'). feedback_moves f f')" ..
  qed
  show "published_stays s t \<Longrightarrow> published_stays t u \<Longrightarrow> published_stays s u" for s t u :: "'z bworld"
    unfolding published_stays_def using feedback_moves_trans by metis
qed (auto simp: published_stays_def put_entry_def feedback_keys_def feedback_moves_def)

section \<open>Runs of the engine\<close>

text \<open>
  What wakes the plugin: a timer of the host, a judged submission, a ranking a player posts, a
  decision of the staff, a submission to admit. Each handler runs to its end or to its first
  error, and both leave the effects made so far.
\<close>

datatype bracket_event =
    TimerFired string i64
  | SubmissionJudged i32 i32 i32
  | RankingPosted http_request "(string + i32 list) option"
  | StaffDecides i32 u8 i32
  | SubmissionArrives before_submission_event

definition handle_event :: "'z interference \<Rightarrow> bracket_event \<Rightarrow> 'z bworld \<Rightarrow> 'z bworld" where
  "handle_event itf e d =
    (case e of
       TimerFired key fire_at \<Rightarrow> snd (handle_timer itf key fire_at d)
     | SubmissionJudged contest user problem \<Rightarrow> snd (resolve_and_advance itf contest user problem d)
     | RankingPosted req body \<Rightarrow> snd (handle_order itf req body d)
     | StaffDecides contest mid winner \<Rightarrow> snd (force_decide itf contest mid winner d)
     | SubmissionArrives ev \<Rightarrow> snd (dispatch_submission_gate ev d))"

definition run_events :: "'z interference \<Rightarrow> bracket_event list \<Rightarrow> 'z bworld \<Rightarrow> 'z bworld" where
  "run_events itf es d = fold (handle_event itf) es d"

context world_rel
begin

lemma hrel_player_feedback_of: "hrel R (player_feedback_of contest m user problem pen)"
proof -
  have obs: "hrel R (observe_slot key)" for key
    unfolding observe_slot_def feedback_def by (intro hrel_basic hrel_db_query)
  show ?thesis unfolding player_feedback_of_def by (intro hrel_basic obs hrel_reads)
qed

lemma hrel_dispatch_submission_gate: "hrel R (dispatch_submission_gate ev)"
proof -
  have "hrel R (admit_open_game contest ev su key v m fb)" for contest su key v m fb
    unfolding admit_open_game_def by (intro hrel_basic hrel_reads)
  then have "hrel R (resolve_rejection ev)"
    unfolding resolve_rejection_def by (intro hrel_basic hrel_reads hrel_player_feedback_of)
  then show ?thesis unfolding dispatch_submission_gate_def by (intro hrel_basic hrel_reads)
qed

lemma rel_run_events:
  assumes "\<And>n d. R d (itf n d)"
  shows "R d (run_events itf es d)"
proof (induction es arbitrary: d)
  case Nil
  then show ?case by (simp add: run_events_def rel_refl)
next
  case (Cons e es)
  have "R d (handle_event itf e d)"
    using hrel_handle_timer [OF assms] hrel_resolve_and_advance [OF assms] hrel_handle_order [OF assms]
      hrel_force_decide [OF assms] hrel_dispatch_submission_gate
    by (auto simp: handle_event_def hrel_def split: bracket_event.splits)
  with Cons.IH show ?case by (auto simp: run_events_def intro: rel_trans)
qed

end

section \<open>Properties\<close>

definition match_doc :: "'z bworld \<Rightarrow> i32 \<Rightarrow> u8 \<Rightarrow> match_state option" where
  "match_doc d contest mid =
    (case h_storage d (match_key contest mid) of Some (MatchDoc m, _) \<Rightarrow> Some m | _ \<Rightarrow> None)"

definition matches_ok :: "'z bworld \<Rightarrow> bool" where
  "matches_ok d \<longleftrightarrow> (\<forall>contest mid m. match_doc d contest mid = Some m \<longrightarrow> match_inv m)"

lemma match_initial_inv: "match_initial m \<Longrightarrow> match_inv m"
  by (auto simp: match_initial_def match_inv_default match_inv_new)

lemma match_doc_Some: "match_doc d contest mid = Some m \<longleftrightarrow> (\<exists>r. h_storage d (match_key contest mid) = Some (MatchDoc m, r))"
  by (auto simp: match_doc_def split: option.splits bdoc.splits)

lemma evolves_doc:
  assumes "evolves d d'" and "match_doc d contest mid = Some m"
  obtains m' where "match_doc d' contest mid = Some m'" "match_run m m'"
proof -
  from assms(2) obtain r where r: "h_storage d (match_key contest mid) = Some (MatchDoc m, r)"
    by (auto simp: match_doc_Some)
  with assms(1) have "doc_evolves (Some (MatchDoc m, r)) (h_storage d' (match_key contest mid))"
    by (metis evolves_def)
  then show ?thesis
    by (cases rule: doc_evolves_from) (use that in \<open>fastforce simp: match_doc_Some dest: sym\<close>)+
qed

lemma evolves_created:
  assumes "evolves d d'" and "match_doc d' contest mid = Some m'" and "match_doc d contest mid = None"
  obtains m0 where "match_initial m0" "match_run m0 m'"
proof -
  from assms(2) obtain r where r: "h_storage d' (match_key contest mid) = Some (MatchDoc m', r)"
    by (auto simp: match_doc_Some)
  with assms(1) have "doc_evolves (h_storage d (match_key contest mid)) (Some (MatchDoc m', r))"
    by (metis evolves_def)
  then show ?thesis using assms(3) that
    by (cases rule: doc_evolves.cases) (auto simp: match_doc_def r split: option.splits)
qed

subsection \<open>A small bracket\<close>

definition sample_round :: round_def where
  "sample_round = \<lparr>rd_group_a = [101], rd_group_b = [102], rd_tiebreak = [103], rd_wins_to_advance = None,
     rd_start_at_ms = None, rd_post_order_wait_seconds = None, rd_game_break_seconds = None,
     rd_match_extra_time_seconds = None, rd_xiaoju_seconds = 600, rd_tiebreak_seconds = 300,
     rd_break_before_seconds = 0\<rparr>"

definition sample_setup :: bracket_setup where
  "sample_setup = \<lparr>su_rounds = [sample_round], su_seeds = [11, 12], su_third_place = None, su_opened_rounds = 1,
     su_stage_clocks = Map.empty, su_match_extra_time_seconds = 60, su_penalty_seconds = 30,
     su_escalation_grace_seconds = 120\<rparr>"

definition sample_match :: match_state where
  "sample_match = new_match sample_round 1 0 11 12"

definition decided_match :: match_state where
  "decided_match = sample_match\<lparr>m_state := DecidedPhase, m_winner := Some 12, m_decided_at_ms := 5\<rparr>"

definition sample_feedback :: "admission_metadata feedback_row" where
  "sample_feedback = \<lparr>f_submission_id = 1, f_contest_id = 5, f_user_id = 11, f_state_key = match_key 5 0,
     f_metadata = \<lparr>am_scope_key = game_scope 5 0 0, am_delay_seconds = 0, am_effective_at_us = None\<rparr>,
     f_slot_key = Some (player_slot 5 11), f_outcome = OutcomeReleased, f_public_result = None\<rparr>"

definition sample_world :: "match_state \<Rightarrow> unit bworld" where
  "sample_world m = \<lparr>db_submissions = [], db_judgements = [], db_results = [], db_faults = [], db_now = 0,
     h_contests = [], h_contest_users = [], h_contest_problems = [],
     h_entries = [(setup_key 5, SetupDoc sample_setup, 0), (match_key 5 0, MatchDoc m, 0)],
     p_feedback = [sample_feedback], p_timers = [], p_representable = (\<lambda>_. True)\<rparr>"

definition sample_events :: "bracket_event list" where
  "sample_events = [TimerFired (xiaoju_timer_key 5 0 0) 0, SubmissionJudged 5 11 101, StaffDecides 5 0 11]"

lemma sample_match_doc: "match_doc (sample_world m) 5 0 = Some m"
proof -
  have "setup_key 5 \<noteq> match_key 5 0" by (rule other_keys)
  then show ?thesis by (simp add: match_doc_def h_storage_def sample_world_def)
qed

lemma sample_matches_ok:
  assumes "match_inv m"
  shows "matches_ok (sample_world m)"
  using assms by (auto simp: matches_ok_def match_doc_def h_storage_def sample_world_def split: option.splits if_splits)

text \<open>
  C9: The bracket refines its state machine. Whatever timers, judged submissions, rankings,
  admissions and staff decisions arrive, in any order, with any faults of the database and any
  interleaving with other writers that follow the machine themselves, every stored match
  document moves only along runs of the match state machine, every new one starts as a fresh
  match, and its revision only grows.
\<close>

theorem bracket_refines_state_machine:
  assumes "\<And>n d. evolves d (itf n d)"
  shows "evolves d (run_events itf es d)"
  using assms by (rule doc.rel_run_events)

theorem bracket_refines_state_machine_witness:
  "evolves (sample_world sample_match) (run_events (\<lambda>_ d. d) sample_events (sample_world sample_match))"
  by (rule bracket_refines_state_machine) (rule doc.rel_refl)

text \<open>
  C7: Every match document that the bracket ever stores is consistent: games are numbered in
  order and only the last one is open, the scores are the numbers of games won, the extra time
  used and the extra time left add up to what the match was given, rankings are permutations of
  the problem groups, a match is decided exactly when it has a winner, and the winner and the
  winners of games are its players.
\<close>

theorem match_documents_ok:
  assumes "\<And>n d. evolves d (itf n d)" and "matches_ok d"
  shows "matches_ok (run_events itf es d)"
  unfolding matches_ok_def
proof (intro allI impI)
  fix contest mid m'
  assume m': "match_doc (run_events itf es d) contest mid = Some m'"
  have ev: "evolves d (run_events itf es d)" using assms(1) by (rule doc.rel_run_events)
  show "match_inv m'"
  proof (cases "match_doc d contest mid")
    case None
    with ev m' obtain m0 where "match_initial m0" "match_run m0 m'" by (metis evolves_created)
    then show ?thesis using match_run_inv match_initial_inv by blast
  next
    case (Some m)
    with ev m' obtain "match_run m m'" by (metis evolves_doc option.inject)
    then show ?thesis using match_run_inv assms(2) Some by (auto simp: matches_ok_def)
  qed
qed

theorem match_documents_ok_witness:
  "matches_ok (run_events (\<lambda>_ d. d) sample_events (sample_world sample_match))"
  by (rule match_documents_ok)
    (auto intro: doc.rel_refl sample_matches_ok match_inv_new simp: sample_match_def)

text \<open>
  C11: A decided match is final: neither a late result, a timer, a ranking, another staff
  decision nor any other writer that follows the machine changes its document again.
\<close>

theorem decided_match_is_final:
  assumes "\<And>n d. evolves d (itf n d)" and "match_doc d contest mid = Some m" and "m_state m = DecidedPhase"
  shows "match_doc (run_events itf es d) contest mid = Some m"
proof -
  have "evolves d (run_events itf es d)" using assms(1) by (rule doc.rel_run_events)
  with assms(2) obtain m' where "match_doc (run_events itf es d) contest mid = Some m'" "match_run m m'"
    by (metis evolves_doc)
  with assms(3) match_run_decided show ?thesis by blast
qed

theorem decided_match_is_final_witness:
  "match_doc (run_events (\<lambda>_ d. d) sample_events (sample_world decided_match)) 5 0 = Some decided_match"
  by (rule decided_match_is_final) (simp_all add: doc.rel_refl sample_match_doc decided_match_def)

text \<open>
  The bracket only reads the tables of the judge: submissions, judgements and test case
  results are the same after any run of its handlers.
\<close>

theorem bracket_leaves_judging_alone:
  assumes "\<And>n d. same_judging d (itf n d)"
  shows "same_judging d (run_events itf es d)"
  using assms by (rule tables.rel_run_events)

theorem bracket_leaves_judging_alone_witness:
  "same_judging (sample_world sample_match) (run_events (\<lambda>_ d. d) sample_events (sample_world sample_match))"
  by (rule bracket_leaves_judging_alone) (rule tables.rel_refl)

text \<open>
  C14: Feedback the bracket has published stays as it was published: a released row, with its
  public result, is never changed, withheld again or removed by any run of the handlers.
\<close>

theorem published_feedback_is_final:
  assumes "\<And>n d. published_stays d (itf n d)" and "feedback_keys d"
    and "f \<in> set (p_feedback d)" and "f_outcome f = OutcomeReleased"
  shows "f \<in> set (p_feedback (run_events itf es d))"
proof -
  have "published_stays d (run_events itf es d)" using assms(1) by (rule published.rel_run_events)
  with assms(2-) obtain f' where "f' \<in> set (p_feedback (run_events itf es d))" "feedback_moves f f'"
    by (auto simp: published_stays_def)
  with assms(4) show ?thesis by (simp add: feedback_moves_def)
qed

theorem published_feedback_is_final_witness:
  "sample_feedback \<in> set (p_feedback (run_events (\<lambda>_ d. d) sample_events (sample_world sample_match)))"
  by (rule published_feedback_is_final)
    (simp_all add: published.rel_refl sample_world_def sample_feedback_def feedback_keys_def)

end
