(* ===== verification/BracketAdmission.thy ===== *)
theory BracketAdmission
  imports BracketSafety Samples
begin

text \<open>
  From the gate to the score: what an admission granted by the gate means once the host has
  committed it, and that a committed admission and a transition computed before it exclude each
  other.
\<close>

section \<open>What the gate promises\<close>

interpretation clock: world_rel "\<lambda>d d' :: 'z bworld. db_now d' = db_now d"
proof
  show "db_now d' = db_now d" if "feedback_update i act d = Inr (out, d')" for d d' :: "'z bworld" and i act out
    using that by (auto simp: feedback_update_def split: if_splits list.splits sum.splits prod.splits
        feedback_update_outcome.splits)
qed (simp_all add: put_entry_def)

lemma epoch_ms_le:
  assumes "0 \<le> t"
  shows "epoch_ms t * 1000 \<le> t"
proof -
  have "\<lfloor>(of_int t :: rat) / 1000\<rfloor> = t div 1000"
    using floor_divide_of_int_eq [of t 1000, where 'a = rat] by simp
  then have "epoch_ms t = sat_i64 (t div 1000)" using assms by (simp add: epoch_ms_def rat_trunc_def)
  also have "\<dots> \<le> t div 1000" using assms by (auto simp: rust_int)
  finally show ?thesis by linarith
qed

lemma admit_open_game_Inr:
  assumes "admit_open_game contest ev su key v m fb d = (Inr (Inr ad), d')"
  obtains game ck d1 where "list_last (m_xiaoju m) = Some game" "read_clock contest d = (Inr ck, d1)"
    "contains_submission_at_us game (saturating_mul_i64 (ck_now ck) 1000)"
    "ad_guard_key ad = key" "ad_expected_value ad = v" "ad_feedback_key ad = key"
    "ad_latest_arrival_ms ad = Some (clock_cutoff ck (x_deadline_ms game))" "ad_slot ad = pf_slot_token fb"
  using assms unfolding admit_open_game_def
  by (auto simp: hbind_Inr Let_def split: if_splits)

lemma reject_option:
  "(case r of None \<Rightarrow> hret (Inl e) | Some x \<Rightarrow> f x) s = (Inr (Inr y), t) \<longleftrightarrow> (\<exists>x. r = Some x \<and> f x s = (Inr (Inr y), t))"
  by (cases r) auto

lemma reject_sum:
  "(case r of Inl e \<Rightarrow> hret (Inl e) | Inr x \<Rightarrow> f x) s = (Inr (Inr y), t) \<longleftrightarrow> (\<exists>x. r = Inr x \<and> f x s = (Inr (Inr y), t))"
  by (cases r) auto

lemma reject_if: "(if P then hret (Inl e) else m) s = (Inr (Inr y), t) \<longleftrightarrow> \<not> P \<and> m s = (Inr (Inr y), t)"
  by auto

lemma case_prod_call: "(case p of (v, w) \<Rightarrow> f v) s = f (fst p) s"
  by (cases p) simp

lemmas admits_unfold = hbind_Inr reject_option reject_sum reject_if case_prod_call case_sum_call_Inr Let_def or_throw_Inr

lemma resolve_rejection_admits:
  assumes "resolve_rejection ev d = (Inr (Inr ad), d')"
  obtains contest su rdef mid m fb d1 where "ev_contest_id ev = Some contest" "m_state m \<in> {InProgressPhase, TiebreakPhase}"
    "gate_check (gate_ctx_from_match m rdef) (ev_user_id ev) (ev_problem_id ev) = Inr ()"
    "admit_open_game contest ev su (match_key contest mid) (MatchDoc m) m fb d1 = (Inr (Inr ad), d')"
    "db_now d1 = db_now d"
proof -
  from assms [unfolded resolve_rejection_def admits_unfold] obtain contest found_su da su matches db mid rdef snap dc v m u fb d1 where
    ev: "ev_contest_id ev = Some contest" and s1: "load_setup contest d = (Inr found_su, da)" "found_su = Some su"
    and s2: "load_all_matches contest da = (Inr matches, db)"
    and s3: "storage_snapshot (match_key contest mid) db = (Inr snap, dc)"
    and m: "dec_match v = Inr m" "\<not> (m_state m \<noteq> InProgressPhase \<and> m_state m \<noteq> TiebreakPhase)"
    and gate: "gate_check (gate_ctx_from_match m rdef) (ev_user_id ev) (ev_problem_id ev) = Inr u"
    and s4: "player_feedback_of contest m (ev_user_id ev) (ev_problem_id ev) (su_penalty_seconds su) dc = (Inr fb, d1)"
    and ad: "admit_open_game contest ev su (match_key contest mid)
        v m fb d1 = (Inr (Inr ad), d')"
    by (elim exE conjE) blast
  have "db_now d1 = db_now d"
    using hrelD [OF clock.hrel_load(2) s1(1)] hrelD [OF clock.hrel_load_all_matches s2]
      hrelD [OF clock.hrel_storage_read(2) s3] hrelD [OF clock.hrel_player_feedback_of s4] by simp
  moreover from m(1) have "v = MatchDoc m" by (auto simp: dec_match_def split: bdoc.splits)
  ultimately show ?thesis using that ev m(2) gate ad by auto
qed

lemma saturating_mul_le: "0 \<le> t \<Longrightarrow> sat_i64 t \<le> t"
  by (auto simp: rust_int)

lemma read_clock_now: "read_clock contest d = (Inr ck, d') \<Longrightarrow> ck_now ck = epoch_ms (db_now d)"
  unfolding read_clock_def by (drule db_query_Inr) auto

lemma epoch_ms_nonneg: "0 \<le> t \<Longrightarrow> 0 \<le> epoch_ms t"
  by (simp add: epoch_ms_def rat_trunc_def rust_int)

lemma clock_cutoff_le: "clock_cutoff ck t \<le> t"
  by (simp add: clock_cutoff_def split: option.splits)

text \<open>
  C12: An admitted submission counts. When the gate admits a submission of a player of the match
  and the host commits the admission, the match document is still the one the gate saw, its open
  game is undecided, the problem is the one the player faces in it, the row falls into the
  game's window, and the query that scores the game returns it.
\<close>

theorem admitted_submission_counts:
  assumes "resolve_rejection ev d = (Inr (Inr ad), d1)" and "admission_txn new ad d2 = Inr (model, d3)"
    and "s_contest_id new = ev_contest_id ev" "s_user_id new = ev_user_id ev" "s_problem_id new = ev_problem_id ev"
    and "0 \<le> db_now d" "db_now d \<le> db_now d2"
  shows "\<exists>contest mid m rdef game. ev_contest_id ev = Some contest \<and>
    match_doc d2 contest mid = Some m \<and> match_doc d3 contest mid = Some m \<and>
    list_last (m_xiaoju m) = Some game \<and> \<not> x_decided game \<and>
    current_problem m rdef (ev_user_id ev) = Some (ev_problem_id ev) \<and>
    contains_submission_at_us game (s_created_at model) \<and>
    (ev_user_id ev \<in> {m_player_a m, m_player_b m} \<longrightarrow>
      model \<in> set (game_rows contest m (current_problem m rdef (m_player_a m)) (current_problem m rdef (m_player_b m)) d3))"
proof -
  from assms(1) obtain contest su rdef mid m fb da where
    ev: "ev_contest_id ev = Some contest" and ph: "m_state m \<in> {InProgressPhase, TiebreakPhase}"
    and gate: "gate_check (gate_ctx_from_match m rdef) (ev_user_id ev) (ev_problem_id ev) = Inr ()"
    and adm: "admit_open_game contest ev su (match_key contest mid) (MatchDoc m) m fb da = (Inr (Inr ad), d1)"
    and now: "db_now da = db_now d"
    by (rule resolve_rejection_admits)
  from adm obtain game ck db where game: "list_last (m_xiaoju m) = Some game"
    and ck: "read_clock contest da = (Inr ck, db)" "contains_submission_at_us game (saturating_mul_i64 (ck_now ck) 1000)"
    and ad: "ad_guard_key ad = match_key contest mid" "ad_expected_value ad = MatchDoc m"
      "ad_latest_arrival_ms ad = Some (clock_cutoff ck (x_deadline_ms game))"
    by (rule admit_open_game_Inr)
  from assms(2) obtain v revision cid where st: "h_storage d2 (ad_guard_key ad) = Some (v, revision)" "v = ad_expected_value ad"
    and model: "model = new\<lparr>s_created_at := db_now d2\<rparr>"
    and late: "\<forall>e. ad_latest_arrival_ms ad = Some e \<longrightarrow> db_now d2 < e * 1000"
    and d3: "h_storage d3 = (h_storage d2)(ad_guard_key ad \<mapsto> (v, next_revision (h_storage d2 (ad_guard_key ad))))"
      "db_submissions d3 = db_submissions d2 @ [model]"
    by (rule admission_txn_ok) (auto simp: h_storage_def put_entry_def update_conv' fun_eq_iff)
  have cp: "current_problem m rdef (ev_user_id ev) = Some (ev_problem_id ev)" "\<not> x_decided game"
    using gate game ph by (auto simp: gate_check_def gate_ctx_from_match_def current_problem_def current_regular_problem_def
        Let_def split: option.splits if_splits)
  have ms: "ck_now ck = epoch_ms (db_now d)" using read_clock_now [OF ck(1)] now by simp
  have "x_opened_at_ms game * 1000 \<le> db_now d2"
    using ck(2) ms saturating_mul_le [of "ck_now ck * 1000"] epoch_ms_le [OF assms(6)] epoch_ms_nonneg [OF assms(6)] assms(7)
    by (simp add: contains_submission_at_us_def)
  moreover have "db_now d2 < x_deadline_ms game * 1000"
    using late ad(3) clock_cutoff_le [of ck "x_deadline_ms game"] by auto
  ultimately have win: "contains_submission_at_us game (s_created_at model)"
    by (simp add: model contains_submission_at_us_def)
  have docs: "match_doc d2 contest mid = Some m" "match_doc d3 contest mid = Some m"
    using st ad d3(1) by (simp_all add: match_doc_def)
  have "model \<in> set (game_rows contest m (current_problem m rdef (m_player_a m)) (current_problem m rdef (m_player_b m)) d3)"
    if "ev_user_id ev \<in> {m_player_a m, m_player_b m}"
    using that cp(1) win game assms(3-5) ev
    by (auto simp: game_rows_def d3(2) model opened_at_def contains_submission_at_us_def)
  with ev docs game cp win show ?thesis by blast
qed

text \<open>
  C13: Admission fences the engine. After the host has committed an admission, a transition
  that was computed from the match document as it was before cannot be committed any more: the
  compare-and-set reports a lost race and changes nothing, so the engine reads the submissions
  again.
\<close>

theorem admission_fences_updates:
  assumes "h_storage d (ad_guard_key ad) = Some snapshot" and "admission_txn row ad d = Inr (model, d')"
    and "db_faults d' = []"
  shows "compare_and_set_snapshot (ad_guard_key ad) (Some snapshot) doc d' = (Inr False, d')"
proof -
  obtain v r where snapshot: "snapshot = (v, r)" by force
  from assms(2) have "h_storage d' = (h_storage d)(ad_guard_key ad \<mapsto> (v, next_revision (Some (v, r))))"
    by (rule admission_txn_ok) (use assms(1) snapshot in \<open>auto simp: h_storage_def put_entry_def update_conv' fun_eq_iff\<close>)
  then have "h_storage d' (ad_guard_key ad) = Some (v, r + 1)" by (simp add: next_revision_def)
  then show ?thesis using assms(3) snapshot
    by (simp add: compare_and_set_snapshot_def compare_and_set_def cas_statement_def trap_def hbind_def execute_def hret_def)
qed

subsection \<open>An admission in the small bracket\<close>

definition gate_event :: before_submission_event where
  "gate_event = \<lparr>ev_user_id = 11, ev_problem_id = 101, ev_contest_id = Some 5, ev_contest_type = ''codelink-bracket''\<rparr>"

definition gate_admission :: bracket_admission where
  "gate_admission = \<lparr>ad_guard_key = match_key 5 0, ad_expected_value = MatchDoc sample_play, ad_feedback_key = match_key 5 0,
     ad_metadata = \<lparr>am_scope_key = game_scope 5 0 0, am_delay_seconds = 0, am_effective_at_us = None\<rparr>,
     ad_slot = Some \<lparr>st_key = player_slot 5 11, st_generation = Some 1\<rparr>, ad_latest_arrival_ms = Some 600\<rparr>"

definition gate_row :: submission_row where
  "gate_row = sample_submission_row\<lparr>s_id := 2, s_user_id := 11, s_problem_id := 101\<rparr>"

definition gate_world :: "unit bworld" where
  "gate_world = snd (projr (admission_txn gate_row gate_admission (sample_world sample_play)))"

lemma gate_storage:
  "h_storage (sample_world m) (setup_key 5) = Some (SetupDoc sample_setup, 0)"
  "h_storage (sample_world m) (match_key 5 0) = Some (MatchDoc m, 0)"
  "db_faults (sample_world m) = []" "db_now (sample_world m) = 0"
  using other_keys(2) [of 5 5 0] by (simp_all add: sample_world_def h_storage_def)

lemma gate_load_setup: "load_setup 5 (sample_world m) = (Inr (Some sample_setup), sample_world m)"
  by (simp add: load_setup_def storage_get_one_def hbind_def gate_storage dec_setup_def hret_def)

lemma gate_page:
  "scan_page 100 (match_prefix 5) None (h_entries (sample_world m)) = [(match_key 5 0, MatchDoc m)]"
  "scan_page 100 (match_prefix 5) (Some (match_key 5 0)) (h_entries (sample_world m)) = []"
proof -
  have "take (length (match_prefix 5)) (match_key 5 0) = match_prefix 5" by (simp add: match_key_def)
  moreover have "take (length (match_prefix 5)) (setup_key 5) \<noteq> match_prefix 5"
    by (simp add: match_prefix_def setup_key_def)
  ultimately show "scan_page 100 (match_prefix 5) None (h_entries (sample_world m)) = [(match_key 5 0, MatchDoc m)]"
    "scan_page 100 (match_prefix 5) (Some (match_key 5 0)) (h_entries (sample_world m)) = []"
    by (simp_all add: scan_page_def sample_world_def)
qed

lemma gate_load_all: "load_all_matches 5 (sample_world m) = (Inr [(0, m)], sample_world m)"
proof -
  have visit: "visit_match (match_prefix 5) (match_key 5 0, MatchDoc m) = Inr (0, m)"
    using parse_u8_show [of 0] by (simp add: visit_match_def match_key_def dec_match_def)
  have n: "length (h_entries (sample_world m)) = Suc (Suc 0)" by (simp add: sample_world_def)
  show ?thesis
    unfolding load_all_matches_def n scan_loop.simps hbind_def storage_scan_def
    by (simp add: gate_storage gate_page visit hret_def hbind_def)
qed

lemma gate_admits: "resolve_rejection gate_event (sample_world sample_play) = (Inr (Inr gate_admission), sample_world sample_play)"
proof -
  let ?w = "sample_world sample_play"
  have round: "problem_round sample_setup 101 = Some 1"
    by (simp add: problem_round_def sample_setup_def sample_round_def contains_problem_def wrap_u8_def)
  have rdef: "round_for_match sample_setup 1 0 = Some sample_round"
    by (simp add: round_for_match_def stage_of_def match_count_def match_kind_of_def matches_in_round_def player_count_def
        sample_setup_def list_get_def wrap_u8_def)
  have mid: "match_id_for (player_count sample_setup) 1 0 = 0"
    by (simp add: match_id_for_def player_count_def round_offset_def wrap_u8_def)
  have play: "m_round sample_play = 1" "m_pos sample_play = 0" "m_state sample_play = InProgressPhase"
    "m_player_a sample_play = 11" "m_xiaoju sample_play = [sample_game]"
    by (simp_all add: sample_play_def match_default_def)
  have gate: "gate_check (gate_ctx_from_match sample_play sample_round) 11 101 = Inr ()"
    by (simp add: gate_check_def gate_ctx_from_match_def sample_play_def sample_game_def list_last_def list_get_def match_default_def)
  have slot: "slot_state (player_slot 5 11) ?w = (Some 1, None)"
    by (simp add: slot_state_def sample_world_def sample_feedback_def Let_def)
  have fb: "player_feedback_of 5 sample_play 11 101 pen ?w =
      (Inr \<lparr>pf_penalty_count = 0, pf_delay_seconds = 0, pf_pending_submission_id = None, pf_effective_at_us = None,
            pf_slot_token = Some \<lparr>st_key = player_slot 5 11, st_generation = Some 1\<rparr>\<rparr>, ?w)" for pen
    by (simp add: player_feedback_of_def play list_last_def observe_slot_def hbind_def gate_storage slot hret_def
        penalty_rows_def sample_world_def [THEN arg_cong [where f = db_submissions]] score_delay_seconds_def sat_i64_id is_i64_def
        rust_int)
  have clock: "h_contests ?w = []" "epoch_ms 0 = 0" "sat_i64 0 = 0"
    by (simp_all add: sample_world_def epoch_ms_def rat_trunc_def rust_int)
  show ?thesis
    by (simp add: resolve_rejection_def gate_event_def hbind_def gate_load_setup round gate_load_all find_players_match_def
        play rdef [unfolded One_nat_def] mid [unfolded One_nat_def] or_throw_def hret_def storage_snapshot_def gate_storage dec_match_def gate fb admit_open_game_def Let_def
        list_last_def read_clock_def find_contest_def clock contains_submission_at_us_def clock_cutoff_def
        sample_game_def gate_admission_def)
qed

lemma gate_commits:
  "admission_txn gate_row gate_admission (sample_world sample_play) = Inr (gate_row\<lparr>s_created_at := 0\<rparr>, gate_world)"
proof -
  have "slot_state (player_slot 5 11) (sample_world sample_play) = (Some 1, None)"
    by (simp add: slot_state_def sample_world_def sample_feedback_def Let_def)
  then have "\<exists>d'. admission_txn gate_row gate_admission (sample_world sample_play) = Inr (gate_row\<lparr>s_created_at := 0\<rparr>, d')"
    by (simp add: admission_txn_def gate_admission_def gate_storage gate_row_def sample_submission_row_def I64_MAX_def Let_def)
  then show ?thesis by (auto simp: gate_world_def)
qed

lemma admission_txn_faults: "admission_txn row ad d = Inr (model, d') \<Longrightarrow> db_faults d' = db_faults d"
  by (erule admission_txn_ok) (simp add: put_entry_def)

theorem admitted_submission_counts_witness:
  "\<exists>contest mid m rdef game. ev_contest_id gate_event = Some contest \<and>
    match_doc (sample_world sample_play) contest mid = Some m \<and> match_doc gate_world contest mid = Some m \<and>
    list_last (m_xiaoju m) = Some game \<and> \<not> x_decided game \<and>
    current_problem m rdef (ev_user_id gate_event) = Some (ev_problem_id gate_event) \<and>
    contains_submission_at_us game (s_created_at (gate_row\<lparr>s_created_at := 0\<rparr>)) \<and>
    (ev_user_id gate_event \<in> {m_player_a m, m_player_b m} \<longrightarrow>
      gate_row\<lparr>s_created_at := 0\<rparr> \<in> set (game_rows contest m (current_problem m rdef (m_player_a m))
        (current_problem m rdef (m_player_b m)) gate_world))"
  by (rule admitted_submission_counts [OF gate_admits gate_commits])
    (simp_all add: gate_row_def gate_event_def sample_submission_row_def gate_storage)

theorem admission_fences_updates_witness:
  "compare_and_set_snapshot (match_key 5 0) (Some (MatchDoc sample_play, 0)) (MatchDoc sample_match) gate_world =
     (Inr False, gate_world)"
proof -
  have key: "ad_guard_key gate_admission = match_key 5 0" by (simp add: gate_admission_def)
  have "db_faults gate_world = []"
    using admission_txn_faults [OF gate_commits] by (simp add: gate_storage)
  with admission_fences_updates [OF _ gate_commits, of "(MatchDoc sample_play, 0)" "MatchDoc sample_match"] show ?thesis
    by (simp add: key gate_storage)
qed

end
