(* ===== verification/Utf8.thy ===== *)
theory Utf8
  imports Prelude
begin

text \<open>
  \<open>std::str::from_utf8\<close> as the output comparator uses it (\<open>broccoli-compare/src/modes.rs\<close>): the
  characters of the longest valid prefix of a byte string, and whether what follows is the
  beginning of a character whose remaining bytes may still arrive or cannot be UTF-8. A byte is
  a natural number below 256, a character its code point.
\<close>

type_synonym byte = nat

datatype utf8_step = UChar nat "byte list" | UPartial | UInvalid

text \<open>The number of bytes that follow a lead byte, its payload, and the range of the first of them.\<close>

definition utf8_lead :: "byte \<Rightarrow> (nat \<times> nat \<times> nat \<times> nat) option" where
  "utf8_lead b =
    (if 194 \<le> b \<and> b \<le> 223 then Some (1, b - 192, 128, 191)
     else if b = 224 then Some (2, 0, 160, 191)
     else if b = 237 then Some (2, 13, 128, 159)
     else if 225 \<le> b \<and> b \<le> 239 then Some (2, b - 224, 128, 191)
     else if b = 240 then Some (3, 0, 144, 191)
     else if 241 \<le> b \<and> b \<le> 243 then Some (3, b - 240, 128, 191)
     else if b = 244 then Some (3, 4, 128, 143)
     else None)"

fun utf8_tail :: "nat \<Rightarrow> nat \<Rightarrow> nat \<Rightarrow> nat \<Rightarrow> byte list \<Rightarrow> utf8_step" where
  "utf8_tail 0 acc lo hi bs = UChar acc bs"
| "utf8_tail (Suc n) acc lo hi [] = UPartial"
| "utf8_tail (Suc n) acc lo hi (b # bs) =
     (if lo \<le> b \<and> b \<le> hi then utf8_tail n (acc * 64 + (b - 128)) 128 191 bs else UInvalid)"

fun utf8_next :: "byte list \<Rightarrow> utf8_step" where
  "utf8_next [] = UPartial"
| "utf8_next (b # bs) =
     (if b < 128 then UChar b bs
      else case utf8_lead b of None \<Rightarrow> UInvalid | Some (n, acc, lo, hi) \<Rightarrow> utf8_tail n acc lo hi bs)"

lemma utf8_tail_shorter: "utf8_tail n acc lo hi bs = UChar c rest \<Longrightarrow> length rest + n = length bs"
  by (induction n acc lo hi bs rule: utf8_tail.induct) (auto split: if_splits)

lemma utf8_next_shorter: "utf8_next bs = UChar c rest \<Longrightarrow> length rest < length bs"
  by (cases bs) (auto split: if_splits option.splits dest: utf8_tail_shorter)

text \<open>The end of the valid prefix: bytes that wait for more (none, when all is valid), or an error.\<close>

datatype utf8_end = Rest "byte list" | Bad

function utf8_decode :: "byte list \<Rightarrow> rstr \<times> utf8_end" where
  "utf8_decode bs =
    (if bs = [] then ([], Rest [])
     else case utf8_next bs of
       UChar c rest \<Rightarrow> (case utf8_decode rest of (cs, e) \<Rightarrow> (c # cs, e))
     | UPartial \<Rightarrow> ([], Rest bs)
     | UInvalid \<Rightarrow> ([], Bad))"
  by auto
termination by (relation "measure length") (auto dest: utf8_next_shorter)

declare utf8_decode.simps [simp del]

definition utf8_chars :: "byte list \<Rightarrow> rstr option" where
  "utf8_chars bs = (case utf8_decode bs of (cs, Rest []) \<Rightarrow> Some cs | _ \<Rightarrow> None)"

section \<open>Decoding in pieces\<close>

lemma utf8_tail_append:
  "utf8_tail n acc lo hi bs = UChar c rest \<Longrightarrow> utf8_tail n acc lo hi (bs @ ys) = UChar c (rest @ ys)"
  "utf8_tail n acc lo hi bs = UInvalid \<Longrightarrow> utf8_tail n acc lo hi (bs @ ys) = UInvalid"
  by (induction n acc lo hi bs rule: utf8_tail.induct) (auto split: if_splits)

lemma utf8_next_append:
  "utf8_next bs = UChar c rest \<Longrightarrow> utf8_next (bs @ ys) = UChar c (rest @ ys)"
  "utf8_next bs = UInvalid \<Longrightarrow> utf8_next (bs @ ys) = UInvalid"
  by (cases bs; auto split: if_splits option.splits simp: utf8_tail_append)+

lemma utf8_decode_Nil [simp]: "utf8_decode [] = ([], Rest [])"
  by (simp add: utf8_decode.simps)

lemma utf8_decode_append:
  "utf8_decode (xs @ ys) =
    (case utf8_decode xs of
       (cs, Rest p) \<Rightarrow> (case utf8_decode (p @ ys) of (cs', e) \<Rightarrow> (cs @ cs', e))
     | (cs, Bad) \<Rightarrow> (cs, Bad))"
proof (induction xs rule: utf8_decode.induct)
  case (1 bs)
  show ?case
  proof (cases "bs = []")
    case False
    show ?thesis
    proof (cases "utf8_next bs")
      case (UChar c rest)
      with False 1 utf8_next_append(1) [OF UChar, of ys] show ?thesis
        by (simp add: utf8_decode.simps [of bs] utf8_decode.simps [of "bs @ ys"] split: prod.splits utf8_end.splits)
    next
      case UPartial
      with False show ?thesis by (simp add: utf8_decode.simps [of bs] split: prod.splits)
    next
      case UInvalid
      with False utf8_next_append(2) [OF UInvalid, of ys] show ?thesis
        by (simp add: utf8_decode.simps [of bs] utf8_decode.simps [of "bs @ ys"])
    qed
  qed simp
qed

lemma utf8_decode_rest:
  "utf8_decode xs = (cs, Rest p) \<Longrightarrow> utf8_decode p = ([], Rest p) \<and> length cs + length p \<le> length xs"
proof (induction xs arbitrary: cs rule: utf8_decode.induct)
  case (1 bs)
  show ?case
  proof (cases "bs = []")
    case True
    with 1 show ?thesis by simp
  next
    case False
    note def = utf8_decode.simps [of bs]
    show ?thesis
    proof (cases "utf8_next bs")
      case (UChar c rest)
      with False 1(2) def obtain cs' where "utf8_decode rest = (cs', Rest p)" "cs = c # cs'"
        by (auto split: prod.splits)
      with 1(1) [OF False UChar] utf8_next_shorter [OF UChar] show ?thesis by fastforce
    next
      case UPartial
      with False 1(2) def show ?thesis by auto
    next
      case UInvalid
      with False 1(2) def show ?thesis by auto
    qed
  qed
qed

end
