(* ===== verification/CompareStreams.thy ===== *)
theory CompareStreams
  imports Utf8
begin

text \<open>
  The readers of the output comparator \<open>packages/broccoli-compare\<close>: the tee around standard input
  (\<open>main.rs\<close>), and the streams of characters, tokens and lines over it (\<open>modes.rs\<close>). A reader is
  the list of what its coming \<open>read\<close> calls do; past the end every call returns no bytes. How the
  bytes are cut into reads is arbitrary. A tee without a preview is a plain reader, which is how
  the answer file is read.
\<close>

section \<open>Readers\<close>

datatype io_error = Interrupted | InvalidData | InvalidInput | IoFailure

datatype read_event = Chunk "byte list" | Failed io_error

text \<open>The preview sink: what it holds, and for each coming write whether it fails.\<close>

record preview_sink =
  pv_written :: "byte list"
  pv_faults :: "bool list"

record tee_reader =
  tr_inner :: "read_event list"
  tr_preview :: "preview_sink option"
  tr_captured :: nat

definition INLINE_OUTPUT_PREVIEW_BYTES :: nat where "INLINE_OUTPUT_PREVIEW_BYTES = 64 * 1024"

definition write_all :: "byte list \<Rightarrow> preview_sink \<Rightarrow> bool \<times> preview_sink" where
  "write_all bs s =
    (case pv_faults s of
       True # fs \<Rightarrow> (False, s\<lparr>pv_faults := fs\<rparr>)
     | fs \<Rightarrow> (True, s\<lparr>pv_written := pv_written s @ bs, pv_faults := tl fs\<rparr>))"

definition tee :: "byte list \<Rightarrow> tee_reader \<Rightarrow> tee_reader" where
  "tee chunk r =
    (case tr_preview r of
       None \<Rightarrow> r
     | Some sink \<Rightarrow>
         if tr_captured r < INLINE_OUTPUT_PREVIEW_BYTES then
           let remaining = INLINE_OUTPUT_PREVIEW_BYTES - tr_captured r;
               n = min remaining (length chunk)
           in case write_all (take n chunk) sink of
                (True, sink') \<Rightarrow> r\<lparr>tr_preview := Some sink', tr_captured := tr_captured r + n\<rparr>
              | (False, _) \<Rightarrow> r\<lparr>tr_preview := None\<rparr>
         else r)"

definition tee_read :: "(tee_reader, io_error, byte list) call" where
  "tee_read r =
    (case tr_inner r of
       [] \<Rightarrow> (Inr [], r)
     | Chunk bs # es \<Rightarrow> (Inr bs, if bs \<noteq> [] then tee bs (r\<lparr>tr_inner := es\<rparr>) else r\<lparr>tr_inner := es\<rparr>)
     | Failed e # es \<Rightarrow> (Inl e, r\<lparr>tr_inner := es\<rparr>))"

lemma tr_inner_tee [simp]: "tr_inner (tee bs r) = tr_inner r"
  by (simp add: tee_def Let_def split: option.splits prod.splits bool.splits)

lemma tee_read_inner: "tr_inner (snd (tee_read r)) = tl (tr_inner r)"
  by (simp add: tee_read_def split: list.splits read_event.splits)

function read_some :: "(tee_reader, io_error, byte list) call" where
  "read_some r =
    (case tee_read r of
       (Inl Interrupted, r') \<Rightarrow> read_some r'
     | other \<Rightarrow> other)"
  by auto
termination
  by (relation "measure (length \<circ> tr_inner)")
    (auto simp: tee_read_def split: list.splits read_event.splits if_splits)

declare read_some.simps [simp del]

text \<open>Draining discards what is read; the tee still sees it.\<close>

function drain_to_eof :: "(tee_reader, io_error, unit) call" where
  "drain_to_eof r =
    (case tee_read r of
       (Inr bs, r') \<Rightarrow> if bs = [] then (Inr (), r') else drain_to_eof r'
     | (Inl e, r') \<Rightarrow> if e = Interrupted then drain_to_eof r' else (Inl e, r'))"
  by auto
termination
  by (relation "measure (length \<circ> tr_inner)")
    (auto simp: tee_read_def split: list.splits read_event.splits if_splits)

declare drain_to_eof.simps [simp del]

section \<open>Characters\<close>

record char_stream =
  cs_reader :: tee_reader
  cs_pending :: "byte list"
  cs_chars :: rstr
  cs_eof :: bool

definition char_stream_new :: "tee_reader \<Rightarrow> char_stream" where
  "char_stream_new r = \<lparr>cs_reader = r, cs_pending = [], cs_chars = [], cs_eof = False\<rparr>"

definition fill :: "(char_stream, io_error, unit) call" where
  "fill cs =
    (case read_some (cs_reader cs) of
       (Inl e, r) \<Rightarrow> (Inl e, cs\<lparr>cs_reader := r\<rparr>)
     | (Inr bs, r) \<Rightarrow>
         let pending = cs_pending cs @ bs;
             cs1 = cs\<lparr>cs_reader := r, cs_pending := pending, cs_eof := (if bs = [] then True else cs_eof cs)\<rparr>
         in case utf8_decode pending of
              (chars, Rest p) \<Rightarrow> (Inr (), cs1\<lparr>cs_chars := cs_chars cs @ chars, cs_pending := p\<rparr>)
            | (_, Bad) \<Rightarrow> (Inl InvalidData, cs1))"

lemma read_some_shorter:
  "read_some r = (Inr bs, r') \<Longrightarrow> length (tr_inner r') \<le> length (tr_inner r) \<and> (bs \<noteq> [] \<longrightarrow> length (tr_inner r') < length (tr_inner r))"
proof (induction r rule: read_some.induct)
  case (1 r)
  obtain res r1 where step: "tee_read r = (res, r1)" by force
  have shorter: "length (tr_inner r1) \<le> length (tr_inner r)" using tee_read_inner [of r] step by simp
  show ?case
  proof (cases "res = Inl Interrupted")
    case True
    have *: "read_some r1 = (Inr bs, r')" using "1.prems" step True by (simp add: read_some.simps [of r])
    have "length (tr_inner r') \<le> length (tr_inner r1) \<and> (bs \<noteq> [] \<longrightarrow> length (tr_inner r') < length (tr_inner r1))"
      by (rule "1.IH" [OF step [symmetric] True refl *])
    with shorter show ?thesis by auto
  next
    case False
    with "1.prems" step have "tee_read r = (Inr bs, r')"
      by (auto simp: read_some.simps [of r] split: sum.splits io_error.splits)
    then show ?thesis by (auto simp: tee_read_def split: list.splits read_event.splits)
  qed
qed

lemma fill_progress:
  "fill cs = (Inr u, cs') \<Longrightarrow> cs_eof cs' \<or> length (tr_inner (cs_reader cs')) < length (tr_inner (cs_reader cs))"
  by (auto simp: fill_def Let_def dest: read_some_shorter split: prod.splits sum.splits utf8_end.splits if_splits)

function next_char :: "(char_stream, io_error, nat option) call" where
  "next_char cs =
    (case cs_chars cs of
       c # rest \<Rightarrow> (Inr (Some c), cs\<lparr>cs_chars := rest\<rparr>)
     | [] \<Rightarrow>
         if cs_eof cs then
           (if cs_pending cs = [] then (Inr None, cs) else (Inl InvalidData, cs))
         else case fill cs of
                (Inl e, cs') \<Rightarrow> (Inl e, cs')
              | (Inr _, cs') \<Rightarrow> next_char cs')"
  by auto
termination
  by (relation "measure (\<lambda>cs. if cs_eof cs then 0 else Suc (length (tr_inner (cs_reader cs))))")
    (auto dest!: sym [of _ "fill _"] fill_progress)

declare next_char.simps [simp del]

section \<open>What a reader holds\<close>

text \<open>The bytes still to come, and readers that fail only by being interrupted.\<close>

fun event_bytes :: "read_event \<Rightarrow> byte list" where
  "event_bytes (Chunk bs) = bs"
| "event_bytes (Failed _) = []"

fun event_ok :: "read_event \<Rightarrow> bool" where
  "event_ok (Chunk bs) = (bs \<noteq> [])"
| "event_ok (Failed e) = (e = Interrupted)"

definition reader_bytes :: "tee_reader \<Rightarrow> byte list" where
  "reader_bytes r = concat (map event_bytes (tr_inner r))"

definition reader_ok :: "tee_reader \<Rightarrow> bool" where
  "reader_ok r \<longleftrightarrow> list_all event_ok (tr_inner r)"

lemma tee_read_bytes:
  "tee_read r = (res, r') \<Longrightarrow> reader_bytes r = (case res of Inr bs \<Rightarrow> bs | Inl _ \<Rightarrow> []) @ reader_bytes r'"
  by (auto simp: tee_read_def reader_bytes_def split: list.splits read_event.splits if_splits)

lemma tee_read_ok:
  "tee_read r = (res, r') \<Longrightarrow> reader_ok r \<Longrightarrow>
    reader_ok r' \<and> (case res of Inr bs \<Rightarrow> bs = [] \<longrightarrow> tr_inner r' = [] | Inl e \<Rightarrow> e = Interrupted)"
  by (auto simp: tee_read_def reader_ok_def split: list.splits read_event.splits if_splits)

text \<open>A call of \<open>read_some\<close> is some interrupted reads and one that is not.\<close>

lemma read_some_induct:
  assumes last: "\<And>r res r'. tee_read r = (res, r') \<Longrightarrow> res \<noteq> Inl Interrupted \<Longrightarrow> P r (res, r')"
    and again: "\<And>r r' out. tee_read r = (Inl Interrupted, r') \<Longrightarrow> P r' out \<Longrightarrow> P r out"
  shows "P r (read_some r)"
proof (induction r rule: read_some.induct)
  case (1 r)
  obtain res r' where step: "tee_read r = (res, r')" by force
  show ?case
  proof (cases "res = Inl Interrupted")
    case True
    then have "read_some r = read_some r'" by (simp add: read_some.simps [of r] step)
    with 1 [OF step [symmetric] True refl] again step True show ?thesis by simp
  next
    case False
    then have "read_some r = (res, r')"
      by (auto simp: read_some.simps [of r] step split: sum.splits io_error.splits)
    with last step False show ?thesis by simp
  qed
qed

lemma read_some_bytes: "case read_some r of (res, r') \<Rightarrow>
    reader_bytes r = (case res of Inr bs \<Rightarrow> bs | Inl _ \<Rightarrow> []) @ reader_bytes r'"
  by (rule read_some_induct) (auto dest: tee_read_bytes)

lemma read_some_ok: "case read_some r of (res, r') \<Rightarrow> reader_ok r \<longrightarrow>
    reader_ok r' \<and> (\<exists>bs. res = Inr bs \<and> (bs = [] \<longrightarrow> tr_inner r' = []))"
  by (rule read_some_induct) (auto dest!: tee_read_ok split: sum.splits)

section \<open>Streams of items\<close>

text \<open>
  What the comparison relies on in each stream: a pull that returns an item takes it off the front
  of those the stream holds; a pull that returns none means that the stream holds nothing more and
  was valid to its end; the only error is that of invalid data, and only where there is some.
\<close>

locale pull_stream =
  fixes pull :: "('s, io_error, 'a option) call"
    and ok :: "'s \<Rightarrow> bool"
    and items :: "'s \<Rightarrow> 'a list"
    and clean :: "'s \<Rightarrow> bool"
  assumes pull_some:
      "ok s \<Longrightarrow> pull s = (Inr (Some x), s') \<Longrightarrow> ok s' \<and> items s = x # items s' \<and> clean s' = clean s"
    and pull_none: "ok s \<Longrightarrow> pull s = (Inr None, s') \<Longrightarrow> ok s' \<and> items s' = [] \<and> clean s' \<and> items s = [] \<and> clean s"
    and pull_err: "ok s \<Longrightarrow> pull s = (Inl e, s') \<Longrightarrow> e = InvalidData \<and> \<not> clean s"
begin

lemma pull_clean:
  assumes "ok s" "clean s"
  shows "case items s of
      [] \<Rightarrow> \<exists>s'. pull s = (Inr None, s')
    | x # xs \<Rightarrow> \<exists>s'. pull s = (Inr (Some x), s') \<and> ok s' \<and> clean s' \<and> items s' = xs"
proof -
  obtain res s' where pull: "pull s = (res, s')" by force
  show ?thesis
  proof (cases res)
    case (Inl e)
    with pull_err pull assms show ?thesis by blast
  next
    case (Inr it)
    then show ?thesis
      using pull_some [OF assms(1), of _ s'] pull_none [OF assms(1), of s'] pull assms(2) by (cases it) auto
  qed
qed

end

section \<open>The characters of a stream\<close>

definition cs_view :: "char_stream \<Rightarrow> rstr \<times> utf8_end" where
  "cs_view cs = (case utf8_decode (cs_pending cs @ reader_bytes (cs_reader cs)) of (l, e) \<Rightarrow> (cs_chars cs @ l, e))"

definition cs_ok :: "char_stream \<Rightarrow> bool" where
  "cs_ok cs \<longleftrightarrow> reader_ok (cs_reader cs)
    \<and> (cs_eof cs \<longrightarrow> tr_inner (cs_reader cs) = [])
    \<and> utf8_decode (cs_pending cs) = ([], Rest (cs_pending cs))"

definition cs_items :: "char_stream \<Rightarrow> rstr" where "cs_items cs = fst (cs_view cs)"
definition cs_clean :: "char_stream \<Rightarrow> bool" where "cs_clean cs \<longleftrightarrow> snd (cs_view cs) = Rest []"

lemma cs_ok_new: "reader_ok r \<Longrightarrow> cs_ok (char_stream_new r)"
  by (simp add: cs_ok_def char_stream_new_def)

lemma cs_view_new: "cs_view (char_stream_new r) = utf8_decode (reader_bytes r)"
  by (simp add: cs_view_def char_stream_new_def)

lemma fill_view:
  assumes "cs_ok cs" and "fill cs = (res, cs')"
  shows "(res = Inr () \<and> cs_ok cs' \<and> cs_view cs' = cs_view cs) \<or> (res = Inl InvalidData \<and> snd (cs_view cs) = Bad)"
proof -
  obtain bs r where read: "read_some (cs_reader cs) = (Inr bs, r)" and r: "reader_ok r" "bs = [] \<longrightarrow> tr_inner r = []"
    using read_some_ok [of "cs_reader cs"] assms(1) by (auto simp: cs_ok_def)
  then have bytes: "reader_bytes (cs_reader cs) = bs @ reader_bytes r"
    using read_some_bytes [of "cs_reader cs"] by simp
  obtain l e where dec: "utf8_decode (cs_pending cs @ bs) = (l, e)" by force
  have eof: "cs_eof cs \<Longrightarrow> tr_inner r = []"
    using assms(1) read read_some_bytes [of "cs_reader cs"] read_some_shorter [OF read] by (auto simp: cs_ok_def)
  have "cs_pending cs @ reader_bytes (cs_reader cs) = (cs_pending cs @ bs) @ reader_bytes r"
    by (simp add: bytes)
  note view = utf8_decode_append [of "cs_pending cs @ bs" "reader_bytes r", folded this]
  show ?thesis
  proof (cases e)
    case (Rest p)
    with dec utf8_decode_rest [of "cs_pending cs @ bs" l p] have p: "utf8_decode p = ([], Rest p)" by simp
    define eof' where "eof' = (if bs = [] then True else cs_eof cs)"
    have "res = Inr ()" "cs' = cs\<lparr>cs_reader := r, cs_chars := cs_chars cs @ l, cs_pending := p, cs_eof := eof'\<rparr>"
      using assms(2) dec Rest by (auto simp: fill_def read Let_def eof'_def)
    with r p eof dec Rest show ?thesis
      by (simp add: cs_ok_def cs_view_def view eof'_def split: prod.splits)
  next
    case Bad
    with assms(2) dec show ?thesis by (auto simp: fill_def read Let_def cs_view_def view)
  qed
qed

lemma next_char_view:
  "cs_ok cs \<Longrightarrow> next_char cs = (res, cs') \<Longrightarrow>
    (case res of
       Inr (Some c) \<Rightarrow> cs_ok cs' \<and> cs_view cs = (c # fst (cs_view cs'), snd (cs_view cs'))
     | Inr None \<Rightarrow> cs_ok cs' \<and> cs_view cs' = ([], Rest []) \<and> cs_view cs = ([], Rest [])
     | Inl e \<Rightarrow> e = InvalidData \<and> snd (cs_view cs) \<noteq> Rest [])"
proof (induction cs rule: next_char.induct)
  case (1 cs)
  note def = next_char.simps [of cs]
  show ?case
  proof (cases "cs_chars cs")
    case (Cons c rest)
    with 1(2,3) def show ?thesis by (auto simp: cs_ok_def cs_view_def split: prod.splits)
  next
    case Nil
    show ?thesis
    proof (cases "cs_eof cs")
      case True
      then have "utf8_decode (cs_pending cs @ reader_bytes (cs_reader cs)) = ([], Rest (cs_pending cs))"
        using 1(2) by (simp add: cs_ok_def reader_bytes_def)
      with True Nil 1(2,3) def show ?thesis by (auto simp: cs_view_def split: if_splits)
    next
      case False
      obtain f cs1 where fill: "fill cs = (f, cs1)" by force
      show ?thesis
        using fill_view [OF 1(2) fill]
      proof
        assume f: "f = Inr () \<and> cs_ok cs1 \<and> cs_view cs1 = cs_view cs"
        with Nil False def fill 1(3) have "next_char cs1 = (res, cs')" by simp
        with 1(1) [OF Nil False fill [symmetric], of "()"] f show ?thesis
          by (auto split: sum.splits option.splits)
      next
        assume "f = Inl InvalidData \<and> snd (cs_view cs) = Bad"
        with Nil False def fill 1(3) show ?thesis by auto
      qed
    qed
  qed
qed

interpretation chars: pull_stream next_char cs_ok cs_items cs_clean
  by unfold_locales (auto dest!: next_char_view simp: cs_items_def cs_clean_def)

lemmas chars_laws = chars.pull_some chars.pull_none chars.pull_err

text \<open>What bounds the number of characters a stream can still give.\<close>

definition cs_size :: "char_stream \<Rightarrow> nat" where
  "cs_size cs = length (cs_chars cs) + length (cs_pending cs) + length (reader_bytes (cs_reader cs))"

lemma fill_size:
  assumes "fill cs = (Inr u, cs')"
  shows "cs_size cs' \<le> cs_size cs"
proof -
  obtain bs r l p where read: "read_some (cs_reader cs) = (Inr bs, r)"
    and dec: "utf8_decode (cs_pending cs @ bs) = (l, Rest p)"
    and cs': "cs_reader cs' = r" "cs_chars cs' = cs_chars cs @ l" "cs_pending cs' = p"
    using assms by (auto simp: fill_def Let_def split: prod.splits sum.splits utf8_end.splits)
  have "length (reader_bytes (cs_reader cs)) = length bs + length (reader_bytes r)"
    using read_some_bytes [of "cs_reader cs"] by (simp add: read)
  with utf8_decode_rest [OF dec] show ?thesis by (simp add: cs_size_def cs')
qed

lemma next_char_sizes:
  "next_char cs = (Inr it, cs') \<Longrightarrow> if it = None then cs_size cs' \<le> cs_size cs else cs_size cs' < cs_size cs"
proof (induction cs rule: next_char.induct)
  case (1 cs)
  note def = next_char.simps [of cs]
  show ?case
  proof (cases "cs_chars cs")
    case (Cons c rest)
    with 1(2) def show ?thesis by (auto simp: cs_size_def)
  next
    case Nil
    show ?thesis
    proof (cases "cs_eof cs")
      case True
      with Nil 1(2) def show ?thesis by (auto split: if_splits)
    next
      case False
      with Nil 1(2) def obtain u cs1 where fill: "fill cs = (Inr u, cs1)" and tail: "next_char cs1 = (Inr it, cs')"
        by (auto split: prod.splits sum.splits)
      with 1(1) [OF Nil False fill [symmetric] refl tail] fill_size [OF fill] show ?thesis by (auto split: if_splits)
    qed
  qed
qed

lemma next_char_size: "next_char cs = (Inr (Some c), cs') \<Longrightarrow> cs_size cs' < cs_size cs"
  using next_char_sizes by fastforce

lemma next_char_size_None: "next_char cs = (Inr None, cs') \<Longrightarrow> cs_size cs' \<le> cs_size cs"
  using next_char_sizes by fastforce

end
