(* ===== verification/CompareItems.thy ===== *)
theory CompareItems
  imports CompareStreams
begin

text \<open>
  The streams of tokens and of lines of \<open>broccoli-compare/src/modes.rs\<close>, and the specifications
  they meet: the tokens are those of \<open>str::split_whitespace\<close> and the lines those of the text split
  at its newlines, each without its trailing whitespace, less the empty ones at the end.
\<close>

section \<open>Reference definitions\<close>

fun pieces_of :: "(nat \<Rightarrow> bool) \<Rightarrow> rstr \<Rightarrow> rstr list" where
  "pieces_of P [] = [[]]"
| "pieces_of P (c # s) =
    (if P c then [] # pieces_of P s else (c # hd (pieces_of P s)) # tl (pieces_of P s))"

definition split_whitespace :: "rstr \<Rightarrow> rstr list" where
  "split_whitespace s = filter (\<lambda>w. w \<noteq> []) (pieces_of is_whitespace s)"

definition strip_blank :: "rstr list \<Rightarrow> rstr list" where
  "strip_blank ls = rev (dropWhile (\<lambda>l. l = []) (rev ls))"

definition split_lines_trimmed :: "rstr \<Rightarrow> rstr list" where
  "split_lines_trimmed s = strip_blank (map trim_end (pieces_of (\<lambda>c. c = 10) s))"

lemma pieces_of_nonempty [simp]: "pieces_of P s \<noteq> []"
  by (cases s) auto

lemma pieces_of_Cons: "\<exists>l ls. pieces_of P s = l # ls"
  by (cases "pieces_of P s") auto

lemma is_whitespace_newline [simp]: "is_whitespace 10" "is_whitespace 13"
  by (simp_all add: is_whitespace_def)

lemma strip_blank_snoc [simp]: "strip_blank (ls @ [l]) = (if l = [] then strip_blank ls else ls @ [l])"
  by (simp add: strip_blank_def)

lemma strip_blank_Nil [simp]: "strip_blank [] = []"
  by (simp add: strip_blank_def)

lemma strip_blank_replicate [simp]: "strip_blank (replicate n []) = []"
  by (simp add: strip_blank_def)

lemma strip_blank_line:
  "l \<noteq> [] \<Longrightarrow> strip_blank (ls @ l # ls') = ls @ l # strip_blank ls'"
  by (simp add: strip_blank_def dropWhile_append)

lemma strip_blank_decomp: "\<exists>n. ls = strip_blank ls @ replicate n []"
proof (induction ls rule: rev_induct)
  case (snoc l ls)
  then obtain n where "ls = strip_blank ls @ replicate n []" ..
  then have "l = [] \<Longrightarrow> ls @ [l] = strip_blank ls @ replicate (Suc n) []"
    by (metis append.assoc replicate_append_same replicate_Suc)
  moreover have "l \<noteq> [] \<Longrightarrow> ls @ [l] = (ls @ [l]) @ replicate 0 []" by simp
  ultimately show ?case by (metis strip_blank_snoc)
qed simp

section \<open>Tokens\<close>

record token_stream =
  ts_chars :: char_stream
  ts_partial :: rstr

definition token_stream_new :: "tee_reader \<Rightarrow> token_stream" where
  "token_stream_new r = \<lparr>ts_chars = char_stream_new r, ts_partial = []\<rparr>"

function next_token :: "(token_stream, io_error, rstr option) call" where
  "next_token ts =
    (case next_char (ts_chars ts) of
       (Inl e, cs) \<Rightarrow> (Inl e, ts\<lparr>ts_chars := cs\<rparr>)
     | (Inr (Some ch), cs) \<Rightarrow>
         if is_whitespace ch then
           if ts_partial ts \<noteq> [] then (Inr (Some (ts_partial ts)), ts\<lparr>ts_chars := cs, ts_partial := []\<rparr>)
           else next_token (ts\<lparr>ts_chars := cs\<rparr>)
         else next_token (ts\<lparr>ts_chars := cs, ts_partial := ts_partial ts @ [ch]\<rparr>)
     | (Inr None, cs) \<Rightarrow>
         if ts_partial ts = [] then (Inr None, ts\<lparr>ts_chars := cs\<rparr>)
         else (Inr (Some (ts_partial ts)), ts\<lparr>ts_chars := cs, ts_partial := []\<rparr>))"
  by auto
termination
  by (relation "measure (cs_size \<circ> ts_chars)") (auto dest!: sym [of _ "next_char _"] next_char_size)

declare next_token.simps [simp del]

fun words_from :: "rstr \<Rightarrow> rstr \<Rightarrow> rstr list" where
  "words_from p [] = (if p = [] then [] else [p])"
| "words_from p (c # s) =
    (if is_whitespace c then if p = [] then words_from [] s else p # words_from [] s
     else words_from (p @ [c]) s)"

lemma words_from_split:
  "words_from p s = filter (\<lambda>w. w \<noteq> []) ((p @ hd (pieces_of is_whitespace s)) # tl (pieces_of is_whitespace s))"
proof (induction p s rule: words_from.induct)
  case (2 p c s)
  then show ?case using pieces_of_Cons [of is_whitespace s] by auto
qed auto

lemma words_from_split_whitespace: "words_from [] s = split_whitespace s"
  using words_from_split [of "[]" s] by (simp add: split_whitespace_def)

definition ts_ok :: "token_stream \<Rightarrow> bool" where "ts_ok ts \<longleftrightarrow> cs_ok (ts_chars ts)"
definition ts_items :: "token_stream \<Rightarrow> rstr list" where
  "ts_items ts = words_from (ts_partial ts) (cs_items (ts_chars ts))"
definition ts_clean :: "token_stream \<Rightarrow> bool" where "ts_clean ts \<longleftrightarrow> cs_clean (ts_chars ts)"

lemma next_token_items:
  "ts_ok ts \<Longrightarrow> next_token ts = (res, ts') \<Longrightarrow>
    (case res of
       Inr (Some t) \<Rightarrow> ts_ok ts' \<and> ts_items ts = t # ts_items ts' \<and> ts_clean ts' = ts_clean ts
     | Inr None \<Rightarrow> ts_ok ts' \<and> ts_items ts' = [] \<and> ts_clean ts' \<and> ts_items ts = [] \<and> ts_clean ts
     | Inl e \<Rightarrow> e = InvalidData \<and> \<not> ts_clean ts)"
proof (induction ts rule: next_token.induct)
  case (1 ts)
  note def = next_token.simps [of ts] and ok = 1(3) [unfolded ts_ok_def]
  obtain r cs where step: "next_char (ts_chars ts) = (r, cs)" by force
  show ?case
  proof (cases r)
    case (Inl e)
    with chars.pull_err [OF ok] step 1(4) def show ?thesis by (auto simp: ts_clean_def)
  next
    case (Inr it)
    show ?thesis
    proof (cases it)
      case None
      with chars.pull_none [OF ok] step Inr
      have "cs_items (ts_chars ts) = []" "cs_clean (ts_chars ts)" "cs_ok cs" "cs_items cs = []" "cs_clean cs" by auto
      with None Inr step 1(4) def show ?thesis
        by (auto simp: ts_clean_def ts_items_def ts_ok_def split: if_splits)
    next
      case (Some ch)
      have cs: "cs_ok cs" "cs_items (ts_chars ts) = ch # cs_items cs" "cs_clean cs = cs_clean (ts_chars ts)"
        using chars.pull_some [OF ok] step Inr Some by auto
      show ?thesis
      proof (cases "is_whitespace ch")
        case True
        show ?thesis
        proof (cases "ts_partial ts = []")
          case partial: True
          have "next_token (ts\<lparr>ts_chars := cs\<rparr>) = (res, ts')"
            using 1(4) def step Inr Some True partial by simp
          with 1(1) [OF step [symmetric] Inr Some True] partial cs show ?thesis
            by (simp add: ts_ok_def ts_items_def ts_clean_def True split: sum.splits option.splits)
        next
          case False
          with 1(4) def step Inr Some True cs show ?thesis
            by (auto simp: ts_ok_def ts_items_def ts_clean_def)
        qed
      next
        case False
        have "next_token (ts\<lparr>ts_chars := cs, ts_partial := ts_partial ts @ [ch]\<rparr>) = (res, ts')"
          using 1(4) def step Inr Some False by simp
        with 1(2) [OF step [symmetric] Inr Some False] cs show ?thesis
          by (simp add: ts_ok_def ts_items_def ts_clean_def False split: sum.splits option.splits)
      qed
    qed
  qed
qed

interpretation tokens: pull_stream next_token ts_ok ts_items ts_clean
  by unfold_locales (auto dest!: next_token_items)

lemma ts_new:
  "reader_ok r \<Longrightarrow> ts_ok (token_stream_new r)"
  "ts_items (token_stream_new r) = split_whitespace (fst (utf8_decode (reader_bytes r)))"
  "ts_clean (token_stream_new r) \<longleftrightarrow> snd (utf8_decode (reader_bytes r)) = Rest []"
  by (simp_all add: ts_ok_def token_stream_new_def cs_ok_new ts_items_def ts_clean_def cs_items_def cs_clean_def
      cs_view_new words_from_split_whitespace)

definition ts_size :: "token_stream \<Rightarrow> nat" where
  "ts_size ts = length (ts_partial ts) + cs_size (ts_chars ts)"

lemma next_token_size: "next_token ts = (Inr (Some t), ts') \<Longrightarrow> ts_size ts' < ts_size ts"
proof (induction ts rule: next_token.induct)
  case (1 ts)
  note def = next_token.simps [of ts]
  obtain r cs where step: "next_char (ts_chars ts) = (r, cs)" by force
  show ?case
  proof (cases r)
    case (Inl e)
    with step 1(3) def show ?thesis by simp
  next
    case (Inr it)
    show ?thesis
    proof (cases it)
      case None
      with Inr step next_char_size_None have "cs_size cs \<le> cs_size (ts_chars ts)" by blast
      with None Inr step 1(3) def show ?thesis
        by (auto simp: ts_size_def neq_Nil_conv split: if_splits)
    next
      case (Some ch)
      with Inr step next_char_size have less: "cs_size cs < cs_size (ts_chars ts)" by blast
      show ?thesis
        using 1(1) [OF step [symmetric] Inr Some] 1(2) [OF step [symmetric] Inr Some] 1(3) def step Inr Some less
        by (cases "is_whitespace ch"; cases "ts_partial ts = []") (auto simp: ts_size_def)
    qed
  qed
qed

section \<open>Lines\<close>

record line_stream =
  ls_chars :: char_stream
  ls_current :: rstr
  ls_pending_empty :: nat
  ls_flush_empty :: nat
  ls_queued :: "rstr list"

definition line_stream_new :: "tee_reader \<Rightarrow> line_stream" where
  "line_stream_new r =
    \<lparr>ls_chars = char_stream_new r, ls_current = [], ls_pending_empty = 0, ls_flush_empty = 0, ls_queued = []\<rparr>"

definition drop_cr :: "rstr \<Rightarrow> rstr" where
  "drop_cr s = (if s \<noteq> [] \<and> last s = 13 then butlast s else s)"

function next_raw_line :: "(line_stream, io_error, rstr option) call" where
  "next_raw_line ls =
    (case next_char (ls_chars ls) of
       (Inl e, cs) \<Rightarrow> (Inl e, ls\<lparr>ls_chars := cs\<rparr>)
     | (Inr (Some ch), cs) \<Rightarrow>
         if ch = 10 then (Inr (Some (drop_cr (ls_current ls))), ls\<lparr>ls_chars := cs, ls_current := []\<rparr>)
         else next_raw_line (ls\<lparr>ls_chars := cs, ls_current := ls_current ls @ [ch]\<rparr>)
     | (Inr None, cs) \<Rightarrow>
         if ls_current ls = [] then (Inr None, ls\<lparr>ls_chars := cs\<rparr>)
         else (Inr (Some (ls_current ls)), ls\<lparr>ls_chars := cs, ls_current := []\<rparr>))"
  by auto
termination
  by (relation "measure (cs_size \<circ> ls_chars)") (auto dest!: sym [of _ "next_char _"] next_char_size)

declare next_raw_line.simps [simp del]

definition ls_size :: "line_stream \<Rightarrow> nat" where
  "ls_size ls = length (ls_current ls) + cs_size (ls_chars ls)"


lemma next_raw_line_frame:
  "next_raw_line ls = (Inr it, ls') \<Longrightarrow>
    (if it = None then ls_size ls' \<le> ls_size ls else ls_size ls' < ls_size ls)
    \<and> ls_pending_empty ls' = ls_pending_empty ls
    \<and> ls_flush_empty ls' = ls_flush_empty ls \<and> ls_queued ls' = ls_queued ls"
proof (induction ls rule: next_raw_line.induct)
  case (1 ls)
  note def = next_raw_line.simps [of ls]
  obtain r cs where step: "next_char (ls_chars ls) = (r, cs)" by force
  show ?case
  proof (cases r)
    case (Inl e)
    with step 1(2) def show ?thesis by simp
  next
    case (Inr ch)
    show ?thesis
    proof (cases ch)
      case None
      with Inr step next_char_size_None have "cs_size cs \<le> cs_size (ls_chars ls)" by blast
      with None Inr step 1(2) def show ?thesis
        by (cases "ls_current ls") (auto simp: ls_size_def split: if_splits)
    next
      case (Some c)
      with Inr step next_char_size have less: "cs_size cs < cs_size (ls_chars ls)" by blast
      show ?thesis
        using 1(1) [OF step [symmetric] Inr Some] 1(2) def step Inr Some less
        by (cases "c = 10") (auto simp: ls_size_def split: if_splits)
    qed
  qed
qed

function next_line :: "(line_stream, io_error, rstr option) call" where
  "next_line ls =
    (if 0 < ls_flush_empty ls then (Inr (Some []), ls\<lparr>ls_flush_empty := ls_flush_empty ls - 1\<rparr>)
     else case ls_queued ls of
       line # rest \<Rightarrow> (Inr (Some line), ls\<lparr>ls_queued := rest\<rparr>)
     | [] \<Rightarrow>
         case next_raw_line ls of
           (Inl e, ls1) \<Rightarrow> (Inl e, ls1)
         | (Inr None, ls1) \<Rightarrow> (Inr None, ls1\<lparr>ls_pending_empty := 0\<rparr>)
         | (Inr (Some raw), ls1) \<Rightarrow>
             let line = trim_end raw
             in if line = [] then next_line (ls1\<lparr>ls_pending_empty := ls_pending_empty ls1 + 1\<rparr>)
                else next_line (ls1\<lparr>ls_flush_empty := ls_pending_empty ls1, ls_pending_empty := 0,
                                   ls_queued := ls_queued ls1 @ [line]\<rparr>))"
  by auto
termination
  by (relation "measure ls_size") (auto dest!: sym [of _ "next_raw_line _"] next_raw_line_frame simp: ls_size_def)

declare next_line.simps [simp del]

fun raw_from :: "rstr \<Rightarrow> rstr \<Rightarrow> rstr list" where
  "raw_from cur [] = (if cur = [] then [] else [cur])"
| "raw_from cur (c # s) = (if c = 10 then drop_cr cur # raw_from [] s else raw_from (cur @ [c]) s)"

lemma trim_end_drop_cr [simp]: "trim_end (drop_cr s) = trim_end s"
  by (cases s rule: rev_cases) (auto simp: drop_cr_def trim_end_def)

lemma raw_from_split:
  "\<exists>n. map trim_end ((cur @ hd (pieces_of (\<lambda>c. c = 10) s)) # tl (pieces_of (\<lambda>c. c = 10) s))
       = map trim_end (raw_from cur s) @ replicate n []"
proof (induction cur s rule: raw_from.induct)
  case (1 cur)
  show ?case by (cases "cur = []") (auto simp: trim_end_def intro: exI [of _ 0] exI [of _ 1])
next
  case (2 cur c s)
  then show ?case using pieces_of_Cons [of "\<lambda>c. c = 10" s] by (cases "c = 10") auto
qed

lemma strip_blank_append_blanks [simp]: "strip_blank (ls @ replicate n []) = strip_blank ls"
  by (induction n) (simp_all flip: replicate_append_same append_assoc)

lemma split_lines_trimmed_raw: "strip_blank (map trim_end (raw_from [] s)) = split_lines_trimmed s"
  using raw_from_split [of "[]" s] by (auto simp: split_lines_trimmed_def)

definition ls_ok :: "line_stream \<Rightarrow> bool" where "ls_ok ls \<longleftrightarrow> cs_ok (ls_chars ls)"
definition ls_clean :: "line_stream \<Rightarrow> bool" where "ls_clean ls \<longleftrightarrow> cs_clean (ls_chars ls)"
definition ls_raws :: "line_stream \<Rightarrow> rstr list" where
  "ls_raws ls = raw_from (ls_current ls) (cs_items (ls_chars ls))"
definition ls_items :: "line_stream \<Rightarrow> rstr list" where
  "ls_items ls = replicate (ls_flush_empty ls) [] @ ls_queued ls
    @ strip_blank (replicate (ls_pending_empty ls) [] @ map trim_end (ls_raws ls))"

lemma next_raw_line_items:
  "ls_ok ls \<Longrightarrow> next_raw_line ls = (res, ls') \<Longrightarrow>
    (case res of
       Inr (Some l) \<Rightarrow> ls_ok ls' \<and> ls_raws ls = l # ls_raws ls' \<and> ls_clean ls' = ls_clean ls
     | Inr None \<Rightarrow> ls_ok ls' \<and> ls_raws ls' = [] \<and> ls_clean ls' \<and> ls_raws ls = [] \<and> ls_clean ls
     | Inl e \<Rightarrow> e = InvalidData \<and> \<not> ls_clean ls)"
proof (induction ls rule: next_raw_line.induct)
  case (1 ls)
  note def = next_raw_line.simps [of ls] and ok = 1(2) [unfolded ls_ok_def]
  obtain r cs where step: "next_char (ls_chars ls) = (r, cs)" by force
  show ?case
  proof (cases r)
    case (Inl e)
    with chars.pull_err [OF ok] step 1(3) def show ?thesis by (auto simp: ls_clean_def)
  next
    case (Inr it)
    show ?thesis
    proof (cases it)
      case None
      with chars.pull_none [OF ok] step Inr
      have "cs_items (ls_chars ls) = []" "cs_clean (ls_chars ls)" "cs_ok cs" "cs_items cs = []" "cs_clean cs" by auto
      with None Inr step 1(3) def show ?thesis
        by (auto simp: ls_clean_def ls_raws_def ls_ok_def split: if_splits)
    next
      case (Some ch)
      have cs: "cs_ok cs" "cs_items (ls_chars ls) = ch # cs_items cs" "cs_clean cs = cs_clean (ls_chars ls)"
        using chars.pull_some [OF ok] step Inr Some by auto
      show ?thesis
      proof (cases "ch = 10")
        case True
        with 1(3) def step Inr Some cs show ?thesis by (auto simp: ls_ok_def ls_raws_def ls_clean_def)
      next
        case False
        have "next_raw_line (ls\<lparr>ls_chars := cs, ls_current := ls_current ls @ [ch]\<rparr>) = (res, ls')"
          using 1(3) def step Inr Some False by simp
        with 1(1) [OF step [symmetric] Inr Some False] cs show ?thesis
          by (simp add: ls_ok_def ls_raws_def ls_clean_def False split: sum.splits option.splits)
      qed
    qed
  qed
qed

interpretation raws: pull_stream next_raw_line ls_ok ls_raws ls_clean
  by unfold_locales (auto dest!: next_raw_line_items)

lemma replicate_Cons_append: "replicate n x @ x # xs = replicate (Suc n) x @ xs"
  by (induction n) auto

lemma next_line_items:
  "ls_ok ls \<Longrightarrow> next_line ls = (res, ls') \<Longrightarrow>
    (case res of
       Inr (Some l) \<Rightarrow> ls_ok ls' \<and> ls_items ls = l # ls_items ls' \<and> ls_clean ls' = ls_clean ls
     | Inr None \<Rightarrow> ls_ok ls' \<and> ls_items ls' = [] \<and> ls_clean ls' \<and> ls_items ls = [] \<and> ls_clean ls
     | Inl e \<Rightarrow> e = InvalidData \<and> \<not> ls_clean ls)"
proof (induction ls rule: next_line.induct)
  case (1 ls)
  note def = next_line.simps [of ls]
  consider (flush) n where "ls_flush_empty ls = Suc n"
    | (queued) l q where "ls_flush_empty ls = 0" "ls_queued ls = l # q"
    | (pull) "ls_flush_empty ls = 0" "ls_queued ls = []"
    by (cases "ls_flush_empty ls"; cases "ls_queued ls") auto
  then show ?case
  proof cases
    case flush
    with 1(3,4) def show ?thesis by (auto simp: ls_items_def ls_ok_def ls_clean_def ls_raws_def)
  next
    case queued
    with 1(3,4) def show ?thesis by (auto simp: ls_items_def ls_ok_def ls_clean_def ls_raws_def)
  next
    case pull
    obtain r ls1 where step: "next_raw_line ls = (r, ls1)" by force
    have flush0: "\<not> 0 < ls_flush_empty ls" using pull by simp
    show ?thesis
    proof (cases r)
      case (Inl e)
      with raws.pull_err [OF 1(3)] step 1(4) def pull show ?thesis by auto
    next
      case (Inr it)
      have frame: "ls_pending_empty ls1 = ls_pending_empty ls" "ls_flush_empty ls1 = 0" "ls_queued ls1 = []"
        using next_raw_line_frame [OF step [unfolded Inr]] pull by simp_all
      show ?thesis
      proof (cases it)
        case None
        with raws.pull_none [OF 1(3)] step Inr 1(4) def pull frame show ?thesis
          by (auto simp: ls_items_def ls_ok_def ls_clean_def ls_raws_def)
      next
        case (Some raw)
        have ls1: "ls_ok ls1" "ls_raws ls = raw # ls_raws ls1" "ls_clean ls1 = ls_clean ls"
          using raws.pull_some [OF 1(3)] step Inr Some by auto
        show ?thesis
        proof (cases "trim_end raw = []")
          case True
          have "next_line (ls1\<lparr>ls_pending_empty := ls_pending_empty ls1 + 1\<rparr>) = (res, ls')"
            using 1(4) def pull step Inr Some True by simp
          with 1(1) [OF flush0 pull(2) step [symmetric] Inr Some refl True] ls1 frame pull True show ?thesis
            by (simp add: ls_ok_def ls_items_def ls_clean_def ls_raws_def replicate_Cons_append
                split: sum.splits option.splits)
        next
          case False
          let ?ls2 = "ls1\<lparr>ls_flush_empty := ls_pending_empty ls1, ls_pending_empty := 0,
                         ls_queued := ls_queued ls1 @ [trim_end raw]\<rparr>"
          have "next_line ?ls2 = (res, ls')"
            using 1(4) def pull step Inr Some False by simp
          moreover have "ls_ok ?ls2" "ls_items ?ls2 = ls_items ls" "ls_clean ?ls2 = ls_clean ls"
            using ls1 frame pull False
            by (simp_all add: ls_ok_def ls_items_def ls_clean_def ls_raws_def strip_blank_line)
          ultimately show ?thesis
            using 1(2) [OF flush0 pull(2) step [symmetric] Inr Some refl False]
            by (simp split: sum.splits option.splits)
        qed
      qed
    qed
  qed
qed

interpretation lines: pull_stream next_line ls_ok ls_items ls_clean
  by unfold_locales (auto dest!: next_line_items)

lemma ls_new:
  "reader_ok r \<Longrightarrow> ls_ok (line_stream_new r)"
  "ls_items (line_stream_new r) = split_lines_trimmed (fst (utf8_decode (reader_bytes r)))"
  "ls_clean (line_stream_new r) \<longleftrightarrow> snd (utf8_decode (reader_bytes r)) = Rest []"
  by (simp_all add: ls_ok_def line_stream_new_def cs_ok_new ls_items_def ls_raws_def ls_clean_def cs_items_def
      cs_clean_def cs_view_new split_lines_trimmed_raw)

text \<open>What bounds the number of lines a stream can still give.\<close>

definition ls_left :: "line_stream \<Rightarrow> nat" where
  "ls_left ls = ls_pending_empty ls + ls_flush_empty ls + length (ls_queued ls) + ls_size ls"

lemma next_line_left: "next_line ls = (Inr (Some l), ls') \<Longrightarrow> ls_left ls' < ls_left ls"
proof (induction ls rule: next_line.induct)
  case (1 ls)
  note def = next_line.simps [of ls]
  show ?case
  proof (cases "0 < ls_flush_empty ls \<or> ls_queued ls \<noteq> []")
    case True
    with 1(3) def show ?thesis by (auto simp: ls_left_def ls_size_def neq_Nil_conv split: if_splits)
  next
    case False
    then have pull: "\<not> 0 < ls_flush_empty ls" "ls_queued ls = []" by auto
    from 1(3) def pull obtain raw ls1 where step: "next_raw_line ls = (Inr (Some raw), ls1)"
      by (auto split: prod.splits sum.splits option.splits)
    from next_raw_line_frame [OF this] have ls1: "ls_size ls1 < ls_size ls" "ls_flush_empty ls1 = 0"
      "ls_pending_empty ls1 = ls_pending_empty ls" "ls_queued ls1 = []" using pull by simp_all
    show ?thesis
      using 1(1) [OF pull step [symmetric] refl refl refl] 1(2) [OF pull step [symmetric] refl refl refl]
        1(3) def step ls1 pull
      by (cases "trim_end raw = []") (auto simp: ls_left_def ls_size_def)
  qed
qed

section \<open>Lines decide tokens\<close>

lemma split_whitespace_Cons_ws: "is_whitespace c \<Longrightarrow> split_whitespace (c # s) = split_whitespace s"
  by (simp add: split_whitespace_def)

lemma split_whitespace_Nil [simp]: "split_whitespace [] = []"
  by (simp add: split_whitespace_def)

lemma pieces_of_snoc:
  "pieces_of P (s @ [c]) =
    (if P c then pieces_of P s @ [[]] else butlast (pieces_of P s) @ [last (pieces_of P s) @ [c]])"
proof (induction s)
  case (Cons a s)
  then show ?case using pieces_of_Cons [of P s] by (auto simp: neq_Nil_conv)
qed simp

lemma split_whitespace_trim_end [simp]: "split_whitespace (trim_end s) = split_whitespace s"
proof (induction s rule: rev_induct)
  case (snoc c s)
  have "split_whitespace (s @ [c]) = split_whitespace s" if "is_whitespace c"
    using that by (simp add: split_whitespace_def pieces_of_snoc)
  with snoc show ?case by (simp add: trim_end_def)
qed (simp add: trim_end_def)

lemma split_whitespace_lines:
  assumes nl: "\<And>c. P c \<Longrightarrow> is_whitespace c"
  shows "split_whitespace s = concat (map split_whitespace (pieces_of P s))"
    and "pieces_of is_whitespace s =
      pieces_of is_whitespace (hd (pieces_of P s)) @ concat (map (pieces_of is_whitespace) (tl (pieces_of P s)))"
proof -
  show *: "pieces_of is_whitespace s =
      pieces_of is_whitespace (hd (pieces_of P s)) @ concat (map (pieces_of is_whitespace) (tl (pieces_of P s)))" for s
  proof (induction s)
    case (Cons c s)
    show ?case
    proof (cases "P c")
      case True
      with nl Cons show ?thesis using pieces_of_Cons [of P s] by auto
    next
      case False
      with Cons show ?thesis using pieces_of_Cons [of is_whitespace "hd (pieces_of P s)"] by (auto simp: hd_append)
    qed
  qed simp
  show "split_whitespace s = concat (map split_whitespace (pieces_of P s))"
    using pieces_of_Cons [of P s] by (auto simp: split_whitespace_def [abs_def] * [of s] filter_concat comp_def)
qed

lemma concat_words_strip_blank: "concat (map split_whitespace (strip_blank ls)) = concat (map split_whitespace ls)"
  by (induction ls rule: rev_induct) auto

lemma split_whitespace_of_lines:
  "split_whitespace s = concat (map split_whitespace (split_lines_trimmed s))"
proof -
  have "split_whitespace s = concat (map split_whitespace (pieces_of (\<lambda>c. c = 10) s))"
    by (rule split_whitespace_lines) simp
  then show ?thesis by (simp add: split_lines_trimmed_def concat_words_strip_blank comp_def)
qed

end
