(* ===== verification/F64Text.thy ===== *)
theory F64Text
  imports F64 "HOL-Library.Log_Nat"
begin

text \<open>
  The parts of \<open>f64\<close> the output comparator uses: rounding a real result to the nearest binary64
  value (ties to even), subtraction, multiplication and absolute value, and \<open>str::parse\<close>. The
  grammar is that of the standard library; a number is the correctly rounded value of its text.
\<close>

section \<open>Rounding\<close>

text \<open>The exponent of a positive number: the power of two at or below it.\<close>

definition floor_log2 :: "rat \<Rightarrow> int" where
  "floor_log2 x =
    (case quotient_of x of (n, d) \<Rightarrow>
      let k = bitlen n - bitlen d in if x < 2 powi k then k - 1 else k)"

definition round_half_even :: "rat \<Rightarrow> int" where
  "round_half_even x =
    (let m = \<lfloor>x\<rfloor>; frac = x - of_int m
     in if frac < 1 / 2 then m
        else if 1 / 2 < frac then m + 1
        else if even m then m else m + 1)"

definition f64_round :: "rat \<Rightarrow> f64" where
  "f64_round x =
    (if x = 0 then F64 0
     else let e = max (- 1074) (floor_log2 \<bar>x\<bar> - 52);
              y = of_int (round_half_even (\<bar>x\<bar> * 2 powi (- e))) * 2 powi e
          in if 2 ^ 1024 \<le> y then F64Inf (x < 0) else F64 (sgn x * y))"

section \<open>Arithmetic\<close>

fun f64_abs :: "f64 \<Rightarrow> f64" where
  "f64_abs F64NaN = F64NaN"
| "f64_abs (F64Inf _) = F64Inf False"
| "f64_abs (F64 x) = F64 \<bar>x\<bar>"

fun f64_sub :: "f64 \<Rightarrow> f64 \<Rightarrow> f64" where
  "f64_sub F64NaN _ = F64NaN"
| "f64_sub _ F64NaN = F64NaN"
| "f64_sub (F64Inf a) (F64Inf b) = (if a = b then F64NaN else F64Inf a)"
| "f64_sub (F64Inf a) (F64 _) = F64Inf a"
| "f64_sub (F64 _) (F64Inf b) = F64Inf (\<not> b)"
| "f64_sub (F64 x) (F64 y) = f64_round (x - y)"

fun f64_mul :: "f64 \<Rightarrow> f64 \<Rightarrow> f64" where
  "f64_mul F64NaN _ = F64NaN"
| "f64_mul _ F64NaN = F64NaN"
| "f64_mul (F64Inf a) (F64Inf b) = F64Inf (a \<noteq> b)"
| "f64_mul (F64Inf a) (F64 y) = (if y = 0 then F64NaN else F64Inf (a \<noteq> (y < 0)))"
| "f64_mul (F64 x) (F64Inf b) = (if x = 0 then F64NaN else F64Inf ((x < 0) \<noteq> b))"
| "f64_mul (F64 x) (F64 y) = f64_round (x * y)"

text \<open>\<open>==\<close> on floats.\<close>

definition f64_eq :: "f64 \<Rightarrow> f64 \<Rightarrow> bool" where
  "f64_eq x y \<longleftrightarrow> x \<noteq> F64NaN \<and> x = y"

section \<open>Parsing\<close>

definition is_digit :: "nat \<Rightarrow> bool" where "is_digit c \<longleftrightarrow> 48 \<le> c \<and> c \<le> 57"

definition decimal_value :: "rstr \<Rightarrow> int" where
  "decimal_value ds = foldl (\<lambda>n c. 10 * n + (int c - 48)) 0 ds"

definition split_sign :: "rstr \<Rightarrow> bool \<times> rstr" where
  "split_sign s = (case s of c # r \<Rightarrow> if c = 45 then (True, r) else if c = 43 then (False, r) else (False, s) | [] \<Rightarrow> (False, []))"

definition parse_exponent :: "rstr \<Rightarrow> int option" where
  "parse_exponent s =
    (case split_sign s of (neg, ds) \<Rightarrow>
      if ds \<noteq> [] \<and> list_all is_digit ds
      then Some (if neg then - decimal_value ds else decimal_value ds) else None)"

definition parse_number :: "rstr \<Rightarrow> rat option" where
  "parse_number s =
    (let ds = takeWhile is_digit s; r = dropWhile is_digit s;
         fr = (case r of c # r' \<Rightarrow> if c = 46 then takeWhile is_digit r' else [] | [] \<Rightarrow> []);
         r = (case r of c # r' \<Rightarrow> if c = 46 then dropWhile is_digit r' else r | [] \<Rightarrow> []);
         m = of_int (decimal_value (ds @ fr)) :: rat
     in if ds = [] \<and> fr = [] then None
        else case r of
          [] \<Rightarrow> Some (m * 10 powi (- int (length fr)))
        | c # r' \<Rightarrow>
            if c = 101 \<or> c = 69 then map_option (\<lambda>e. m * 10 powi (e - int (length fr))) (parse_exponent r')
            else None)"

definition ascii_lower :: "nat \<Rightarrow> nat" where
  "ascii_lower c = (if 65 \<le> c \<and> c \<le> 90 then c + 32 else c)"

definition parse_f64 :: "rstr \<Rightarrow> f64 option" where
  "parse_f64 s =
    (case split_sign s of (neg, body) \<Rightarrow>
      case parse_number body of
        Some x \<Rightarrow> Some (f64_round (if neg then - x else x))
      | None \<Rightarrow>
          if map ascii_lower body = lit ''nan'' then Some F64NaN
          else if map ascii_lower body \<in> {lit ''inf'', lit ''infinity''} then Some (F64Inf neg)
          else None)"

lemma f64_round_0 [simp]: "f64_round 0 = F64 0"
  by (simp add: f64_round_def)

lemma f64_sub_self: "f64_is_finite x \<Longrightarrow> f64_sub x x = F64 0"
  by (cases x) simp_all

lemma f64_le_max: "f64_le (F64 0) x \<Longrightarrow> f64_le (F64 0) (f64_max x y)"
  by (cases x; cases y) (auto simp: f64_max_def)

end
