(* ===== verification/CompareModes.thy ===== *)
theory CompareModes
  imports CompareItems F64Text
begin

text \<open>
  The comparison modes of \<open>broccoli-compare/src/modes.rs\<close>. Lower-casing a string follows the
  Unicode tables and is a parameter. Each mode is shown to decide its specification whatever the
  pieces the two inputs arrive in.
\<close>

section \<open>Verdicts\<close>

datatype cmp_verdict = CmpAccepted | CmpWrongAnswer

fun exit_code :: "cmp_verdict \<Rightarrow> nat" where
  "exit_code CmpAccepted = 0"
| "exit_code CmpWrongAnswer = 1"

fun verdict_message :: "cmp_verdict \<Rightarrow> rstr" where
  "verdict_message CmpAccepted = lit ''Accepted''"
| "verdict_message CmpWrongAnswer = lit ''Wrong Answer''"

section \<open>Bytes\<close>

text \<open>One side of the byte comparison: its reader, what is left of its buffer, and whether it ended.\<close>

record exact_side =
  xs_reader :: tee_reader
  xs_buf :: "byte list"
  xs_done :: bool

definition exact_side_new :: "tee_reader \<Rightarrow> exact_side" where
  "exact_side_new r = \<lparr>xs_reader = r, xs_buf = [], xs_done = False\<rparr>"

definition exact_refill :: "(exact_side, io_error, unit) call" where
  "exact_refill x =
    (if xs_buf x = [] \<and> \<not> xs_done x then
       case read_some (xs_reader x) of
         (Inl e, r) \<Rightarrow> (Inl e, x\<lparr>xs_reader := r\<rparr>)
       | (Inr bs, r) \<Rightarrow> (Inr (), x\<lparr>xs_reader := r, xs_buf := bs, xs_done := (bs = [])\<rparr>)
     else (Inr (), x))"

definition exact_empty :: "exact_side \<Rightarrow> bool" where
  "exact_empty x \<longleftrightarrow> xs_buf x = [] \<and> xs_done x"

definition exact_left :: "exact_side \<Rightarrow> nat" where
  "exact_left x = length (xs_buf x) + length (reader_bytes (xs_reader x))"

lemma exact_refill_left: "exact_refill x = (Inr u, x') \<Longrightarrow>
    exact_left x' = exact_left x \<and> (xs_buf x' = [] \<longrightarrow> xs_done x')"
  using read_some_bytes [of "xs_reader x"]
  by (auto simp: exact_refill_def exact_left_def split: prod.splits sum.splits if_splits)

lemma exact_step_left:
  assumes "exact_refill out = (Inr u, out1)" "exact_refill ans = (Inr u', ans1)"
    and n: "n = min (length (xs_buf out1)) (length (xs_buf ans1))"
    and go: "\<not> (exact_empty (out1\<lparr>xs_buf := drop n (xs_buf out1)\<rparr>) \<and> exact_empty (ans1\<lparr>xs_buf := drop n (xs_buf ans1)\<rparr>))"
      "\<not> (exact_empty (out1\<lparr>xs_buf := drop n (xs_buf out1)\<rparr>) \<and> xs_buf (ans1\<lparr>xs_buf := drop n (xs_buf ans1)\<rparr>) \<noteq> []
        \<or> exact_empty (ans1\<lparr>xs_buf := drop n (xs_buf ans1)\<rparr>) \<and> xs_buf (out1\<lparr>xs_buf := drop n (xs_buf out1)\<rparr>) \<noteq> [])"
  shows "exact_left (out1\<lparr>xs_buf := drop n (xs_buf out1)\<rparr>) + exact_left (ans1\<lparr>xs_buf := drop n (xs_buf ans1)\<rparr>)
    < exact_left out + exact_left ans"
proof -
  note left = exact_refill_left [OF assms(1)] exact_refill_left [OF assms(2)]
  have "n \<noteq> 0"
  proof
    assume "n = 0"
    with n have "xs_buf out1 = [] \<or> xs_buf ans1 = []" by (auto simp: min_def split: if_splits)
    with go left \<open>n = 0\<close> show False by (auto simp: exact_empty_def)
  qed
  moreover have "n \<le> length (xs_buf out1)" "n \<le> length (xs_buf ans1)" using n by simp_all
  ultimately show ?thesis using left by (simp add: exact_left_def) linarith
qed

function compare_exact_loop :: "exact_side \<Rightarrow> exact_side \<Rightarrow> (io_error + cmp_verdict) \<times> tee_reader" where
  "compare_exact_loop out ans =
    (case exact_refill out of
       (Inl e, out) \<Rightarrow> (Inl e, xs_reader out)
     | (Inr _, out) \<Rightarrow>
         case exact_refill ans of
           (Inl e, _) \<Rightarrow> (Inl e, xs_reader out)
         | (Inr _, ans) \<Rightarrow>
             let n = min (length (xs_buf out)) (length (xs_buf ans)) in
             if take n (xs_buf out) \<noteq> take n (xs_buf ans) then (Inr CmpWrongAnswer, xs_reader out)
             else
               let out' = out\<lparr>xs_buf := drop n (xs_buf out)\<rparr>; ans' = ans\<lparr>xs_buf := drop n (xs_buf ans)\<rparr> in
               if exact_empty out' \<and> exact_empty ans' then (Inr CmpAccepted, xs_reader out')
               else if (exact_empty out' \<and> xs_buf ans' \<noteq> []) \<or> (exact_empty ans' \<and> xs_buf out' \<noteq> [])
               then (Inr CmpWrongAnswer, xs_reader out')
               else compare_exact_loop out' ans')"
  by auto
termination
proof (relation "measure (\<lambda>(out, ans). exact_left out + exact_left ans)", goal_cases)
  case (2 out ans r out1 u r' ans1 u' n out' ans')
  have out: "exact_refill out = (Inr u, out1)" using 2(1,2) by (simp only:)
  have ans: "exact_refill ans = (Inr u', ans1)" using 2(3,4) by (simp only:)
  have "exact_left out' + exact_left ans' < exact_left out + exact_left ans"
    unfolding 2(7,8) by (rule exact_step_left [OF out ans 2(5) 2(9,10) [unfolded 2(7,8)]])
  then show ?case by (simp only: in_measure prod.case)
qed (rule wf_measure)

declare compare_exact_loop.simps [simp del]

lemma compare_exact_loop_step:
  assumes "exact_refill out = (Inr u, out1)" "exact_refill ans = (Inr u', ans1)"
    and n: "n = min (length (xs_buf out1)) (length (xs_buf ans1))"
    and out': "out' = out1\<lparr>xs_buf := drop n (xs_buf out1)\<rparr>" and ans': "ans' = ans1\<lparr>xs_buf := drop n (xs_buf ans1)\<rparr>"
  shows "compare_exact_loop out ans =
      (if take n (xs_buf out1) \<noteq> take n (xs_buf ans1) then (Inr CmpWrongAnswer, xs_reader out1)
       else if exact_empty out' \<and> exact_empty ans' then (Inr CmpAccepted, xs_reader out')
       else if (exact_empty out' \<and> xs_buf ans' \<noteq> []) \<or> (exact_empty ans' \<and> xs_buf out' \<noteq> [])
       then (Inr CmpWrongAnswer, xs_reader out')
       else compare_exact_loop out' ans')"
  unfolding n out' ans' by (subst compare_exact_loop.simps) (simp only: assms(1,2) prod.case sum.case Let_def)

definition compare_exact :: "tee_reader \<Rightarrow> tee_reader \<Rightarrow> (io_error + cmp_verdict) \<times> tee_reader" where
  "compare_exact output answer = compare_exact_loop (exact_side_new output) (exact_side_new answer)"

text \<open>Both sides hold what is left of two byte strings; the loop decides whether they are equal.\<close>

definition exact_ok :: "exact_side \<Rightarrow> bool" where
  "exact_ok x \<longleftrightarrow> reader_ok (xs_reader x) \<and> (xs_done x \<longrightarrow> tr_inner (xs_reader x) = [])"

definition exact_bytes :: "exact_side \<Rightarrow> byte list" where
  "exact_bytes x = xs_buf x @ reader_bytes (xs_reader x)"

lemma exact_refill_bytes:
  assumes "exact_ok x"
  shows "\<exists>x'. exact_refill x = (Inr (), x') \<and> exact_ok x' \<and> exact_bytes x' = exact_bytes x"
  using assms read_some_bytes [of "xs_reader x"] read_some_ok [of "xs_reader x"]
  by (auto simp: exact_refill_def exact_ok_def exact_bytes_def split: prod.splits)

lemma exact_done_bytes: "exact_ok x \<Longrightarrow> xs_done x \<Longrightarrow> exact_bytes x = xs_buf x"
  by (simp add: exact_ok_def exact_bytes_def reader_bytes_def)

lemma append_eq_take_drop:
  assumes "n = min (length xs) (length ys)"
  shows "xs @ us = ys @ vs \<longleftrightarrow> take n xs = take n ys \<and> drop n xs @ us = drop n ys @ vs"
proof -
  have "xs @ us = ys @ vs \<longleftrightarrow> take n xs @ (drop n xs @ us) = take n ys @ (drop n ys @ vs)"
    by (metis append_take_drop_id append_assoc)
  also have "\<dots> \<longleftrightarrow> take n xs = take n ys \<and> drop n xs @ us = drop n ys @ vs"
    by (rule append_eq_append_conv) (simp add: assms)
  finally show ?thesis .
qed

lemma compare_exact_loop_decides:
  "exact_ok out \<Longrightarrow> exact_ok ans \<Longrightarrow>
    fst (compare_exact_loop out ans) = Inr (if exact_bytes out = exact_bytes ans then CmpAccepted else CmpWrongAnswer)"
proof (induction out ans rule: compare_exact_loop.induct)
  case (1 out ans)
  obtain out1 where out: "exact_refill out = (Inr (), out1)" "exact_ok out1" "exact_bytes out1 = exact_bytes out"
    using exact_refill_bytes [OF 1(2)] by blast
  obtain ans1 where ans: "exact_refill ans = (Inr (), ans1)" "exact_ok ans1" "exact_bytes ans1 = exact_bytes ans"
    using exact_refill_bytes [OF 1(3)] by blast
  define n where "n = min (length (xs_buf out1)) (length (xs_buf ans1))"
  define out' where "out' = out1\<lparr>xs_buf := drop n (xs_buf out1)\<rparr>"
  define ans' where "ans' = ans1\<lparr>xs_buf := drop n (xs_buf ans1)\<rparr>"
  note def = compare_exact_loop_step [OF out(1) ans(1) n_def out'_def ans'_def]
  have ok: "exact_ok out'" "exact_ok ans'" using out ans by (simp_all add: out'_def ans'_def exact_ok_def)
  have eq: "exact_bytes out = exact_bytes ans \<longleftrightarrow>
      take n (xs_buf out1) = take n (xs_buf ans1) \<and> exact_bytes out' = exact_bytes ans'"
    unfolding out(3) [symmetric] ans(3) [symmetric]
    using append_eq_take_drop [OF n_def] by (simp add: exact_bytes_def out'_def ans'_def)
  have drained: "exact_empty x \<Longrightarrow> exact_ok x \<Longrightarrow> exact_bytes x = []" for x
    by (simp add: exact_empty_def exact_done_bytes)
  show ?case
  proof (cases "take n (xs_buf out1) = take n (xs_buf ans1) \<and> \<not> (exact_empty out' \<and> exact_empty ans')
      \<and> \<not> ((exact_empty out' \<and> xs_buf ans' \<noteq> []) \<or> (exact_empty ans' \<and> xs_buf out' \<noteq> []))")
    case True
    then have go: "\<not> take n (xs_buf out1) \<noteq> take n (xs_buf ans1)" "\<not> (exact_empty out' \<and> exact_empty ans')"
        "\<not> ((exact_empty out' \<and> xs_buf ans' \<noteq> []) \<or> (exact_empty ans' \<and> xs_buf out' \<noteq> []))" by blast+
    have "fst (compare_exact_loop out' ans') = Inr (if exact_bytes out' = exact_bytes ans' then CmpAccepted else CmpWrongAnswer)"
      by (rule 1(1) [OF out(1) [symmetric] refl ans(1) [symmetric] refl n_def go(1) out'_def ans'_def go(2,3) ok])
    with True eq show ?thesis by (simp only: def go) simp
  next
    case False
    with drained ok eq show ?thesis by (auto simp: def exact_bytes_def)
  qed
qed

lemma compare_exact_decides:
  "reader_ok output \<Longrightarrow> reader_ok answer \<Longrightarrow>
    fst (compare_exact output answer) = Inr (if reader_bytes output = reader_bytes answer then CmpAccepted else CmpWrongAnswer)"
  using compare_exact_loop_decides [of "exact_side_new output" "exact_side_new answer"]
  by (simp add: compare_exact_def exact_ok_def exact_side_new_def exact_bytes_def)

section \<open>Tokens\<close>

datatype token_mode = TokExact | TokCaseInsensitive | TokFloat f64 f64

definition tokens_match :: "(rstr \<Rightarrow> rstr) \<Rightarrow> token_mode \<Rightarrow> rstr \<Rightarrow> rstr \<Rightarrow> bool" where
  "tokens_match to_lowercase mode expected actual =
    (case mode of
       TokExact \<Rightarrow> expected = actual
     | TokCaseInsensitive \<Rightarrow> to_lowercase expected = to_lowercase actual
     | TokFloat abs_tol rel_tol \<Rightarrow>
         case (parse_f64 expected, parse_f64 actual) of
           (Some exp_f, Some act_f) \<Rightarrow>
             if \<not> f64_is_finite exp_f \<or> \<not> f64_is_finite act_f
             then (exp_f = F64NaN \<and> act_f = F64NaN) \<or> f64_eq exp_f act_f
             else let diff = f64_abs (f64_sub exp_f act_f);
                      tolerance = f64_max abs_tol (f64_mul rel_tol (f64_max (f64_abs exp_f) (f64_abs act_f)))
                  in f64_le diff tolerance
         | _ \<Rightarrow> expected = actual)"

function compare_tokens_loop ::
    "(rstr \<Rightarrow> rstr) \<Rightarrow> token_mode \<Rightarrow> token_stream \<Rightarrow> token_stream \<Rightarrow> (io_error + cmp_verdict) \<times> tee_reader" where
  "compare_tokens_loop to_lowercase mode out ans =
    (case next_token out of
       (Inl e, out') \<Rightarrow> (if e = InvalidData then Inr CmpWrongAnswer else Inl e, cs_reader (ts_chars out'))
     | (Inr o', out') \<Rightarrow>
         case next_token ans of
           (Inl e, _) \<Rightarrow> (Inl e, cs_reader (ts_chars out'))
         | (Inr a', ans') \<Rightarrow>
             case (o', a') of
               (Some otok, Some atok) \<Rightarrow>
                 if tokens_match to_lowercase mode atok otok then compare_tokens_loop to_lowercase mode out' ans'
                 else (Inr CmpWrongAnswer, cs_reader (ts_chars out'))
             | (None, None) \<Rightarrow> (Inr CmpAccepted, cs_reader (ts_chars out'))
             | _ \<Rightarrow> (Inr CmpWrongAnswer, cs_reader (ts_chars out')))"
  by pat_completeness auto
termination
  by (relation "measure (\<lambda>(_, _, out, _). ts_size out)") (auto dest!: sym [of _ "next_token _"] next_token_size)

declare compare_tokens_loop.simps [simp del]

definition compare_tokens ::
    "(rstr \<Rightarrow> rstr) \<Rightarrow> token_mode \<Rightarrow> tee_reader \<Rightarrow> tee_reader \<Rightarrow> (io_error + cmp_verdict) \<times> tee_reader" where
  "compare_tokens to_lowercase mode output answer =
    compare_tokens_loop to_lowercase mode (token_stream_new output) (token_stream_new answer)"

section \<open>Lines\<close>

function compare_lines_loop :: "line_stream \<Rightarrow> line_stream \<Rightarrow> (io_error + cmp_verdict) \<times> tee_reader" where
  "compare_lines_loop out ans =
    (case next_line out of
       (Inl e, out') \<Rightarrow> (if e = InvalidData then Inr CmpWrongAnswer else Inl e, cs_reader (ls_chars out'))
     | (Inr o', out') \<Rightarrow>
         case next_line ans of
           (Inl e, _) \<Rightarrow> (Inl e, cs_reader (ls_chars out'))
         | (Inr a', ans') \<Rightarrow>
             case (o', a') of
               (Some ol, Some al) \<Rightarrow>
                 if al = ol then compare_lines_loop out' ans'
                 else (Inr CmpWrongAnswer, cs_reader (ls_chars out'))
             | (None, None) \<Rightarrow> (Inr CmpAccepted, cs_reader (ls_chars out'))
             | _ \<Rightarrow> (Inr CmpWrongAnswer, cs_reader (ls_chars out')))"
  by pat_completeness auto
termination
  by (relation "measure (\<lambda>(out, _). ls_left out)") (auto dest!: sym [of _ "next_line _"] next_line_left)

declare compare_lines_loop.simps [simp del]

definition compare_lines :: "tee_reader \<Rightarrow> tee_reader \<Rightarrow> (io_error + cmp_verdict) \<times> tee_reader" where
  "compare_lines output answer = compare_lines_loop (line_stream_new output) (line_stream_new answer)"

section \<open>Comparing two streams of items\<close>

text \<open>
  Both loops have one shape; what they decide follows from the laws of the streams alone: whether
  the two sequences of items match pairwise, an output that is not text matching nothing.
\<close>

locale compare_streams = pull_stream pull ok items clean
  for pull :: "('s, io_error, 'a option) call" and ok items clean +
  fixes reader_of :: "'s \<Rightarrow> tee_reader"
    and matches :: "'a \<Rightarrow> 'a \<Rightarrow> bool"
    and loop :: "'s \<Rightarrow> 's \<Rightarrow> (io_error + cmp_verdict) \<times> tee_reader"
  assumes loop_step: "loop out ans =
    (case pull out of
       (Inl e, out') \<Rightarrow> (if e = InvalidData then Inr CmpWrongAnswer else Inl e, reader_of out')
     | (Inr o', out') \<Rightarrow>
         case pull ans of
           (Inl e, _) \<Rightarrow> (Inl e, reader_of out')
         | (Inr a', ans') \<Rightarrow>
             case (o', a') of
               (Some oi, Some ai) \<Rightarrow> if matches ai oi then loop out' ans' else (Inr CmpWrongAnswer, reader_of out')
             | (None, None) \<Rightarrow> (Inr CmpAccepted, reader_of out')
             | _ \<Rightarrow> (Inr CmpWrongAnswer, reader_of out'))"
begin

lemma loop_decides:
  "ok out \<Longrightarrow> ok ans \<Longrightarrow> clean ans \<Longrightarrow>
    fst (loop out ans) =
      Inr (if clean out \<and> list_all2 matches (items ans) (items out) then CmpAccepted else CmpWrongAnswer)"
proof (induction "items ans" arbitrary: out ans)
  case Nil
  then obtain ans' where ans: "pull ans = (Inr None, ans')" using pull_clean [of ans] by auto
  obtain res out' where out: "pull out = (res, out')" by force
  show ?case
  proof (cases res)
    case (Inl e)
    with pull_err [OF Nil(2)] out show ?thesis by (auto simp: loop_step)
  next
    case (Inr it)
    with Nil(1) pull_some [OF Nil(2)] pull_none [OF Nil(2)] out ans show ?thesis
      by (cases it) (fastforce simp: loop_step)+
  qed
next
  case (Cons a as)
  have "items ans = a # as" using Cons(2) by simp
  with Cons(4,5) obtain ans' where ans: "pull ans = (Inr (Some a), ans')" "ok ans'" "clean ans'" "items ans' = as"
    using pull_clean [of ans] by auto
  obtain res out' where out: "pull out = (res, out')" by force
  show ?case
  proof (cases res)
    case (Inl e)
    with pull_err [OF Cons(3)] out show ?thesis by (auto simp: loop_step)
  next
    case (Inr it)
    show ?thesis
    proof (cases it)
      case None
      with pull_none [OF Cons(3)] out ans(1) Inr Cons(2) show ?thesis by (auto simp: loop_step simp flip: Cons(2))
    next
      case (Some oi)
      have out': "ok out'" "items out = oi # items out'" "clean out' = clean out"
        using pull_some [OF Cons(3)] out Inr Some by auto
      have "loop out ans = (if matches a oi then loop out' ans' else (Inr CmpWrongAnswer, reader_of out'))"
        using out ans(1) Inr Some by (simp add: loop_step [of out])
      with Cons(1) [OF ans(4) [symmetric] out'(1) ans(2,3)] out' ans(4) show ?thesis
        by (auto simp flip: Cons(2))
    qed
  qed
qed

lemma loop_unclean_answer:
  "ok out \<Longrightarrow> ok ans \<Longrightarrow> \<not> clean ans \<Longrightarrow> fst (loop out ans) \<in> {Inr CmpWrongAnswer, Inl InvalidData}"
proof (induction "items ans" arbitrary: out ans rule: length_induct)
  case 1
  obtain res out' where out: "pull out = (res, out')" by force
  obtain ares ans' where ans: "pull ans = (ares, ans')" by force
  note laws = pull_some [OF 1(2), of _ out'] pull_err [OF 1(2), of _ out']
    pull_some [OF 1(3), of _ ans'] pull_none [OF 1(3), of ans'] pull_err [OF 1(3), of _ ans']
  have step: "loop out ans =
      (case res of
         Inl e \<Rightarrow> (if e = InvalidData then Inr CmpWrongAnswer else Inl e, reader_of out')
       | Inr o' \<Rightarrow>
           (case ares of
              Inl e \<Rightarrow> (Inl e, reader_of out')
            | Inr a' \<Rightarrow>
                (case (o', a') of
                   (Some oi, Some ai) \<Rightarrow> if matches ai oi then loop out' ans' else (Inr CmpWrongAnswer, reader_of out')
                 | (None, None) \<Rightarrow> (Inr CmpAccepted, reader_of out')
                 | _ \<Rightarrow> (Inr CmpWrongAnswer, reader_of out'))))"
    by (cases res; cases ares) (simp_all add: loop_step [of out] out ans)
  show ?case
  proof (cases "\<exists>oi ai. res = Inr (Some oi) \<and> ares = Inr (Some ai)")
    case True
    with laws out ans 1(1) [rule_format, of "items ans'" ans' out'] 1(4) show ?thesis by (auto simp: step)
  next
    case False
    with laws out ans 1(4) show ?thesis by (auto simp: step split: sum.splits option.splits)
  qed
qed

end

interpretation token_cmp:
  compare_streams next_token ts_ok ts_items ts_clean "\<lambda>ts. cs_reader (ts_chars ts)"
    "tokens_match to_lowercase mode" "compare_tokens_loop to_lowercase mode"
  by unfold_locales (rule compare_tokens_loop.simps)

interpretation line_cmp:
  compare_streams next_line ls_ok ls_items ls_clean "\<lambda>ls. cs_reader (ls_chars ls)"
    "(=)" compare_lines_loop
  by unfold_locales (rule compare_lines_loop.simps)

end
