(* ===== verification/CompareMain.thy ===== *)
theory CompareMain
  imports CompareModes
begin

text \<open>
  The program \<open>broccoli-compare/src/main.rs\<close>: its arguments, the choice of the mode, draining
  standard input, and the exit code. The answer file system is a parameter: what reading the file
  of a path gives, if it can be opened. Standard output is the preview sink of the tee.
\<close>

section \<open>Arguments\<close>

datatype cmp_failure =
    UnknownArgument rstr
  | MissingValue rstr
  | InvalidNumber rstr
  | MissingFlag rstr
  | CannotOpen rstr
  | Comparing io_error

record cmp_args =
  ca_mode :: rstr
  ca_answer :: rstr
  ca_epsilon :: "f64 option"
  ca_rel_epsilon :: "f64 option"

record arg_state =
  as_mode :: "rstr option"
  as_answer :: "rstr option"
  as_epsilon :: "f64 option"
  as_rel_epsilon :: "f64 option"

fun parse_args_loop :: "arg_state \<Rightarrow> rstr list \<Rightarrow> cmp_failure + arg_state" where
  "parse_args_loop st [] = Inr st"
| "parse_args_loop st [arg] =
    (if arg \<in> {lit ''--mode'', lit ''--answer'', lit ''--epsilon'', lit ''--rel-epsilon''}
     then Inl (MissingValue arg) else Inl (UnknownArgument arg))"
| "parse_args_loop st (arg # raw # rest) =
    (if arg = lit ''--mode'' then parse_args_loop (st\<lparr>as_mode := Some raw\<rparr>) rest
     else if arg = lit ''--answer'' then parse_args_loop (st\<lparr>as_answer := Some raw\<rparr>) rest
     else if arg = lit ''--epsilon'' then
       (case parse_f64 raw of
          None \<Rightarrow> Inl (InvalidNumber raw)
        | Some x \<Rightarrow> parse_args_loop (st\<lparr>as_epsilon := Some x\<rparr>) rest)
     else if arg = lit ''--rel-epsilon'' then
       (case parse_f64 raw of
          None \<Rightarrow> Inl (InvalidNumber raw)
        | Some x \<Rightarrow> parse_args_loop (st\<lparr>as_rel_epsilon := Some x\<rparr>) rest)
     else Inl (UnknownArgument arg))"

definition parse_args :: "rstr list \<Rightarrow> cmp_failure + cmp_args" where
  "parse_args argv =
    (case parse_args_loop \<lparr>as_mode = None, as_answer = None, as_epsilon = None, as_rel_epsilon = None\<rparr> argv of
       Inl e \<Rightarrow> Inl e
     | Inr st \<Rightarrow>
         (case as_mode st of
            None \<Rightarrow> Inl (MissingFlag (lit ''--mode''))
          | Some mode \<Rightarrow>
              (case as_answer st of
                 None \<Rightarrow> Inl (MissingFlag (lit ''--answer''))
               | Some answer \<Rightarrow>
                   Inr \<lparr>ca_mode = mode, ca_answer = answer, ca_epsilon = as_epsilon st,
                        ca_rel_epsilon = as_rel_epsilon st\<rparr>)))"

section \<open>The run\<close>

definition DEFAULT_ABS_TOL :: f64 where "DEFAULT_ABS_TOL = f64_round (1 / 10 ^ 9)"
definition DEFAULT_REL_TOL :: f64 where "DEFAULT_REL_TOL = f64_round (1 / 10 ^ 6)"

definition float_mode :: "cmp_args \<Rightarrow> token_mode" where
  "float_mode args =
    TokFloat (case ca_epsilon args of Some x \<Rightarrow> x | None \<Rightarrow> DEFAULT_ABS_TOL)
             (case ca_rel_epsilon args of Some x \<Rightarrow> x | None \<Rightarrow> DEFAULT_REL_TOL)"

definition compare ::
    "(rstr \<Rightarrow> rstr) \<Rightarrow> cmp_args \<Rightarrow> tee_reader \<Rightarrow> tee_reader \<Rightarrow> (io_error + cmp_verdict) \<times> tee_reader" where
  "compare to_lowercase args output answer =
    (if ca_mode args = lit ''exact'' then compare_exact output answer
     else if ca_mode args = lit ''tokens'' then compare_tokens to_lowercase TokExact output answer
     else if ca_mode args = lit ''tokens-case-insensitive''
     then compare_tokens to_lowercase TokCaseInsensitive output answer
     else if ca_mode args = lit ''tokens-float'' then compare_tokens to_lowercase (float_mode args) output answer
     else if ca_mode args = lit ''lines'' then compare_lines output answer
     else (Inl InvalidInput, output))"

text \<open>The side channel only adds warnings to standard error, here left out with the other messages.\<close>

definition finalize :: "io_error + cmp_verdict \<Rightarrow> io_error + unit \<Rightarrow> io_error + unit \<Rightarrow> cmp_failure + cmp_verdict" where
  "finalize verdict drained flushed = (case verdict of Inl e \<Rightarrow> Inl (Comparing e) | Inr v \<Rightarrow> Inr v)"

definition plain_reader :: "read_event list \<Rightarrow> tee_reader" where
  "plain_reader es = \<lparr>tr_inner = es, tr_preview = None, tr_captured = 0\<rparr>"

definition tee_reader_new :: "read_event list \<Rightarrow> preview_sink \<Rightarrow> tee_reader" where
  "tee_reader_new es sink = \<lparr>tr_inner = es, tr_preview = Some sink, tr_captured = 0\<rparr>"

text \<open>The result of a run, and the tee it leaves behind when standard input was opened at all.\<close>

definition run_compare ::
    "(rstr \<Rightarrow> rstr) \<Rightarrow> (rstr \<Rightarrow> read_event list option) \<Rightarrow> io_error + unit \<Rightarrow> rstr list \<Rightarrow> read_event list \<Rightarrow> preview_sink
      \<Rightarrow> (cmp_failure + cmp_verdict) \<times> tee_reader option" where
  "run_compare to_lowercase files flushed argv stdin sink =
    (case parse_args argv of
       Inl e \<Rightarrow> (Inl e, None)
     | Inr args \<Rightarrow>
         (case files (ca_answer args) of
            None \<Rightarrow> (Inl (CannotOpen (ca_answer args)), None)
          | Some es \<Rightarrow>
              (case compare to_lowercase args (tee_reader_new stdin sink) (plain_reader es) of (verdict, output) \<Rightarrow>
                (case drain_to_eof output of (drained, output) \<Rightarrow>
                  (finalize verdict drained flushed, Some output)))))"

definition main_exit :: "(cmp_failure + cmp_verdict) \<times> tee_reader option \<Rightarrow> nat" where
  "main_exit res = (case fst res of Inr v \<Rightarrow> exit_code v | Inl _ \<Rightarrow> 64)"

section \<open>What a comparison keeps of its reader\<close>

text \<open>Every operation reaches the reader through \<open>read\<close> alone, so it keeps what a read keeps.\<close>

locale reader_kept =
  fixes I :: "tee_reader \<Rightarrow> bool"
  assumes tee_read: "I r \<Longrightarrow> I (snd (tee_read r))"
begin

lemma read_some: "I r \<Longrightarrow> I (snd (read_some r))"
proof -
  have "I r \<longrightarrow> I (snd (read_some r))"
    by (rule read_some_induct) (use tee_read in \<open>fastforce\<close>)+
  then show "I r \<Longrightarrow> I (snd (read_some r))" by blast
qed

lemma drain: "I r \<Longrightarrow> I (snd (drain_to_eof r))"
proof (induction r rule: drain_to_eof.induct)
  case (1 r)
  obtain res r' where step: "tee_read r = (res, r')" by force
  with tee_read [OF 1(3)] have "I r'" by simp
  with 1(1) [OF step [symmetric]] 1(2) [OF step [symmetric]] show ?case
    by (cases res) (auto simp: drain_to_eof.simps [of r] step)
qed

lemma fill: "I (cs_reader cs) \<Longrightarrow> I (cs_reader (snd (fill cs)))"
  using read_some [of "cs_reader cs"] by (auto simp: fill_def Let_def split: prod.splits sum.splits utf8_end.splits)

lemma next_char: "I (cs_reader cs) \<Longrightarrow> I (cs_reader (snd (next_char cs)))"
proof (induction cs rule: next_char.induct)
  case (1 cs)
  obtain res cs' where step: "fill cs = (res, cs')" by force
  with fill [OF 1(2)] have "I (cs_reader cs')" by simp
  with 1(1) [OF _ _ step [symmetric]] 1(2) show ?case
    by (cases res) (auto simp: next_char.simps [of cs] step split: list.splits)
qed

lemma next_token: "I (cs_reader (ts_chars ts)) \<Longrightarrow> I (cs_reader (ts_chars (snd (next_token ts))))"
proof (induction ts rule: next_token.induct)
  case (1 ts)
  obtain res cs where step: "next_char (ts_chars ts) = (res, cs)" by force
  with next_char [OF 1(3)] have "I (cs_reader cs)" by simp
  with 1(1) [OF step [symmetric]] 1(2) [OF step [symmetric]] show ?case
    by (auto simp: next_token.simps [of ts] step split: sum.splits option.splits)
qed

lemma next_raw_line: "I (cs_reader (ls_chars ls)) \<Longrightarrow> I (cs_reader (ls_chars (snd (next_raw_line ls))))"
proof (induction ls rule: next_raw_line.induct)
  case (1 ls)
  obtain res cs where step: "next_char (ls_chars ls) = (res, cs)" by force
  with next_char [OF 1(2)] have "I (cs_reader cs)" by simp
  with 1(1) [OF step [symmetric]] show ?case
    by (auto simp: next_raw_line.simps [of ls] step split: sum.splits option.splits)
qed

lemma next_line: "I (cs_reader (ls_chars ls)) \<Longrightarrow> I (cs_reader (ls_chars (snd (next_line ls))))"
proof (induction ls rule: next_line.induct)
  case (1 ls)
  obtain res ls1 where step: "next_raw_line ls = (res, ls1)" by force
  with next_raw_line [OF 1(3)] have "I (cs_reader (ls_chars ls1))" by simp
  with 1(1) [OF _ _ step [symmetric]] 1(2) [OF _ _ step [symmetric]] 1(3) show ?case
    by (auto simp: next_line.simps [of ls] step Let_def split: sum.splits option.splits list.splits)
qed

lemma exact_refill: "I (xs_reader x) \<Longrightarrow> I (xs_reader (snd (exact_refill x)))"
  using read_some [of "xs_reader x"] by (auto simp: exact_refill_def split: prod.splits sum.splits)

lemma exact_loop: "I (xs_reader out) \<Longrightarrow> I (snd (compare_exact_loop out ans))"
proof (induction out ans rule: compare_exact_loop.induct)
  case (1 out ans)
  obtain ores out1 where out: "exact_refill out = (ores, out1)" by force
  obtain ares ans1 where ans: "exact_refill ans = (ares, ans1)" by force
  have "I (xs_reader out1)" using exact_refill [OF 1(2)] out by simp
  show ?case
  proof (cases "(\<exists>u. ores = Inr u) \<and> (\<exists>u. ares = Inr u)")
    case True
    then obtain u u' where refill: "exact_refill out = (Inr u, out1)" "exact_refill ans = (Inr u', ans1)"
      using out ans by blast
    define n where "n = min (length (xs_buf out1)) (length (xs_buf ans1))"
    define out' where "out' = out1\<lparr>xs_buf := drop n (xs_buf out1)\<rparr>"
    define ans' where "ans' = ans1\<lparr>xs_buf := drop n (xs_buf ans1)\<rparr>"
    have "I (xs_reader out')" using \<open>I (xs_reader out1)\<close> by (simp add: out'_def)
    with \<open>I (xs_reader out1)\<close>
      1(1) [OF refill(1) [symmetric] refl refill(2) [symmetric] refl n_def _ out'_def ans'_def]
    show ?thesis unfolding compare_exact_loop_step [OF refill n_def out'_def ans'_def] by auto
  next
    case False
    with \<open>I (xs_reader out1)\<close> show ?thesis
      by (cases ores; cases ares) (simp_all add: compare_exact_loop.simps [of out] out ans)
  qed
qed

lemma tokens_loop: "I (cs_reader (ts_chars out)) \<Longrightarrow> I (snd (compare_tokens_loop lc mode out ans))"
proof (induction lc mode out ans rule: compare_tokens_loop.induct)
  case (1 lc mode out ans)
  obtain ores out1 where out: "next_token out = (ores, out1)" by force
  obtain ares ans1 where ans: "next_token ans = (ares, ans1)" by force
  have "I (cs_reader (ts_chars out1))" using next_token [OF 1(2)] out by simp
  with 1(1) [OF out [symmetric] _ ans [symmetric]] show ?case
    by (cases ores; cases ares)
       (auto simp: compare_tokens_loop.simps [of lc mode out] out ans split: option.splits)
qed

lemma lines_loop: "I (cs_reader (ls_chars out)) \<Longrightarrow> I (snd (compare_lines_loop out ans))"
proof (induction out ans rule: compare_lines_loop.induct)
  case (1 out ans)
  obtain ores out1 where out: "next_line out = (ores, out1)" by force
  obtain ares ans1 where ans: "next_line ans = (ares, ans1)" by force
  have "I (cs_reader (ls_chars out1))" using next_line [OF 1(2)] out by simp
  with 1(1) [OF out [symmetric] _ ans [symmetric]] show ?case
    by (cases ores; cases ares)
       (auto simp: compare_lines_loop.simps [of out] out ans split: option.splits)
qed

lemma compare: "I output \<Longrightarrow> I (snd (compare lc args output answer))"
  by (simp add: compare_def compare_exact_def compare_tokens_def compare_lines_def exact_side_new_def
       token_stream_new_def line_stream_new_def char_stream_new_def exact_loop tokens_loop lines_loop)

lemma compare_drained: "I output \<Longrightarrow> I (snd (drain_to_eof (snd (compare lc args output answer))))"
  by (rule drain) (rule compare)

end

lemma drain_empties: "reader_ok r \<Longrightarrow> tr_inner (snd (drain_to_eof r)) = []"
proof (induction r rule: drain_to_eof.induct)
  case (1 r)
  obtain res r' where step: "tee_read r = (res, r')" by force
  show ?case
    using tee_read_ok [OF step 1(3)] 1(1) [OF step [symmetric]] 1(2) [OF step [symmetric]]
    by (cases res) (auto simp: drain_to_eof.simps [of r] step)
qed

text \<open>The preview of a sink that does not fail holds the beginning of what was read.\<close>

definition preview_ok :: "byte list \<Rightarrow> tee_reader \<Rightarrow> bool" where
  "preview_ok input r \<longleftrightarrow> reader_ok r \<and>
    (\<exists>sink consumed. tr_preview r = Some sink \<and> True \<notin> set (pv_faults sink) \<and> input = consumed @ reader_bytes r
      \<and> pv_written sink = take INLINE_OUTPUT_PREVIEW_BYTES consumed
      \<and> tr_captured r = min INLINE_OUTPUT_PREVIEW_BYTES (length consumed))"

lemma write_all_sound: "True \<notin> set (pv_faults s) \<Longrightarrow>
    \<exists>s'. write_all bs s = (True, s') \<and> pv_written s' = pv_written s @ bs \<and> True \<notin> set (pv_faults s')"
  by (cases "pv_faults s") (auto simp: write_all_def split: list.splits bool.splits)

lemma take_append_upto:
  "length c < N \<Longrightarrow> take N (c @ bs) = take N c @ take (min (N - length c) (length bs)) bs"
  by (simp add: min_def)

lemma tee_preview_ok:
  assumes "preview_ok input r" "tr_inner r = Chunk bs # es" "bs \<noteq> []"
  shows "preview_ok input (tee bs (r\<lparr>tr_inner := es\<rparr>))"
proof -
  let ?N = INLINE_OUTPUT_PREVIEW_BYTES
  from assms obtain sink consumed where r: "reader_ok r" "tr_preview r = Some sink" "True \<notin> set (pv_faults sink)"
      "input = consumed @ reader_bytes r" "pv_written sink = take ?N consumed"
      "tr_captured r = min ?N (length consumed)"
    unfolding preview_ok_def by blast
  have bytes: "reader_bytes r = bs @ reader_bytes (r\<lparr>tr_inner := es\<rparr>)"
    using assms(2) by (simp add: reader_bytes_def)
  have ok: "reader_ok (tee bs (r\<lparr>tr_inner := es\<rparr>))" using r(1) assms(2) by (simp add: reader_ok_def)
  have rest: "reader_bytes (tee bs (r\<lparr>tr_inner := es\<rparr>)) = reader_bytes (r\<lparr>tr_inner := es\<rparr>)"
    by (simp add: reader_bytes_def)
  have split: "input = (consumed @ bs) @ reader_bytes (tee bs (r\<lparr>tr_inner := es\<rparr>))"
    using r(4) bytes rest by simp
  show ?thesis
  proof (cases "length consumed < ?N")
    case True
    let ?n = "min (?N - length consumed) (length bs)"
    obtain sink' where w: "write_all (take ?n bs) sink = (True, sink')"
        "pv_written sink' = pv_written sink @ take ?n bs" "True \<notin> set (pv_faults sink')"
      using write_all_sound [OF r(3)] by blast
    have "tr_preview (tee bs (r\<lparr>tr_inner := es\<rparr>)) = Some sink'"
      "tr_captured (tee bs (r\<lparr>tr_inner := es\<rparr>)) = min ?N (length (consumed @ bs))"
      using True r(2,6) w(1) by (simp_all add: tee_def Let_def)
    with w ok split r(5) take_append_upto [OF True] show ?thesis unfolding preview_ok_def by metis
  next
    case False
    then have "tee bs (r\<lparr>tr_inner := es\<rparr>) = r\<lparr>tr_inner := es\<rparr>" using r(2,6) by (simp add: tee_def)
    moreover have "take ?N (consumed @ bs) = take ?N consumed" "min ?N (length (consumed @ bs)) = min ?N (length consumed)"
      using False by auto
    ultimately show ?thesis
      using r ok split unfolding preview_ok_def by (intro conjI exI [of _ sink] exI [of _ "consumed @ bs"]) simp_all
  qed
qed

interpretation preview: reader_kept "preview_ok input" for input
proof
  fix r
  assume ok: "preview_ok input r"
  show "preview_ok input (snd (tee_read r))"
  proof (cases "tr_inner r")
    case Nil
    with ok show ?thesis by (simp add: tee_read_def)
  next
    case (Cons ev es)
    show ?thesis
    proof (cases ev)
      case (Chunk bs)
      with Cons ok have "bs \<noteq> []" by (simp add: preview_ok_def reader_ok_def)
      with tee_preview_ok [OF ok] Cons Chunk show ?thesis by (simp add: tee_read_def)
    next
      case (Failed e)
      with Cons ok show ?thesis by (auto simp: tee_read_def preview_ok_def reader_ok_def reader_bytes_def)
    qed
  qed
qed

section \<open>What the comparator decides\<close>

definition text_accepted :: "(rstr list \<Rightarrow> rstr list \<Rightarrow> bool) \<Rightarrow> (rstr \<Rightarrow> rstr list) \<Rightarrow> byte list \<Rightarrow> byte list \<Rightarrow> bool" where
  "text_accepted match items output answer \<longleftrightarrow>
    (case (utf8_chars answer, utf8_chars output) of
       (Some a, Some t) \<Rightarrow> match (items a) (items t)
     | _ \<Rightarrow> False)"

definition tokens_accepted :: "(rstr \<Rightarrow> rstr) \<Rightarrow> token_mode \<Rightarrow> byte list \<Rightarrow> byte list \<Rightarrow> bool" where
  "tokens_accepted to_lowercase mode = text_accepted (list_all2 (tokens_match to_lowercase mode)) split_whitespace"

definition lines_accepted :: "byte list \<Rightarrow> byte list \<Rightarrow> bool" where
  "lines_accepted = text_accepted (=) split_lines_trimmed"

definition accepted :: "(rstr \<Rightarrow> rstr) \<Rightarrow> cmp_args \<Rightarrow> byte list \<Rightarrow> byte list \<Rightarrow> bool" where
  "accepted to_lowercase args output answer \<longleftrightarrow>
    (if ca_mode args = lit ''exact'' then output = answer
     else if ca_mode args = lit ''lines'' then lines_accepted output answer
     else tokens_accepted to_lowercase
       (if ca_mode args = lit ''tokens'' then TokExact
        else if ca_mode args = lit ''tokens-case-insensitive'' then TokCaseInsensitive
        else float_mode args) output answer)"

definition compare_modes :: "rstr list" where
  "compare_modes =
    [lit ''exact'', lit ''tokens'', lit ''tokens-case-insensitive'', lit ''tokens-float'', lit ''lines'']"

lemma utf8_chars_Some: "utf8_chars bs = Some cs \<longleftrightarrow> utf8_decode bs = (cs, Rest [])"
  by (auto simp: utf8_chars_def split: prod.splits utf8_end.splits list.splits)

lemma utf8_chars_None: "utf8_chars bs = None \<longleftrightarrow> snd (utf8_decode bs) \<noteq> Rest []"
  by (auto simp: utf8_chars_def split: prod.splits utf8_end.splits list.splits)

lemma text_accepted_decode:
  "utf8_chars answer \<noteq> None \<Longrightarrow>
    text_accepted match items output answer \<longleftrightarrow>
      snd (utf8_decode output) = Rest [] \<and> match (items (fst (utf8_decode answer))) (items (fst (utf8_decode output)))"
  by (auto simp: text_accepted_def utf8_chars_def split: prod.splits utf8_end.splits list.splits)

lemma compare_tokens_decides:
  assumes "reader_ok output" "reader_ok answer" "utf8_chars (reader_bytes answer) \<noteq> None"
  shows "fst (compare_tokens lc mode output answer) =
    Inr (if tokens_accepted lc mode (reader_bytes output) (reader_bytes answer) then CmpAccepted else CmpWrongAnswer)"
  using token_cmp.loop_decides [OF ts_new(1) ts_new(1), OF assms(1,2)] assms(3)
  by (simp add: compare_tokens_def tokens_accepted_def text_accepted_decode ts_new utf8_chars_None)

lemma compare_lines_decides:
  assumes "reader_ok output" "reader_ok answer" "utf8_chars (reader_bytes answer) \<noteq> None"
  shows "fst (compare_lines output answer) =
    Inr (if lines_accepted (reader_bytes output) (reader_bytes answer) then CmpAccepted else CmpWrongAnswer)"
  using line_cmp.loop_decides [OF ls_new(1) ls_new(1), OF assms(1,2)] assms(3)
  by (simp add: compare_lines_def lines_accepted_def text_accepted_decode ls_new utf8_chars_None list.rel_eq)

lemma compare_decides:
  assumes "reader_ok output" "reader_ok answer" "ca_mode args \<in> set compare_modes"
    and "ca_mode args = lit ''exact'' \<or> utf8_chars (reader_bytes answer) \<noteq> None"
  shows "fst (compare lc args output answer) =
    Inr (if accepted lc args (reader_bytes output) (reader_bytes answer) then CmpAccepted else CmpWrongAnswer)"
  using assms(3,4) compare_exact_decides [OF assms(1,2)] compare_tokens_decides [OF assms(1,2)] compare_lines_decides [OF assms(1,2)]
  by (auto simp: compare_def accepted_def compare_modes_def lit_def)

lemma compare_broken_answer:
  assumes "reader_ok output" "reader_ok answer" "ca_mode args \<in> set compare_modes" "ca_mode args \<noteq> lit ''exact''"
    and "utf8_chars (reader_bytes answer) = None"
  shows "fst (compare lc args output answer) \<in> {Inr CmpWrongAnswer, Inl InvalidData}"
  using assms(3-5) token_cmp.loop_unclean_answer [OF ts_new(1) ts_new(1), OF assms(1,2)]
    line_cmp.loop_unclean_answer [OF ls_new(1) ls_new(1), OF assms(1,2)]
  by (auto simp: compare_def compare_modes_def compare_tokens_def compare_lines_def ts_new ls_new utf8_chars_None lit_def)

section \<open>Modes from strict to lax\<close>

lemma tokens_match_refl:
  assumes "\<And>a r. mode = TokFloat a r \<Longrightarrow> f64_le (F64 0) a"
  shows "tokens_match lc mode t t"
proof (cases mode)
  case (TokFloat a r)
  then have tol: "f64_le (F64 0) (f64_max a b)" for b using assms f64_le_max by blast
  show ?thesis
  proof (cases "parse_f64 t")
    case (Some x)
    with TokFloat tol show ?thesis by (cases x) (simp_all add: tokens_match_def f64_eq_def Let_def f64_sub_self)
  qed (simp add: tokens_match_def TokFloat)
qed (simp_all add: tokens_match_def)

lemma tokens_accepted_lax:
  assumes "\<And>a r. mode = TokFloat a r \<Longrightarrow> f64_le (F64 0) a" "tokens_accepted lc TokExact output answer"
  shows "tokens_accepted lc mode output answer"
proof -
  have eq: "tokens_match lc TokExact = (=)" by (intro ext) (simp add: tokens_match_def)
  obtain a t where "utf8_chars answer = Some a" "utf8_chars output = Some t" "split_whitespace a = split_whitespace t"
    using assms(2) by (auto simp: tokens_accepted_def text_accepted_def eq list.rel_eq split: option.splits)
  moreover have "list_all2 (tokens_match lc mode) xs xs" for xs
    by (rule list.rel_refl) (rule tokens_match_refl [OF assms(1)])
  ultimately show ?thesis by (simp add: tokens_accepted_def text_accepted_def)
qed

lemma tokens_accepted_lines: "lines_accepted output answer \<Longrightarrow> tokens_accepted lc TokExact output answer"
proof -
  assume "lines_accepted output answer"
  then obtain a t where "utf8_chars answer = Some a" "utf8_chars output = Some t"
      "split_lines_trimmed a = split_lines_trimmed t"
    by (auto simp: lines_accepted_def text_accepted_def split: option.splits)
  moreover from this(3) have "split_whitespace a = split_whitespace t"
    by (simp add: split_whitespace_of_lines [of a] split_whitespace_of_lines [of t])
  moreover have "list_all2 (tokens_match lc TokExact) xs xs" for xs
    by (rule list.rel_refl) (simp add: tokens_match_def)
  ultimately show ?thesis by (simp add: tokens_accepted_def text_accepted_def)
qed

lemma lines_accepted_refl: "utf8_chars answer \<noteq> None \<Longrightarrow> lines_accepted answer answer"
  by (auto simp: lines_accepted_def text_accepted_def)

definition laxer_modes :: "(rstr \<times> rstr) list" where
  "laxer_modes =
    [(lit ''exact'', lit ''lines''), (lit ''lines'', lit ''tokens''),
     (lit ''tokens'', lit ''tokens-case-insensitive''), (lit ''tokens'', lit ''tokens-float'')]"

definition abs_tolerance :: "cmp_args \<Rightarrow> f64" where
  "abs_tolerance args = (case ca_epsilon args of Some x \<Rightarrow> x | None \<Rightarrow> DEFAULT_ABS_TOL)"

section \<open>Claims\<close>

text \<open>
  C26: the exit code of the comparator is 0 when the mode accepts the bytes of standard input
  against those of the answer file and 1 otherwise, however the two arrive: in whatever pieces,
  cut inside characters or not, and with interrupted reads. An output that is not UTF-8 is wrong,
  never an error.
\<close>

theorem comparator_decides:
  assumes "parse_args argv = Inr args" and "ca_mode args \<in> set compare_modes"
    and "files (ca_answer args) = Some answer" and "list_all event_ok answer" and "list_all event_ok stdin"
    and "ca_mode args = lit ''exact'' \<or> utf8_chars (concat (map event_bytes answer)) \<noteq> None"
  shows "main_exit (run_compare to_lowercase files flushed argv stdin sink) =
    (if accepted to_lowercase args (concat (map event_bytes stdin)) (concat (map event_bytes answer)) then 0 else 1)"
proof -
  have "fst (compare to_lowercase args (tee_reader_new stdin sink) (plain_reader answer)) =
      Inr (if accepted to_lowercase args (concat (map event_bytes stdin)) (concat (map event_bytes answer))
           then CmpAccepted else CmpWrongAnswer)"
    using compare_decides [of "tee_reader_new stdin sink" "plain_reader answer" args] assms
    by (simp add: reader_ok_def reader_bytes_def tee_reader_new_def plain_reader_def)
  then show ?thesis
    using assms(1,3) by (auto simp: run_compare_def main_exit_def finalize_def split: prod.splits)
qed

theorem comparator_decides_witness:
  "main_exit (run_compare id (\<lambda>_. Some [Chunk [226, 130], Chunk [172, 13, 10, 10]]) (Inr ())
      [lit ''--mode'', lit ''lines'', lit ''--answer'', lit ''a'']
      [Chunk [226], Failed Interrupted, Chunk [130, 172, 32]] \<lparr>pv_written = [], pv_faults = []\<rparr>) = 0"
proof -
  let ?args = "\<lparr>ca_mode = lit ''lines'', ca_answer = lit ''a'', ca_epsilon = None, ca_rel_epsilon = None\<rparr>"
  have "parse_args [lit ''--mode'', lit ''lines'', lit ''--answer'', lit ''a''] = Inr ?args"
    by (simp add: parse_args_def lit_def)
  moreover have "utf8_chars [226, 130, 172, 13, 10, 10] = Some [8364, 13, 10, 10]"
    "utf8_chars [226, 130, 172, 32] = Some [8364, 32]"
    by (simp_all add: utf8_chars_def utf8_decode.simps utf8_lead_def numeral_eq_Suc)
  moreover from this have "accepted id ?args [226, 130, 172, 32] [226, 130, 172, 13, 10, 10]"
    by (simp add: accepted_def lines_accepted_def text_accepted_def split_lines_trimmed_def trim_end_def
        is_whitespace_def strip_blank_def lit_def)
  ultimately show ?thesis
    using comparator_decides [of "[lit ''--mode'', lit ''lines'', lit ''--answer'', lit ''a'']" ?args
      "\<lambda>_. Some [Chunk [226, 130], Chunk [172, 13, 10, 10]]" "[Chunk [226, 130], Chunk [172, 13, 10, 10]]"
      "[Chunk [226], Failed Interrupted, Chunk [130, 172, 32]]" id "Inr ()" "\<lparr>pv_written = [], pv_faults = []\<rparr>"]
    by (simp add: compare_modes_def)
qed

text \<open>
  C27: whatever the comparison does -- accept, reject early, or fail on the answer or on an
  unknown mode -- standard input is read to its end, and as long as standard output can be written
  it holds exactly the first 64 KiB of standard input.
\<close>

theorem comparator_previews:
  assumes "parse_args argv = Inr args" and "files (ca_answer args) = Some answer"
    and "list_all event_ok stdin" and "True \<notin> set (pv_faults sink)" and "pv_written sink = []"
  shows "\<exists>res r sink'. run_compare to_lowercase files flushed argv stdin sink = (res, Some r) \<and> tr_inner r = []
    \<and> tr_preview r = Some sink' \<and> pv_written sink' = take (64 * 1024) (concat (map event_bytes stdin))"
proof -
  let ?r = "snd (drain_to_eof (snd (compare to_lowercase args (tee_reader_new stdin sink) (plain_reader answer))))"
  let ?input = "concat (map event_bytes stdin)"
  have start: "preview_ok ?input (tee_reader_new stdin sink)"
    using assms(3-5) unfolding preview_ok_def
    by (intro conjI exI [of _ sink] exI [of _ "[]"])
       (simp_all add: tee_reader_new_def reader_ok_def reader_bytes_def)
  have "preview_ok ?input ?r" by (rule preview.compare_drained [OF start])
  then obtain sink' consumed where r: "tr_preview ?r = Some sink'" "?input = consumed @ reader_bytes ?r"
      "pv_written sink' = take INLINE_OUTPUT_PREVIEW_BYTES consumed"
    unfolding preview_ok_def by blast
  have "reader_ok (snd (compare to_lowercase args (tee_reader_new stdin sink) (plain_reader answer)))"
    using preview.compare [OF start] by (simp add: preview_ok_def)
  then have inner: "tr_inner ?r = []" by (rule drain_empties)
  have "\<exists>res. run_compare to_lowercase files flushed argv stdin sink = (res, Some ?r)"
    using assms(1,2) by (simp add: run_compare_def split: prod.splits)
  with r inner show ?thesis by (auto simp: reader_bytes_def INLINE_OUTPUT_PREVIEW_BYTES_def)
qed

theorem comparator_previews_witness:
  "\<exists>res r sink'. run_compare id (\<lambda>_. Some []) (Inl IoFailure) [lit ''--mode'', lit ''fuzzy'', lit ''--answer'', lit ''a'']
      [Chunk [65, 66], Failed Interrupted, Chunk [67]] \<lparr>pv_written = [], pv_faults = [False]\<rparr> = (res, Some r) \<and> tr_inner r = []
    \<and> tr_preview r = Some sink' \<and> pv_written sink' = [65, 66, 67]"
proof -
  let ?args = "\<lparr>ca_mode = lit ''fuzzy'', ca_answer = lit ''a'', ca_epsilon = None, ca_rel_epsilon = None\<rparr>"
  have "parse_args [lit ''--mode'', lit ''fuzzy'', lit ''--answer'', lit ''a''] = Inr ?args"
    by (simp add: parse_args_def lit_def)
  from comparator_previews [OF this, of "\<lambda>_. Some []" "[]" "[Chunk [65, 66], Failed Interrupted, Chunk [67]]"
      "\<lparr>pv_written = [], pv_faults = [False]\<rparr>" id "Inl IoFailure"]
  show ?thesis by simp
qed

text \<open>
  An answer file that is not UTF-8 never lets an output through: in every mode that compares
  text the comparator then exits with 1, if the output already differs, or with 64, which the judge
  reports as a failure of the checker.
\<close>

theorem comparator_broken_answer:
  assumes "parse_args argv = Inr args" and "ca_mode args \<in> set compare_modes" and "ca_mode args \<noteq> lit ''exact''"
    and "files (ca_answer args) = Some answer" and "list_all event_ok answer" and "list_all event_ok stdin"
    and "utf8_chars (concat (map event_bytes answer)) = None"
  shows "main_exit (run_compare to_lowercase files flushed argv stdin sink) \<in> {1, 64}"
proof -
  have "fst (compare to_lowercase args (tee_reader_new stdin sink) (plain_reader answer))
      \<in> {Inr CmpWrongAnswer, Inl InvalidData}"
    by (rule compare_broken_answer)
       (use assms in \<open>simp_all add: reader_ok_def reader_bytes_def tee_reader_new_def plain_reader_def\<close>)
  then show ?thesis
    using assms(1,4) by (auto simp: run_compare_def main_exit_def finalize_def split: prod.splits)
qed

theorem comparator_broken_answer_witness:
  "main_exit (run_compare id (\<lambda>_. Some [Chunk [255]]) (Inr ())
      [lit ''--answer'', lit ''a'', lit ''--mode'', lit ''tokens''] [Chunk [65]] \<lparr>pv_written = [], pv_faults = []\<rparr>) \<in> {1, 64}"
proof -
  let ?args = "\<lparr>ca_mode = lit ''tokens'', ca_answer = lit ''a'', ca_epsilon = None, ca_rel_epsilon = None\<rparr>"
  have "parse_args [lit ''--answer'', lit ''a'', lit ''--mode'', lit ''tokens''] = Inr ?args"
    by (simp add: parse_args_def lit_def)
  from comparator_broken_answer [OF this, of "\<lambda>_. Some [Chunk [255]]" "[Chunk [255]]" "[Chunk [65]]" id "Inr ()"
      "\<lparr>pv_written = [], pv_faults = []\<rparr>"]
  show ?thesis
    by (simp add: compare_modes_def lit_def utf8_chars_def utf8_decode.simps utf8_lead_def)
qed



end
