(* ===== verification/IoiScoring.thy ===== *)
theory IoiScoring
  imports Detached F64Text
begin

text \<open>
  The scoring rules of the IOI plugin: \<open>plugins/ioi/src/config.rs\<close>, \<open>subtasks.rs\<close>, \<open>scoring.rs\<close> and
  \<open>tokens.rs\<close>. A \<open>HashMap\<close> is a map; the code only looks keys up in it. Floating-point sums and
  products are folds in the order of the code, each operation rounded.
\<close>

section \<open>More operations of f64\<close>

fun f64_add :: "f64 \<Rightarrow> f64 \<Rightarrow> f64" where
  "f64_add F64NaN _ = F64NaN"
| "f64_add _ F64NaN = F64NaN"
| "f64_add (F64Inf a) (F64Inf b) = (if a = b then F64Inf a else F64NaN)"
| "f64_add (F64Inf a) (F64 _) = F64Inf a"
| "f64_add (F64 _) (F64Inf b) = F64Inf b"
| "f64_add (F64 x) (F64 y) = f64_round (x + y)"

text \<open>A zero divisor counts as positive; the code divides by positive numbers only.\<close>

fun f64_div :: "f64 \<Rightarrow> f64 \<Rightarrow> f64" where
  "f64_div F64NaN _ = F64NaN"
| "f64_div _ F64NaN = F64NaN"
| "f64_div (F64Inf a) (F64Inf b) = F64NaN"
| "f64_div (F64Inf a) (F64 y) = F64Inf (a \<noteq> (y < 0))"
| "f64_div (F64 _) (F64Inf _) = F64 0"
| "f64_div (F64 x) (F64 y) =
    (if y = 0 then (if x = 0 then F64NaN else F64Inf (x < 0)) else f64_round (x / y))"

text \<open>\<open>f64::round\<close>: to the nearest integer, ties away from zero; the result is exact.\<close>

fun f64_round_away :: "f64 \<Rightarrow> f64" where
  "f64_round_away (F64 x) = F64 (sgn x * of_int \<lfloor>\<bar>x\<bar> + 1 / 2\<rfloor>)"
| "f64_round_away y = y"

text \<open>\<open>f64::clamp\<close> with the bounds 0 and 1; a value that is not a number stays.\<close>

definition f64_clamp01 :: "f64 \<Rightarrow> f64" where
  "f64_clamp01 x = (if f64_lt x (F64 0) then F64 0 else if f64_lt (F64 1) x then F64 1 else x)"

definition f64_sum :: "f64 list \<Rightarrow> f64" where "f64_sum = foldl f64_add (F64 0)"
definition f64_product :: "f64 list \<Rightarrow> f64" where "f64_product = foldl f64_mul (F64 1)"

section \<open>Configuration\<close>

datatype scoring_mode = MaxSubmission | SumBestSubtask | BestTokenedOrLast
datatype feedback_level = FullFeedback | SubtaskScores | TotalOnly | NoFeedback
datatype scoreboard_visibility = AdminsOnly | AllContestViewers
datatype scoreboard_tiebreaker = EqualRank | SumScoreTime | MaxScoreTime
datatype token_budget = NoTokens | FixedBudget | Regenerating
datatype subtask_method = GroupMin | SumMethod | GroupMul

record token_config =
  tk_mode :: token_budget
  tk_initial :: nat
  tk_max :: nat
  tk_regen_interval_min :: nat

record ioi_config =
  ic_scoring_mode :: scoring_mode
  ic_feedback_level :: feedback_level
  ic_scoreboard_visibility :: scoreboard_visibility
  ic_scoreboard_tiebreaker :: scoreboard_tiebreaker
  ic_tokens :: token_config

record subtask_def =
  sd_name :: rstr
  sd_scoring_method :: subtask_method
  sd_max_score :: f64
  sd_test_cases :: "rstr list"

definition id_string :: "i32 \<Rightarrow> rstr" where "id_string i = lit (show_int i)"

definition resolve_tc_label :: "test_case_row \<Rightarrow> rstr" where
  "resolve_tc_label tc =
    (case tc_label tc of Some l \<Rightarrow> if l = [] then id_string (tc_id tc) else l | None \<Rightarrow> id_string (tc_id tc))"

definition round_score :: "f64 \<Rightarrow> f64" where
  "round_score v = f64_div (f64_round_away (f64_mul v (F64 100))) (F64 100)"

section \<open>Subtasks\<close>

record subtask_result =
  sr_name :: rstr
  sr_score :: f64
  sr_max_score :: f64

type_synonym score_map = "rstr \<rightharpoonup> f64"

definition test_case_reference_keys :: "test_case_row \<Rightarrow> rstr list" where
  "test_case_reference_keys tc =
    (let label = resolve_tc_label tc; i = id_string (tc_id tc) in if label = i then [i] else [label, i])"

definition test_case_weights :: "test_case_row list \<Rightarrow> score_map" where
  "test_case_weights test_cases =
    foldl (\<lambda>w tc. foldl (\<lambda>w key. w(key \<mapsto> tc_score tc)) w (test_case_reference_keys tc)) Map.empty test_cases"

definition scores_by_all_keys :: "test_case_row list \<Rightarrow> score_map \<Rightarrow> score_map" where
  "scores_by_all_keys test_cases tc_scores =
    foldl (\<lambda>out tc.
      case tc_scores (resolve_tc_label tc) of
        None \<Rightarrow> out
      | Some s \<Rightarrow> foldl (\<lambda>out key. if out key = None then out(key \<mapsto> s) else out) out (test_case_reference_keys tc))
      tc_scores test_cases"

definition score_or_zero :: "score_map \<Rightarrow> rstr \<Rightarrow> f64" where
  "score_or_zero m label = (case m label of Some s \<Rightarrow> s | None \<Rightarrow> F64 0)"

text \<open>One round of the weighted sum: the total weight and the weighted sum so far.\<close>

definition weigh :: "score_map \<Rightarrow> score_map \<Rightarrow> f64 \<times> f64 \<Rightarrow> rstr \<Rightarrow> f64 \<times> f64" where
  "weigh weights tc_scores acc label =
    (let weight = (case weights label of Some w \<Rightarrow> w | None \<Rightarrow> F64 1) in
     if f64_le weight (F64 0) then acc
     else (f64_add (fst acc) weight, f64_add (snd acc) (f64_mul (score_or_zero tc_scores label) weight)))"

definition score_subtask_raw :: "subtask_def \<Rightarrow> score_map \<Rightarrow> score_map \<Rightarrow> f64" where
  "score_subtask_raw def weights tc_scores =
    (if sd_test_cases def = [] then F64 0
     else case sd_scoring_method def of
       GroupMin \<Rightarrow>
         if list_all (\<lambda>label. f64_le (F64 1) (score_or_zero tc_scores label)) (sd_test_cases def)
         then sd_max_score def else F64 0
     | SumMethod \<Rightarrow>
         (let (total_weight, weighted_sum) = foldl (weigh weights tc_scores) (F64 0, F64 0) (sd_test_cases def)
          in if f64_lt (F64 0) total_weight then f64_mul (sd_max_score def) (f64_div weighted_sum total_weight)
             else F64 0)
     | GroupMul \<Rightarrow>
         f64_mul (sd_max_score def) (f64_product (map (score_or_zero tc_scores) (sd_test_cases def))))"

definition score_subtask_with_weights :: "subtask_def \<Rightarrow> score_map \<Rightarrow> score_map \<Rightarrow> subtask_result" where
  "score_subtask_with_weights def weights tc_scores =
    \<lparr>sr_name = sd_name def, sr_score = round_score (score_subtask_raw def weights tc_scores),
     sr_max_score = sd_max_score def\<rparr>"

definition score_subtask :: "subtask_def \<Rightarrow> test_case_row list \<Rightarrow> score_map \<Rightarrow> subtask_result" where
  "score_subtask def test_cases tc_scores =
    score_subtask_with_weights def (test_case_weights test_cases) (scores_by_all_keys test_cases tc_scores)"

definition score_all_subtasks :: "subtask_def list \<Rightarrow> test_case_row list \<Rightarrow> score_map \<Rightarrow> subtask_result list" where
  "score_all_subtasks defs test_cases tc_scores =
    (let weights = test_case_weights test_cases; tc_scores = scores_by_all_keys test_cases tc_scores
     in map (\<lambda>def. score_subtask_with_weights def weights tc_scores) defs)"

definition compute_scoring_test_case_ids :: "subtask_def list \<Rightarrow> test_case_row list \<Rightarrow> i32 list" where
  "compute_scoring_test_case_ids subtask_defs test_cases =
    (let subtask_labels = set (concat (map sd_test_cases subtask_defs))
     in map tc_id (filter (\<lambda>tc. tc_is_sample tc \<or> f64_lt (F64 0) (tc_score tc)
          \<or> list_ex (\<lambda>key. key \<in> subtask_labels) (test_case_reference_keys tc)) test_cases))"

definition build_default_subtasks :: "test_case_row list \<Rightarrow> subtask_def list" where
  "build_default_subtasks test_cases =
    (let scoring = filter (\<lambda>tc. \<not> tc_is_sample tc \<and> f64_lt (F64 0) (tc_score tc)) test_cases
     in if scoring = [] then []
        else [\<lparr>sd_name = lit ''All Tests'', sd_scoring_method = SumMethod,
               sd_max_score = f64_sum (map tc_score scoring), sd_test_cases = map resolve_tc_label scoring\<rparr>])"

section \<open>Task scores\<close>

definition score_max_submission :: "f64 \<Rightarrow> f64 \<Rightarrow> f64" where
  "score_max_submission current historical_best = round_score (f64_max current historical_best)"

text \<open>The best score per position so far; a position beyond those seen starts at 0.\<close>

definition raise_best :: "f64 list \<Rightarrow> f64 list \<Rightarrow> f64 list" where
  "raise_best best scores =
    map (\<lambda>i. if i < length scores \<and> f64_lt (best ! i) (scores ! i) then scores ! i else best ! i) [0..<length best]"

definition score_sum_best_subtask :: "f64 list list \<Rightarrow> f64" where
  "score_sum_best_subtask all =
    (if all = [] then F64 0
     else let num_subtasks = Max (set (map length all));
              best = foldl raise_best (replicate num_subtasks (F64 0)) all
          in round_score (f64_sum best))"

definition score_best_tokened_or_last :: "f64 \<Rightarrow> f64 \<Rightarrow> f64" where
  "score_best_tokened_or_last tokened_best last_score = round_score (f64_max tokened_best last_score)"

section \<open>Tokens\<close>

record token_state =
  tks_used :: nat
  tks_tokened_submission_ids :: "i32 list"

definition U32_MAX :: nat where "U32_MAX = 2 ^ 32 - 1"

text \<open>Times are 64-bit minutes; the sums and products of the regeneration stay far below the bound.\<close>

definition regenerated_total :: "token_config \<Rightarrow> nat \<Rightarrow> nat" where
  "regenerated_total config elapsed_minutes =
    min (tk_initial config + elapsed_minutes div max (tk_regen_interval_min config) 1) (tk_max config)"

definition available_tokens :: "token_config \<Rightarrow> token_state \<Rightarrow> nat \<Rightarrow> nat" where
  "available_tokens config st elapsed_minutes =
    (case tk_mode config of
       NoTokens \<Rightarrow> U32_MAX
     | FixedBudget \<Rightarrow> tk_initial config - tks_used st
     | Regenerating \<Rightarrow> regenerated_total config elapsed_minutes - tks_used st)"

definition next_regen_elapsed_min :: "token_config \<Rightarrow> nat \<Rightarrow> nat option" where
  "next_regen_elapsed_min config elapsed_minutes =
    (case tk_mode config of
       Regenerating \<Rightarrow>
         if tk_max config \<le> regenerated_total config elapsed_minutes then None
         else Some ((elapsed_minutes div max (tk_regen_interval_min config) 1 + 1) * max (tk_regen_interval_min config) 1)
     | _ \<Rightarrow> None)"

end
