(* ===== verification/IoiJudge.thy ===== *)
theory IoiJudge
  imports Samples IoiScoring
begin

text \<open>
  The IOI contest type as a judge: the tracker that cancels cases whose result can no longer
  matter and the policy \<open>IoiJudge\<close> (\<open>plugins/ioi/src/evaluate_batch.rs\<close>), the terminal update
  (\<open>persist.rs\<close>), starting a session (\<open>judge.rs\<close>, \<open>score.rs\<close>) and the entry points (\<open>lib.rs\<close>). The
  policy is the second instance of the driver's interface. The configuration service of the host
  and its evaluate service are parameters. A policy travels with the session as JSON; its numbers
  came from JSON, so it is carried as it is.
\<close>

section \<open>Cancelling cases\<close>

record subtask_short_circuit =
  ssc_methods :: "subtask_method list"
  ssc_subtask_cases :: "i32 set list"
  ssc_case_subtasks :: "i32 \<rightharpoonup> nat list"
  ssc_failed_subtasks :: "nat set"
  ssc_active_cases :: "i32 set"
  ssc_sample_cases :: "i32 set"
  ssc_test_case_order :: "i32 list"

text \<open>\<open>key_to_ids\<close>: the cases a key names, in the order of the cases.\<close>

definition key_to_ids :: "test_case_row list \<Rightarrow> rstr \<Rightarrow> i32 list" where
  "key_to_ids test_cases key =
    map tc_id (filter (\<lambda>tc. key \<in> set (test_case_reference_keys tc)) test_cases)"

text \<open>One insertion: a case joins a subtask once, and the subtask is noted with the case then.\<close>

definition join_subtask :: "nat \<Rightarrow> i32 set list \<times> (i32 \<rightharpoonup> nat list) \<Rightarrow> i32 \<Rightarrow> i32 set list \<times> (i32 \<rightharpoonup> nat list)" where
  "join_subtask idx acc i =
    (case acc of (cases, subtasks) \<Rightarrow>
      if i \<in> cases ! idx then acc
      else (cases[idx := insert i (cases ! idx)],
            subtasks(i \<mapsto> (case subtasks i of None \<Rightarrow> [] | Some l \<Rightarrow> l) @ [idx])))"

definition ssc_new :: "subtask_def list \<Rightarrow> test_case_row list \<Rightarrow> subtask_short_circuit" where
  "ssc_new subtask_defs test_cases =
    (let (subtask_cases, case_subtasks) =
       foldl (\<lambda>acc (idx, def). foldl (join_subtask idx) acc (concat (map (key_to_ids test_cases) (sd_test_cases def))))
         (replicate (length subtask_defs) {}, Map.empty) (List.enumerate 0 subtask_defs)
     in \<lparr>ssc_methods = map sd_scoring_method subtask_defs, ssc_subtask_cases = subtask_cases,
         ssc_case_subtasks = case_subtasks, ssc_failed_subtasks = {},
         ssc_active_cases = set (map tc_id test_cases),
         ssc_sample_cases = set (map tc_id (filter tc_is_sample test_cases)),
         ssc_test_case_order = map tc_id test_cases\<rparr>)"

definition result_fails_method :: "subtask_short_circuit \<Rightarrow> nat \<Rightarrow> f64 \<Rightarrow> bool" where
  "result_fails_method s idx raw =
    (if idx < length (ssc_methods s) then
       (case ssc_methods s ! idx of
          GroupMin \<Rightarrow> f64_lt raw (F64 1)
        | GroupMul \<Rightarrow> f64_le raw (F64 0)
        | SumMethod \<Rightarrow> False)
     else False)"

definition method_can_short_circuit :: "subtask_short_circuit \<Rightarrow> nat \<Rightarrow> bool" where
  "method_can_short_circuit s idx \<longleftrightarrow>
    idx < length (ssc_methods s) \<and> ssc_methods s ! idx \<in> {GroupMin, GroupMul}"

definition failing_subtasks_for :: "subtask_short_circuit \<Rightarrow> i32 \<Rightarrow> f64 \<Rightarrow> nat set" where
  "failing_subtasks_for s i raw =
    (case ssc_case_subtasks s i of
       None \<Rightarrow> {}
     | Some subtasks \<Rightarrow> set (filter (\<lambda>idx. result_fails_method s idx raw) subtasks))"

definition case_is_only_needed_by_failed :: "subtask_short_circuit \<Rightarrow> i32 \<Rightarrow> nat set \<Rightarrow> bool" where
  "case_is_only_needed_by_failed s i failed \<longleftrightarrow>
    (case ssc_case_subtasks s i of
       None \<Rightarrow> False
     | Some subtasks \<Rightarrow> list_all (\<lambda>idx. method_can_short_circuit s idx \<and> idx \<in> failed) subtasks)"

definition cancellable_cases_for_failure :: "subtask_short_circuit \<Rightarrow> i32 \<Rightarrow> nat set \<Rightarrow> i32 list" where
  "cancellable_cases_for_failure s i failed =
    (case ssc_case_subtasks s i of
       None \<Rightarrow> []
     | Some failed_case_subtasks \<Rightarrow>
         (let newly_failed = \<Union> (set (map (\<lambda>idx. ssc_subtask_cases s ! idx)
                (filter (method_can_short_circuit s) failed_case_subtasks)))
          in filter (\<lambda>j. j \<in> ssc_active_cases s \<and> j \<notin> ssc_sample_cases s \<and> j \<in> newly_failed
               \<and> case_is_only_needed_by_failed s j failed) (ssc_test_case_order s)))"

definition cancellable_after ::
    "i32 \<Rightarrow> f64 \<Rightarrow> i32 set \<Rightarrow> subtask_short_circuit \<Rightarrow> i32 list \<times> subtask_short_circuit" where
  "cancellable_after i raw already_recorded s =
    (let s1 = s\<lparr>ssc_active_cases := ssc_active_cases s - {i}\<rparr>;
         failing = failing_subtasks_for s1 i raw
     in if failing = {} then ([], s1)
        else let s2 = s1\<lparr>ssc_failed_subtasks := ssc_failed_subtasks s1 \<union> failing\<rparr>
             in (filter (\<lambda>j. j \<notin> already_recorded) (cancellable_cases_for_failure s2 i (ssc_failed_subtasks s2)), s2))"

definition mark_cancelled :: "i32 list \<Rightarrow> subtask_short_circuit \<Rightarrow> subtask_short_circuit" where
  "mark_cancelled ids s = s\<lparr>ssc_active_cases := ssc_active_cases s - set ids\<rparr>"

section \<open>The terminal update\<close>

record ioi_outcome =
  io_test_case_id :: i32
  io_verdict :: verdict
  io_raw_score :: f64
  io_time_used :: "i32 option"
  io_memory_used :: "i32 option"
  io_message :: "rstr option"
  io_stdout :: "rstr option"
  io_stderr :: "rstr option"

definition ioi_outcome_from_case :: "case_outcome \<Rightarrow> ioi_outcome" where
  "ioi_outcome_from_case oc =
    \<lparr>io_test_case_id = co_test_case_id oc, io_verdict = co_verdict oc, io_raw_score = co_score oc,
     io_time_used = co_time_used oc, io_memory_used = co_memory_used oc, io_message = co_message oc,
     io_stdout = None, io_stderr = None\<rparr>"

definition ioi_terminal_update :: "i32 \<Rightarrow> i32 \<Rightarrow> i32 \<Rightarrow> ioi_outcome list \<Rightarrow> f64 \<Rightarrow> submission_update" where
  "ioi_terminal_update sid jid ep outcomes submission_score =
    (let non_skipped = filter (\<lambda>oc. \<not> is_skipped_or_cancelled (io_verdict oc)) outcomes;
         v = (if non_skipped = [] then SystemError
              else case max_by_key severity (map io_verdict non_skipped) of Some v \<Rightarrow> v | None \<Rightarrow> SystemError);
         is_ce = (v = CompileError)
     in \<lparr>u_submission_id = sid, u_judgement_id = jid, u_judge_epoch = ep,
         u_status = Some (if is_ce then SCompilationError else SJudged),
         u_verdict = Some (if is_ce then None else Some v),
         u_score = Some (if non_skipped = [] then F64 0 else round_score submission_score),
         u_time_used = Some (opt_max (List.map_filter io_time_used non_skipped)),
         u_memory_used = Some (opt_max (List.map_filter io_memory_used non_skipped)),
         u_compile_output = Some (if is_ce
            then Option.bind (List.find (\<lambda>oc. io_verdict oc = CompileError) outcomes) io_message
            else None),
         u_error_code = None, u_error_message = None\<rparr>)"

definition ioi_ok :: on_submission_output where
  "ioi_ok = \<lparr>out_success = True, out_error_message = None\<rparr>"

definition persist_results ::
    "i32 \<Rightarrow> i32 \<Rightarrow> i32 \<Rightarrow> ioi_outcome list \<Rightarrow> f64 \<Rightarrow> ('z, on_submission_output) dbcall" where
  "persist_results sid jid ep outcomes submission_score =
    hbind (submission_update_call (ioi_terminal_update sid jid ep outcomes submission_score))
      (\<lambda>affected. if affected = 0 then hthrow StaleEpoch else hret ioi_ok)"

section \<open>The policy\<close>

record ioi_policy =
  ip_all_test_cases :: "test_case_row list"
  ip_subtask_defs :: "subtask_def list"
  ip_short_circuit :: subtask_short_circuit

definition normalize_raw_score :: "f64 \<Rightarrow> f64" where
  "normalize_raw_score s = (if f64_is_finite s then f64_clamp01 s else F64 0)"

definition ioi_score :: "ioi_policy \<Rightarrow> test_case_verdict \<Rightarrow> case_outcome" where
  "ioi_score p result = outcome_from_verdict result (normalize_raw_score (tv_score result))"

definition ioi_db_score :: "ioi_policy \<Rightarrow> case_outcome \<Rightarrow> scoring_case \<Rightarrow> f64" where
  "ioi_db_score p outcome tc = round_score (f64_mul (co_score outcome) (sc_score tc))"

definition ioi_next_step :: "ioi_policy \<Rightarrow> judge_progress \<Rightarrow> judge_step \<times> ioi_policy" where
  "ioi_next_step p progress =
    (case pr_last progress of
       None \<Rightarrow> (Continue, p)
     | Some l \<Rightarrow>
         (let already_recorded = set (map co_test_case_id (pr_outcomes progress));
              (cancel_ids, sc) = cancellable_after (co_test_case_id l) (co_score l) already_recorded (ip_short_circuit p)
          in if cancel_ids = [] then (Continue, p\<lparr>ip_short_circuit := sc\<rparr>)
             else (Cancel cancel_ids, p\<lparr>ip_short_circuit := mark_cancelled cancel_ids sc\<rparr>)))"

text \<open>The scores by reference key: a later outcome overwrites an earlier one under the same key.\<close>

definition outcome_scores :: "test_case_row list \<Rightarrow> case_outcome list \<Rightarrow> score_map" where
  "outcome_scores all_test_cases outcomes =
    (let id_to_keys = map_of (rev (map (\<lambda>tc. (tc_id tc, test_case_reference_keys tc)) all_test_cases))
     in foldl (\<lambda>m oc.
          if is_skipped_or_cancelled (co_verdict oc) then m
          else foldl (\<lambda>m key. m(key \<mapsto> co_score oc)) m
                 (case id_to_keys (co_test_case_id oc) of Some keys \<Rightarrow> keys | None \<Rightarrow> []))
        Map.empty outcomes)"

definition ioi_submission_score :: "subtask_def list \<Rightarrow> test_case_row list \<Rightarrow> case_outcome list \<Rightarrow> f64" where
  "ioi_submission_score subtask_defs all_test_cases outcomes =
    round_score (f64_sum (map sr_score
      (score_all_subtasks subtask_defs all_test_cases (outcome_scores all_test_cases outcomes))))"

definition ioi_finalize :: "ioi_policy \<Rightarrow> judge_progress \<Rightarrow> ('z, unit) dbcall" where
  "ioi_finalize p progress =
    (let sub = pr_submission progress in
     hbind (persist_results (js_submission_id sub) (js_judgement_id sub) (js_judge_epoch sub)
              (map ioi_outcome_from_case (pr_outcomes progress))
              (ioi_submission_score (ip_subtask_defs p) (ip_all_test_cases p) (pr_outcomes progress)))
       (\<lambda>_. hret ()))"

definition ioi_judge :: "(ioi_policy, 'z) judge_ops" where
  "ioi_judge = \<lparr>jo_score = ioi_score, jo_db_score = ioi_db_score,
                jo_next_step = ioi_next_step, jo_finalize = ioi_finalize\<rparr>"

section \<open>Starting a session\<close>

type_synonym 'z ioi_service =
  "start_evaluate_batch \<Rightarrow> nat \<Rightarrow> i32 \<Rightarrow> ioi_policy det_eval \<Rightarrow> ('z, unit) dbcall"

definition without_bodies :: "test_case_row \<Rightarrow> test_case_row" where
  "without_bodies tc = tc\<lparr>tc_input := Missing, tc_expected_output := Missing\<rparr>"

definition ioi_policy_new :: "test_case_row list \<Rightarrow> test_case_row list \<Rightarrow> subtask_def list \<Rightarrow> ioi_policy" where
  "ioi_policy_new all_test_cases scoring_test_cases subtask_defs =
    \<lparr>ip_all_test_cases = map without_bodies all_test_cases, ip_subtask_defs = subtask_defs,
     ip_short_circuit = ssc_new subtask_defs scoring_test_cases\<rparr>"

definition evaluate_all_detached ::
    "'z ioi_service \<Rightarrow> (sdk_error \<Rightarrow> rstr) \<Rightarrow> on_submission_input \<Rightarrow> test_case_row list \<Rightarrow> test_case_row list
      \<Rightarrow> subtask_def list \<Rightarrow> ('z, on_submission_output) dbcall" where
  "evaluate_all_detached svc debug req all_test_cases scoring_test_cases subtask_defs =
    hbind (det_start ioi_judge svc debug req scoring_test_cases
             (ioi_policy_new all_test_cases scoring_test_cases subtask_defs) 4) (\<lambda>_. hret ioi_ok)"

definition ioi_empty_update :: "on_submission_input \<Rightarrow> submission_update" where
  "ioi_empty_update req =
    (submission_update_new (os_submission_id req) (os_judgement_id req) (os_judge_epoch req))
      \<lparr>u_status := Some SJudged, u_verdict := Some (Some Accepted), u_score := Some (F64 0),
       u_time_used := Some None, u_memory_used := Some None\<rparr>"

text \<open>The result carries the scores only where nothing was evaluated; its readers use the output alone.\<close>

definition judge_with_context_detached ::
    "'z ioi_service \<Rightarrow> (sdk_error \<Rightarrow> rstr) \<Rightarrow> on_submission_input \<Rightarrow> test_case_row list \<Rightarrow> subtask_def list
      \<Rightarrow> ('z, on_submission_output) dbcall" where
  "judge_with_context_detached svc debug req test_cases subtask_defs =
    (let finish_empty = hbind (submission_update_call (ioi_empty_update req))
           (\<lambda>affected. if affected = 0 then hthrow StaleEpoch else hret ioi_ok)
     in if test_cases = [] then finish_empty
        else let ids = set (compute_scoring_test_case_ids subtask_defs test_cases);
                 scoring_test_cases = filter (\<lambda>tc. tc_id tc \<in> ids) test_cases
             in if scoring_test_cases = []
                then hbind (hignore (delete_results (os_submission_id req) (os_judgement_id req) (os_judge_epoch req)))
                       (\<lambda>_. finish_empty)
                else evaluate_all_detached svc debug req test_cases scoring_test_cases subtask_defs)"

text \<open>
  \<open>run_judge\<close>. The stored subtasks of the task come from the host's configuration, the parameter
  \<open>subtasks_of\<close> of the contest and the problem; reading the contest's own configuration may fail
  like it and is otherwise unused here.
\<close>

definition ioi_run_judge ::
    "'z ioi_service \<Rightarrow> (sdk_error \<Rightarrow> rstr) \<Rightarrow> (i32 \<Rightarrow> i32 \<Rightarrow> ('z, subtask_def list) dbcall)
      \<Rightarrow> on_submission_input \<Rightarrow> i32 \<Rightarrow> ('z, on_submission_output) dbcall" where
  "ioi_run_judge svc debug subtasks_of req contest =
    hbind (subtasks_of contest (os_problem_id req)) (\<lambda>subtasks.
      let test_cases = os_test_cases req;
          subtask_defs = (if subtasks = [] then build_default_subtasks test_cases else subtasks)
      in judge_with_context_detached svc debug req test_cases subtask_defs)"

definition handle_ioi_submission ::
    "'z ioi_service \<Rightarrow> (sdk_error \<Rightarrow> rstr) \<Rightarrow> (i32 \<Rightarrow> i32 \<Rightarrow> ('z, subtask_def list) dbcall)
      \<Rightarrow> on_submission_input \<Rightarrow> 'z db_scheme \<Rightarrow> on_submission_output \<times> 'z db_scheme" where
  "handle_ioi_submission svc debug subtasks_of req d =
    (case os_contest_id req of
       None \<Rightarrow> (\<lparr>out_success = False, out_error_message = Some (lit ''IOI plugin requires contest_id'')\<rparr>, d)
     | Some contest \<Rightarrow>
         (case ioi_run_judge svc debug subtasks_of req contest d of
            (Inr out, d') \<Rightarrow> (out, d')
          | (Inl StaleEpoch, d') \<Rightarrow> (ioi_ok, d')
          | (Inl e, d') \<Rightarrow> (\<lparr>out_success = False, out_error_message = Some (debug e)\<rparr>, d')))"

definition on_ioi_eval_result ::
    "ioi_policy det_eval \<Rightarrow> callback_event \<Rightarrow> 'z db_scheme \<Rightarrow> ioi_policy callback_output \<times> 'z db_scheme" where
  "on_ioi_eval_result st ev d =
    (case handle_callback ioi_judge st ev d of
       (Inr out, d') \<Rightarrow> (out, d')
     | (Inl StaleEpoch, d') \<Rightarrow> (cb_cancel st, d')
     | (Inl _, d') \<Rightarrow> (cb_cancel st, recover ioi_judge st d'))"

end
