(* ===== verification/F64Order.thy ===== *)
theory F64Order
  imports F64Text
begin

text \<open>
  Rounding to binary64 is monotone and leaves alone what binary64 represents. From that, the
  bounds on the results of the arithmetic used for scores.
\<close>

section \<open>The exponent\<close>

lemma bitlen_powi:
  assumes "0 < n"
  shows "(2 :: rat) powi (bitlen n - 1) \<le> of_int n" and "(of_int n :: rat) < 2 powi (bitlen n)"
proof -
  have b: "2 ^ nat (bitlen n - 1) \<le> n" "n < 2 ^ nat (bitlen n)" "0 < bitlen n"
    using bitlen_bounds [OF assms] bitlen_eq_zero_iff [of n] bitlen_nonneg [of n] assms by auto
  have "(of_int (2 ^ nat (bitlen n - 1)) :: rat) \<le> of_int n" using b(1) by (rule of_int_le_iff [THEN iffD2])
  with b(3) show "(2 :: rat) powi (bitlen n - 1) \<le> of_int n" by (simp add: power_int_def)
  have "(of_int n :: rat) < of_int (2 ^ nat (bitlen n))" using b(2) by (rule of_int_less_iff [THEN iffD2])
  with b(3) show "(of_int n :: rat) < 2 powi (bitlen n)" by (simp add: power_int_def)
qed

lemma floor_log2_bounds:
  assumes "0 < x"
  shows "2 powi floor_log2 x \<le> x" and "x < 2 powi (floor_log2 x + 1)"
proof -
  obtain n d where q: "quotient_of x = (n, d)" by force
  have x: "x = of_int n / of_int d" and d: "0 < d" using quotient_of_div [OF q] quotient_of_denom_pos [OF q] by auto
  have n: "0 < n" using assms x d by (simp add: zero_less_divide_iff)
  let ?k = "bitlen n - bitlen d"
  have "2 powi (?k - 1) = (2 powi (bitlen n - 1) :: rat) / 2 powi bitlen d"
    by (simp flip: power_int_diff add: algebra_simps)
  also have "\<dots> \<le> of_int n / of_int d"
    using bitlen_powi [OF n] bitlen_powi [OF d] d n by (intro frac_le) auto
  finally have lo: "2 powi (?k - 1) \<le> x" by (simp add: x)
  have "of_int n / of_int d < (2 powi bitlen n :: rat) / 2 powi (bitlen d - 1)"
    using bitlen_powi [OF n] bitlen_powi [OF d] d n by (intro frac_less) auto
  also have "\<dots> = 2 powi (?k + 1)" by (simp flip: power_int_diff add: algebra_simps)
  finally have hi: "x < 2 powi (?k + 1)" by (simp add: x)
  show "2 powi floor_log2 x \<le> x" "x < 2 powi (floor_log2 x + 1)"
    using lo hi by (auto simp: floor_log2_def q Let_def)
qed

lemma powi2_less_exp: "(2 :: rat) powi a < 2 powi b \<Longrightarrow> a < b"
  using power_int_increasing [of b a "2 :: rat"] by (cases "b \<le> a") auto

lemma powi2_pos [simp]: "0 < (2 :: rat) powi a"
  by simp

lemma floor_log2_mono:
  assumes "0 < x" "x \<le> y"
  shows "floor_log2 x \<le> floor_log2 y"
proof -
  have "(2 :: rat) powi floor_log2 x < 2 powi (floor_log2 y + 1)"
    using floor_log2_bounds(1) [OF assms(1)] floor_log2_bounds(2) [of y] assms by linarith
  from powi2_less_exp [OF this] show ?thesis by simp
qed

section \<open>Rounding to an integer\<close>

lemma round_half_even_bounds: "\<lfloor>x\<rfloor> \<le> round_half_even x" "round_half_even x \<le> \<lfloor>x\<rfloor> + 1"
  by (auto simp: round_half_even_def Let_def)

lemma round_half_even_int [simp]: "round_half_even (of_int n) = n"
  by (simp add: round_half_even_def)

lemma round_half_even_mono:
  assumes "x \<le> y"
  shows "round_half_even x \<le> round_half_even y"
proof (cases "\<lfloor>x\<rfloor> = \<lfloor>y\<rfloor>")
  case True
  with assms show ?thesis by (auto simp: round_half_even_def Let_def)
next
  case False
  then have "\<lfloor>x\<rfloor> + 1 \<le> \<lfloor>y\<rfloor>" using floor_mono [OF assms] by linarith
  with round_half_even_bounds [of x] round_half_even_bounds [of y] show ?thesis by linarith
qed

section \<open>Rounding to binary64\<close>

definition f64_expo :: "rat \<Rightarrow> int" where
  "f64_expo x = max (- 1074) (floor_log2 x - 52)"

definition f64_mag :: "rat \<Rightarrow> rat" where
  "f64_mag x = of_int (round_half_even (x * 2 powi (- f64_expo x))) * 2 powi f64_expo x"

lemma f64_round_pos: "0 < x \<Longrightarrow> f64_round x = (if 2 ^ 1024 \<le> f64_mag x then F64Inf False else F64 (f64_mag x))"
  by (simp add: f64_round_def f64_mag_def f64_expo_def Let_def)

lemma f64_mag_same:
  assumes "x \<le> y" "f64_expo x = f64_expo y"
  shows "f64_mag x \<le> f64_mag y"
proof -
  have "x * 2 powi (- f64_expo x) \<le> y * 2 powi (- f64_expo y)"
    using assms by (simp add: mult_right_mono)
  then have "of_int (round_half_even (x * 2 powi (- f64_expo x))) \<le> (of_int (round_half_even (y * 2 powi (- f64_expo y))) :: rat)"
    by (simp add: round_half_even_mono)
  then show ?thesis unfolding f64_mag_def assms(2) by (rule mult_right_mono) simp
qed

text \<open>A rounded number stays on its side of a multiple of its unit.\<close>

lemma f64_mag_le:
  assumes "x \<le> of_int m * 2 powi f64_expo x"
  shows "f64_mag x \<le> of_int m * 2 powi f64_expo x"
proof -
  have "x * 2 powi (- f64_expo x) \<le> of_int m"
    using assms by (simp add: power_int_minus field_simps)
  then have "round_half_even (x * 2 powi (- f64_expo x)) \<le> m"
    using round_half_even_mono [of _ "of_int m"] by simp
  then have "of_int (round_half_even (x * 2 powi (- f64_expo x))) \<le> (of_int m :: rat)" by simp
  then show ?thesis unfolding f64_mag_def by (rule mult_right_mono) simp
qed

lemma f64_mag_ge:
  assumes "of_int m * 2 powi f64_expo x \<le> x"
  shows "of_int m * 2 powi f64_expo x \<le> f64_mag x"
proof -
  have "of_int m \<le> x * 2 powi (- f64_expo x)"
    using assms by (simp add: power_int_minus field_simps)
  then have "m \<le> round_half_even (x * 2 powi (- f64_expo x))"
    using round_half_even_mono [of "of_int m"] by simp
  then have "(of_int m :: rat) \<le> of_int (round_half_even (x * 2 powi (- f64_expo x)))" by simp
  then show ?thesis unfolding f64_mag_def by (rule mult_right_mono) simp
qed

lemma f64_mag_multiple: "x = of_int m * 2 powi f64_expo x \<Longrightarrow> f64_mag x = x"
  using f64_mag_le [of x m] f64_mag_ge [of m x] by simp

lemma f64_mag_mono:
  assumes "0 < x" "x \<le> y"
  shows "f64_mag x \<le> f64_mag y"
proof (cases "f64_expo x = f64_expo y")
  case False
  have le: "floor_log2 x \<le> floor_log2 y" using floor_log2_mono [OF assms] .
  with False have lt: "f64_expo x < f64_expo y" by (auto simp: f64_expo_def)
  then have ey: "f64_expo y = floor_log2 y - 52" and up: "f64_expo x + 53 \<le> floor_log2 y"
    by (auto simp: f64_expo_def max_def split: if_splits)
  have "x < 2 powi (floor_log2 x + 1)" using floor_log2_bounds(2) [OF assms(1)] .
  also have "\<dots> \<le> 2 powi (f64_expo x + 53)" by (rule power_int_increasing) (auto simp: f64_expo_def)
  also have "\<dots> = of_int (2 ^ 53) * 2 powi f64_expo x" by (simp add: power_int_add mult.commute)
  finally have "f64_mag x \<le> of_int (2 ^ 53) * 2 powi f64_expo x" by (intro f64_mag_le) simp
  also have "\<dots> = 2 powi (f64_expo x + 53)" by (simp add: power_int_add mult.commute)
  also have "\<dots> \<le> 2 powi floor_log2 y" by (rule power_int_increasing) (use up in auto)
  also have "\<dots> = 2 powi (52 + f64_expo y)" by (simp add: ey)
  also have eq: "\<dots> = of_int (2 ^ 52) * 2 powi f64_expo y" by (simp add: power_int_add)
  also have "of_int (2 ^ 52) * 2 powi f64_expo y \<le> f64_mag y"
    by (rule f64_mag_ge) (use floor_log2_bounds(1) [of y] assms ey eq in simp)
  finally show ?thesis .
qed (rule f64_mag_same [OF assms(2)])

lemma f64_mag_nonneg: "0 < x \<Longrightarrow> 0 \<le> f64_mag x"
  using f64_mag_ge [of 0 x] by simp

text \<open>The numbers that binary64 represents.\<close>

definition f64_repr :: "rat \<Rightarrow> bool" where
  "f64_repr x \<longleftrightarrow> f64_round x = F64 x"

lemma f64_repr_0 [simp]: "f64_repr 0" and f64_repr_1 [simp]: "f64_repr 1"
proof -
  have "floor_log2 1 = 0"
    using floor_log2_bounds [of 1] powi2_less_exp [of 0 "floor_log2 1 + 1"] powi2_less_exp [of "floor_log2 1" 1]
    by (auto simp: power_int_def)
  then have "f64_expo 1 = - 52" by (simp add: f64_expo_def)
  then have "f64_mag 1 = 1" by (intro f64_mag_multiple [of 1 "2 ^ 52"]) (simp add: power_int_def power_one_over)
  then show "f64_repr 1" by (simp add: f64_repr_def f64_round_pos)
qed (simp add: f64_repr_def)

text \<open>Rounding a number between 0 and a representable one stays between them.\<close>

lemma f64_round_between:
  assumes "0 \<le> x" "x \<le> y" "f64_repr y"
  obtains r where "f64_round x = F64 r" "0 \<le> r" "r \<le> y"
proof (cases "x = 0")
  case True
  with assms that [of 0] show ?thesis by simp
next
  case False
  then have pos: "0 < x" "0 < y" using assms by auto
  have y: "f64_mag y = y" "y < 2 ^ 1024"
    using assms(3) f64_round_pos [OF pos(2)] by (auto simp: f64_repr_def split: if_splits)
  have "f64_mag x \<le> y" using f64_mag_mono [OF pos(1) assms(2)] y by simp
  with y f64_round_pos [OF pos(1)] f64_mag_nonneg [OF pos(1)] that show ?thesis by auto
qed

text \<open>The numbers with a significand of at most 53 bits.\<close>

lemma f64_repr_scaled:
  assumes "0 < m" "m < 2 ^ 53" "- 1074 \<le> e" "e \<le> 0"
  shows "f64_repr (of_int m * 2 powi e)"
proof -
  let ?x = "of_int m * 2 powi e :: rat"
  have pos: "0 < ?x" using assms(1) by simp
  have m: "(of_int m :: rat) < 2 ^ 53" using assms(2) of_int_less_iff [where ?'a = rat, of m "2 ^ 53"] by simp
  have "2 powi floor_log2 ?x \<le> ?x" by (rule floor_log2_bounds [OF pos])
  also have "\<dots> < 2 ^ 53 * 2 powi e" by (rule mult_strict_right_mono [OF m]) simp
  also have "\<dots> = 2 powi (53 + e)" by (simp add: power_int_add power_int_numeral)
  finally have "floor_log2 ?x < 53 + e" by (rule powi2_less_exp)
  then have le: "f64_expo ?x \<le> e" using assms(3) by (simp add: f64_expo_def)
  define k where "k = nat (e - f64_expo ?x)"
  have "2 powi e = (2 :: rat) powi (int k + f64_expo ?x)" using le by (simp add: k_def)
  also have "\<dots> = 2 ^ k * 2 powi f64_expo ?x" by (simp add: power_int_add)
  finally have "?x = of_int (m * 2 ^ k) * 2 powi f64_expo ?x" by simp
  then have "f64_mag ?x = ?x" by (rule f64_mag_multiple)
  moreover have "?x < 2 ^ 1024"
  proof -
    have "?x \<le> of_int m * 1" using assms(1,4) power_int_increasing [of e 0 "2 :: rat"] by (intro mult_left_mono) simp_all
    also have "\<dots> < 2 ^ 53" using m by simp
    also have "(2 :: rat) ^ 53 \<le> 2 ^ 1024" by (rule power_increasing) simp_all
    finally show ?thesis .
  qed
  ultimately show ?thesis by (simp add: f64_repr_def f64_round_pos [OF pos])
qed

lemma f64_repr_int: "0 < m \<Longrightarrow> m < 2 ^ 53 \<Longrightarrow> f64_repr (of_int m)"
  using f64_repr_scaled [of m 0] by simp

lemma f64_round_numeral: "(numeral k :: int) < 2 ^ 53 \<Longrightarrow> f64_round (numeral k) = F64 (numeral k)"
  using f64_repr_int [of "numeral k"] by (simp add: f64_repr_def)

text \<open>Rounding is monotone on the numbers from 0 on, and its results are representable.\<close>

lemma f64_round_below:
  assumes "0 \<le> x" "x \<le> y" "f64_round y = F64 b"
  obtains a where "f64_round x = F64 a" "0 \<le> a" "a \<le> b"
proof (cases "x = 0")
  case True
  have "0 \<le> b"
  proof (cases "y = 0")
    case False
    with assms True have "0 < y" by simp
    with assms(3) f64_round_pos f64_mag_nonneg show ?thesis by (auto split: if_splits)
  qed (use assms(3) in \<open>simp add: f64_round_def\<close>)
  with True that [of 0] show ?thesis by (simp add: f64_round_def)
next
  case False
  then have pos: "0 < x" "0 < y" using assms by auto
  have y: "f64_mag y = b" "b < 2 ^ 1024"
    using assms(3) f64_round_pos [OF pos(2)] by (auto split: if_splits)
  have "f64_mag x \<le> b" using f64_mag_mono [OF pos(1) assms(2)] y by simp
  with y f64_round_pos [OF pos(1)] f64_mag_nonneg [OF pos(1)] that show ?thesis by auto
qed

end
