(* ===== verification/IoiRules.thy ===== *)
theory IoiRules
  imports IoiJudge F64Order
begin

text \<open>
  What the IOI policy guarantees: cancelling the remaining cases of a subtask that has failed
  changes no score, so the score of a submission does not depend on the order of its results.
\<close>

section \<open>Scores between 0 and 1\<close>

definition unit_f64 :: "f64 \<Rightarrow> bool" where
  "unit_f64 x \<longleftrightarrow> (\<exists>r. x = F64 r \<and> 0 \<le> r \<and> r \<le> 1)"

lemma unit_f64_simps [simp]: "unit_f64 (F64 0)" "unit_f64 (F64 1)"
  by (simp_all add: unit_f64_def)

lemma unit_f64_finite: "unit_f64 x \<Longrightarrow> f64_is_finite x"
  by (auto simp: unit_f64_def)

lemma unit_f64_mul:
  assumes "unit_f64 x" "unit_f64 y"
  shows "unit_f64 (f64_mul x y)"
proof -
  from assms obtain a b where ab: "x = F64 a" "y = F64 b" "0 \<le> a" "a \<le> 1" "0 \<le> b" "b \<le> 1"
    by (auto simp: unit_f64_def)
  from ab have "0 \<le> a * b" "a * b \<le> 1" by (auto simp: mult_le_one)
  with f64_repr_1 obtain r where "f64_round (a * b) = F64 r" "0 \<le> r" "r \<le> 1"
    by (metis f64_round_between)
  with ab show ?thesis by (auto simp: unit_f64_def)
qed

lemma f64_mul_0: "f64_is_finite x \<Longrightarrow> f64_mul (F64 0) x = F64 0" "f64_is_finite x \<Longrightarrow> f64_mul x (F64 0) = F64 0"
  by (cases x; simp)+

lemma unit_foldl_mul: "unit_f64 a \<Longrightarrow> list_all unit_f64 xs \<Longrightarrow> unit_f64 (foldl f64_mul a xs)"
  by (induction xs arbitrary: a) (auto simp: unit_f64_mul)

lemma foldl_mul_0: "list_all unit_f64 xs \<Longrightarrow> foldl f64_mul (F64 0) xs = F64 0"
  by (induction xs) (auto simp: f64_mul_0 unit_f64_finite)

lemma f64_product_0:
  assumes "list_all unit_f64 xs" "F64 0 \<in> set xs"
  shows "f64_product xs = F64 0"
proof -
  from assms(2) obtain us vs where xs: "xs = us @ F64 0 # vs" by (meson split_list)
  have "unit_f64 (foldl f64_mul (F64 1) us)" using assms(1) xs by (intro unit_foldl_mul) auto
  then show ?thesis using assms(1) by (simp add: f64_product_def xs f64_mul_0 unit_f64_finite foldl_mul_0)
qed

lemma unit_normalize: "unit_f64 (normalize_raw_score s)"
  by (cases s) (auto simp: normalize_raw_score_def f64_clamp01_def unit_f64_def f64_lt_def)

lemma unit_le_0: "unit_f64 x \<Longrightarrow> f64_le x (F64 0) \<Longrightarrow> x = F64 0"
  by (auto simp: unit_f64_def)

lemma unit_not_ge_1: "f64_lt x (F64 1) \<Longrightarrow> \<not> f64_le (F64 1) x"
  by (simp add: f64_lt_def)

section \<open>Maps of scores\<close>

lemma foldl_upd: "foldl (\<lambda>m key. m(key \<mapsto> s)) m ks k = (if k \<in> set ks then Some s else m k)"
  by (induction ks arbitrary: m) auto

text \<open>No reference key names two test cases.\<close>

definition keys_unambiguous :: "test_case_row list \<Rightarrow> bool" where
  "keys_unambiguous tcs \<longleftrightarrow> distinct (concat (map test_case_reference_keys tcs))"

lemma id_string_key [simp]: "id_string (tc_id tc) \<in> set (test_case_reference_keys tc)"
  by (simp add: test_case_reference_keys_def Let_def)

lemma label_key [simp]: "resolve_tc_label tc \<in> set (test_case_reference_keys tc)"
  by (simp add: test_case_reference_keys_def Let_def)

lemma keys_unambiguousD:
  assumes "keys_unambiguous tcs" "a \<in> set tcs" "b \<in> set tcs"
    and "k \<in> set (test_case_reference_keys a)" "k \<in> set (test_case_reference_keys b)"
  shows "a = b"
  using assms
proof (induction tcs)
  case (Cons t tcs)
  then show ?case by (auto simp: keys_unambiguous_def)
qed simp

lemma keys_unambiguous_ids: "keys_unambiguous tcs \<Longrightarrow> distinct (map tc_id tcs)"
proof (induction tcs)
  case (Cons t tcs)
  have "tc_id t \<noteq> tc_id u" if "u \<in> set tcs" for u
  proof
    assume "tc_id t = tc_id u"
    then have "id_string (tc_id u) \<in> set (test_case_reference_keys t)" by (metis id_string_key)
    moreover have "set (test_case_reference_keys t) \<inter> set (test_case_reference_keys u) = {}"
      using Cons.prems that by (auto simp: keys_unambiguous_def)
    ultimately show False using id_string_key [of u] by blast
  qed
  with Cons show ?case by (auto simp: keys_unambiguous_def)
qed simp

text \<open>What an outcome says under a key.\<close>

definition outcome_at :: "test_case_row list \<Rightarrow> case_outcome \<Rightarrow> rstr \<Rightarrow> bool" where
  "outcome_at tcs oc k \<longleftrightarrow> \<not> is_skipped_or_cancelled (co_verdict oc)
    \<and> (\<exists>tc \<in> set tcs. tc_id tc = co_test_case_id oc \<and> k \<in> set (test_case_reference_keys tc))"

lemma outcome_at_same:
  "keys_unambiguous tcs \<Longrightarrow> outcome_at tcs a k \<Longrightarrow> outcome_at tcs b k \<Longrightarrow> co_test_case_id a = co_test_case_id b"
  unfolding outcome_at_def by (metis keys_unambiguousD)

lemma outcome_scores_snoc:
  assumes "keys_unambiguous tcs"
  shows "outcome_scores tcs (ocs @ [oc]) k =
    (if outcome_at tcs oc k then Some (co_score oc) else outcome_scores tcs ocs k)"
proof -
  let ?m = "map_of (rev (map (\<lambda>tc. (tc_id tc, test_case_reference_keys tc)) tcs))"
  have dist: "distinct (map fst (rev (map (\<lambda>tc. (tc_id tc, test_case_reference_keys tc)) tcs)))"
    using keys_unambiguous_ids [OF assms] by (simp add: comp_def flip: rev_map)
  have m: "?m i = Some ks \<longleftrightarrow> (\<exists>tc \<in> set tcs. tc_id tc = i \<and> test_case_reference_keys tc = ks)" for i ks
    using dist by (auto simp: map_of_eq_Some_iff simp del: distinct_rev)
  have keys: "k \<in> set (case ?m i of Some keys \<Rightarrow> keys | None \<Rightarrow> []) \<longleftrightarrow> (\<exists>ks. ?m i = Some ks \<and> k \<in> set ks)" for i
    by (cases "?m i") simp_all
  have "k \<in> set (case ?m i of Some keys \<Rightarrow> keys | None \<Rightarrow> []) \<longleftrightarrow>
      (\<exists>tc \<in> set tcs. tc_id tc = i \<and> k \<in> set (test_case_reference_keys tc))" for i
    unfolding keys m by blast
  then show ?thesis by (simp add: outcome_scores_def Let_def foldl_upd outcome_at_def) blast
qed

lemma outcome_scores_char:
  assumes "keys_unambiguous tcs" "distinct (map co_test_case_id ocs)"
  shows "outcome_scores tcs ocs k = Some s \<longleftrightarrow> (\<exists>oc \<in> set ocs. outcome_at tcs oc k \<and> co_score oc = s)"
  using assms(2)
proof (induction ocs rule: rev_induct)
  case Nil
  show ?case by (simp add: outcome_scores_def)
next
  case (snoc oc ocs)
  have "\<not> outcome_at tcs oc' k" if "outcome_at tcs oc k" "oc' \<in> set ocs" for oc'
  proof
    assume "outcome_at tcs oc' k"
    with that(1) outcome_at_same [OF assms(1)] have "co_test_case_id oc = co_test_case_id oc'" by blast
    with snoc.prems that show False by auto
  qed
  with snoc show ?case by (auto simp: outcome_scores_snoc [OF assms(1)])
qed

text \<open>A map in which a case is reachable under all its keys as soon as it is under its label.\<close>

lemma scores_by_all_keys_id:
  assumes "\<And>tc k. tc \<in> set tcs \<Longrightarrow> m (resolve_tc_label tc) \<noteq> None \<Longrightarrow> k \<in> set (test_case_reference_keys tc) \<Longrightarrow> m k \<noteq> None"
  shows "scores_by_all_keys tcs m = m"
proof -
  have inner: "foldl (\<lambda>out key. if out key = None then out(key \<mapsto> s) else out) m ks = m"
    if "\<And>k. k \<in> set ks \<Longrightarrow> m k \<noteq> None" for ks s
    using that
  proof (induction ks)
    case (Cons a ks)
    then have "m a \<noteq> None" by simp
    then have "foldl (\<lambda>out key. if out key = None then out(key \<mapsto> s) else out) m (a # ks) =
        foldl (\<lambda>out key. if out key = None then out(key \<mapsto> s) else out) m ks" by auto
    with Cons show ?case by simp
  qed simp
  have "foldl (\<lambda>out tc. case m (resolve_tc_label tc) of None \<Rightarrow> out
      | Some s \<Rightarrow> foldl (\<lambda>out key. if out key = None then out(key \<mapsto> s) else out) out (test_case_reference_keys tc)) m us = m"
    if "set us \<subseteq> set tcs" for us
    using that
  proof (induction us)
    case (Cons u us)
    then show ?case using assms [of u] inner [of "test_case_reference_keys u"] by (auto split: option.splits)
  qed simp
  then show ?thesis by (simp add: scores_by_all_keys_def)
qed

lemma outcome_scores_all_keys:
  assumes "keys_unambiguous tcs" "distinct (map co_test_case_id ocs)"
  shows "scores_by_all_keys tcs (outcome_scores tcs ocs) = outcome_scores tcs ocs"
proof (rule scores_by_all_keys_id)
  fix tc k
  assume tc: "tc \<in> set tcs" and l: "outcome_scores tcs ocs (resolve_tc_label tc) \<noteq> None"
    and k: "k \<in> set (test_case_reference_keys tc)"
  from l obtain oc where oc: "oc \<in> set ocs" "outcome_at tcs oc (resolve_tc_label tc)"
    using outcome_scores_char [OF assms] by auto
  then have "co_test_case_id oc = tc_id tc"
    unfolding outcome_at_def using keys_unambiguousD [OF assms(1) _ tc _ label_key] by metis
  with oc k tc have "outcome_at tcs oc k" by (auto simp: outcome_at_def)
  with oc outcome_scores_char [OF assms] show "outcome_scores tcs ocs k \<noteq> None" by blast
qed

lemma unit_scores:
  assumes "keys_unambiguous tcs" "distinct (map co_test_case_id ocs)" "\<forall>oc \<in> set ocs. unit_f64 (co_score oc)"
  shows "unit_f64 (score_or_zero (outcome_scores tcs ocs) k)"
  using outcome_scores_char [OF assms(1,2), of k] assms(3) by (auto simp: score_or_zero_def split: option.splits)

section \<open>The tracker at the start\<close>

text \<open>The table of the cases of each subtask and the table of the subtasks of each case agree.\<close>

definition listed :: "(i32 \<rightharpoonup> nat list) \<Rightarrow> i32 \<Rightarrow> nat list" where
  "listed m i = (case m i of None \<Rightarrow> [] | Some l \<Rightarrow> l)"

definition tables_agree :: "i32 set list \<times> (i32 \<rightharpoonup> nat list) \<Rightarrow> bool" where
  "tables_agree t \<longleftrightarrow> (\<forall>i. snd t i \<noteq> Some []) \<and>
    (\<forall>i k. k \<in> set (listed (snd t) i) \<longleftrightarrow> k < length (fst t) \<and> i \<in> fst t ! k)"

lemma listed_upd [simp]: "listed (m(i \<mapsto> l)) j = (if j = i then l else listed m j)"
  by (simp add: listed_def)

lemma join_subtask_tables:
  assumes "tables_agree t" "idx < length (fst t)"
  shows "tables_agree (join_subtask idx t i)"
    and "fst (join_subtask idx t i) = (fst t)[idx := insert i (fst t ! idx)]"
proof -
  obtain cs sub where t: "t = (cs, sub)" by force
  show "fst (join_subtask idx t i) = (fst t)[idx := insert i (fst t ! idx)]"
    by (auto simp: join_subtask_def t insert_absorb)
  show "tables_agree (join_subtask idx t i)"
  proof (cases "i \<in> cs ! idx")
    case True
    with assms t show ?thesis by (simp add: join_subtask_def)
  next
    case False
    then have "join_subtask idx t i = (cs[idx := insert i (cs ! idx)], sub(i \<mapsto> listed sub i @ [idx]))"
      by (simp add: join_subtask_def t listed_def)
    with assms t False show ?thesis by (auto simp: tables_agree_def nth_list_update)
  qed
qed

lemma foldl_join_tables:
  assumes "tables_agree t" "idx < length (fst t)"
  shows "tables_agree (foldl (join_subtask idx) t is)
    \<and> fst (foldl (join_subtask idx) t is) = (fst t)[idx := fst t ! idx \<union> set is]"
  using assms
proof (induction "is" arbitrary: t)
  case (Cons i "is")
  from join_subtask_tables [OF Cons.prems] Cons.IH [of "join_subtask idx t i"] Cons.prems(2)
  show ?case by simp
qed (simp add: Un_absorb2)

definition subtask_ids :: "test_case_row list \<Rightarrow> subtask_def \<Rightarrow> i32 set" where
  "subtask_ids tcs def = set (concat (map (key_to_ids tcs) (sd_test_cases def)))"

lemma foldl_defs_tables:
  fixes tcs :: "test_case_row list"
  defines "step \<equiv> \<lambda>acc (idx, def). foldl (join_subtask idx) acc (concat (map (key_to_ids tcs) (sd_test_cases def)))"
  assumes "tables_agree t" "length (fst t) = n + length defs" "\<forall>k. n \<le> k \<and> k < length (fst t) \<longrightarrow> fst t ! k = {}"
  shows "tables_agree (foldl step t (List.enumerate n defs))
    \<and> length (fst (foldl step t (List.enumerate n defs))) = n + length defs
    \<and> (\<forall>k < n + length defs. fst (foldl step t (List.enumerate n defs)) ! k =
         (if k < n then fst t ! k else subtask_ids tcs (defs ! (k - n))))"
  using assms(2-)
proof (induction defs arbitrary: n t)
  case Nil
  then show ?case by simp
next
  case (Cons def defs)
  let ?t = "foldl (join_subtask n) t (concat (map (key_to_ids tcs) (sd_test_cases def)))"
  have n: "n < length (fst t)" using Cons.prems by simp
  from foldl_join_tables [OF Cons.prems(1) n]
  have t1: "tables_agree ?t" "fst ?t = (fst t)[n := subtask_ids tcs def]"
    using Cons.prems(3) n by (simp_all add: subtask_ids_def)
  have step: "foldl step t (List.enumerate n (def # defs)) = foldl step ?t (List.enumerate (Suc n) defs)"
    by (simp add: step_def)
  have "tables_agree (foldl step ?t (List.enumerate (Suc n) defs))
    \<and> length (fst (foldl step ?t (List.enumerate (Suc n) defs))) = Suc n + length defs
    \<and> (\<forall>k < Suc n + length defs. fst (foldl step ?t (List.enumerate (Suc n) defs)) ! k =
         (if k < Suc n then fst ?t ! k else subtask_ids tcs (defs ! (k - Suc n))))"
    by (rule Cons.IH) (use t1 Cons.prems in auto)
  then show ?case unfolding step using t1 n by (auto simp: nth_list_update nth_Cons' less_Suc_eq)
qed

lemma ssc_new_tables:
  "tables_agree (ssc_subtask_cases (ssc_new defs tcs), ssc_case_subtasks (ssc_new defs tcs))"
  "length (ssc_subtask_cases (ssc_new defs tcs)) = length defs"
  "k < length defs \<Longrightarrow> ssc_subtask_cases (ssc_new defs tcs) ! k = subtask_ids tcs (defs ! k)"
  "ssc_methods (ssc_new defs tcs) = map sd_scoring_method defs"
  "ssc_test_case_order (ssc_new defs tcs) = map tc_id tcs"
  "ssc_failed_subtasks (ssc_new defs tcs) = {}"
proof -
  let ?t = "foldl (\<lambda>acc (idx, def). foldl (join_subtask idx) acc (concat (map (key_to_ids tcs) (sd_test_cases def))))
      (replicate (length defs) {}, Map.empty) (List.enumerate 0 defs)"
  have start: "tables_agree (replicate (length defs) {}, Map.empty)" by (auto simp: tables_agree_def listed_def)
  have t: "ssc_subtask_cases (ssc_new defs tcs) = fst ?t" "ssc_case_subtasks (ssc_new defs tcs) = snd ?t"
    "ssc_methods (ssc_new defs tcs) = map sd_scoring_method defs"
    "ssc_test_case_order (ssc_new defs tcs) = map tc_id tcs" "ssc_failed_subtasks (ssc_new defs tcs) = {}"
    by (simp_all add: ssc_new_def case_prod_beta)
  have "tables_agree ?t" "length (fst ?t) = length defs" "\<forall>k < length defs. fst ?t ! k = subtask_ids tcs (defs ! k)"
    using foldl_defs_tables [OF start, of 0 defs tcs] by simp_all
  then show "tables_agree (ssc_subtask_cases (ssc_new defs tcs), ssc_case_subtasks (ssc_new defs tcs))"
    "length (ssc_subtask_cases (ssc_new defs tcs)) = length defs"
    "k < length defs \<Longrightarrow> ssc_subtask_cases (ssc_new defs tcs) ! k = subtask_ids tcs (defs ! k)"
    "ssc_methods (ssc_new defs tcs) = map sd_scoring_method defs"
    "ssc_test_case_order (ssc_new defs tcs) = map tc_id tcs" "ssc_failed_subtasks (ssc_new defs tcs) = {}"
    unfolding t by simp_all
qed

lemma ssc_new_member:
  "k \<in> set (listed (ssc_case_subtasks (ssc_new defs tcs)) i) \<longleftrightarrow> k < length defs \<and> i \<in> subtask_ids tcs (defs ! k)"
proof -
  have "k \<in> set (listed (ssc_case_subtasks (ssc_new defs tcs)) i) \<longleftrightarrow>
      k < length (ssc_subtask_cases (ssc_new defs tcs)) \<and> i \<in> ssc_subtask_cases (ssc_new defs tcs) ! k"
    using ssc_new_tables(1) [of defs tcs] unfolding tables_agree_def by simp
  then show ?thesis using ssc_new_tables(2) [of defs tcs] ssc_new_tables(3) [of k defs tcs] by auto
qed

lemma case_is_only_needed_listed:
  "case_is_only_needed_by_failed s i failed \<longleftrightarrow> ssc_case_subtasks s i \<noteq> None \<and>
    (\<forall>k \<in> set (listed (ssc_case_subtasks s) i). method_can_short_circuit s k \<and> k \<in> failed)"
  by (auto simp: case_is_only_needed_by_failed_def listed_def list_all_iff split: option.splits)

lemma failing_listed:
  "failing_subtasks_for s i raw = {k \<in> set (listed (ssc_case_subtasks s) i). result_fails_method s k raw}"
  by (auto simp: failing_subtasks_for_def listed_def split: option.splits)

section \<open>The policy as an instance of the driver's interface\<close>

lemma ioi_terminal_update_ids [simp]:
  "u_submission_id (ioi_terminal_update sid jid ep ocs sc) = sid"
  "u_judgement_id (ioi_terminal_update sid jid ep ocs sc) = jid"
  "u_judge_epoch (ioi_terminal_update sid jid ep ocs sc) = ep"
  "is_terminal_marker (ioi_terminal_update sid jid ep ocs sc)"
  by (simp_all add: ioi_terminal_update_def Let_def is_terminal_marker_def)

definition ioi_policy_ok :: "ioi_policy \<Rightarrow> bool" where
  "ioi_policy_ok p \<longleftrightarrow> distinct (ssc_test_case_order (ip_short_circuit p))"

text \<open>What one step of the policy does to its tables, and what it cancels.\<close>

lemma cancellable_after_spec:
  assumes "cancellable_after i raw rec s = (ids, s')"
  shows "ssc_methods s' = ssc_methods s" "ssc_case_subtasks s' = ssc_case_subtasks s"
    "ssc_test_case_order s' = ssc_test_case_order s"
    "ssc_failed_subtasks s' = ssc_failed_subtasks s \<union> failing_subtasks_for s i raw"
    "\<exists>P. ids = filter P (ssc_test_case_order s)" "set ids \<inter> rec = {}"
    "\<forall>j \<in> set ids. case_is_only_needed_by_failed s j (ssc_failed_subtasks s')"
proof -
  have cong: "failing_subtasks_for (s\<lparr>ssc_active_cases := a\<rparr>) i raw = failing_subtasks_for s i raw"
    "case_is_only_needed_by_failed (s\<lparr>ssc_active_cases := a, ssc_failed_subtasks := f\<rparr>) j g = case_is_only_needed_by_failed s j g"
    for a f g j
    by (simp_all add: failing_subtasks_for_def result_fails_method_def case_is_only_needed_by_failed_def
        method_can_short_circuit_def cong: option.case_cong)
  have filt: "\<exists>P. filter (\<lambda>j. j \<notin> rec) (cancellable_cases_for_failure t i f) = filter P (ssc_test_case_order t)" for t f
  proof (cases "ssc_case_subtasks t i")
    case None
    then show ?thesis by (intro exI [of _ "\<lambda>_. False"]) (simp add: cancellable_cases_for_failure_def)
  next
    case (Some l)
    then show ?thesis by (simp add: cancellable_cases_for_failure_def Let_def) blast
  qed
  show "ssc_methods s' = ssc_methods s" "ssc_case_subtasks s' = ssc_case_subtasks s"
    "ssc_test_case_order s' = ssc_test_case_order s"
    "ssc_failed_subtasks s' = ssc_failed_subtasks s \<union> failing_subtasks_for s i raw" "set ids \<inter> rec = {}"
    using assms by (auto simp: cancellable_after_def Let_def cong split: if_splits)
  show "\<exists>P. ids = filter P (ssc_test_case_order s)"
  proof (cases "ids = []")
    case True
    then show ?thesis by (intro exI [of _ "\<lambda>_. False"]) simp
  next
    case False
    then have "ids = filter (\<lambda>j. j \<notin> rec) (cancellable_cases_for_failure s' i (ssc_failed_subtasks s'))"
      "ssc_test_case_order s' = ssc_test_case_order s"
      using assms by (auto simp: cancellable_after_def Let_def split: if_splits)
    with filt [of s'] show ?thesis by metis
  qed
  show "\<forall>j \<in> set ids. case_is_only_needed_by_failed s j (ssc_failed_subtasks s')"
    using assms
    by (auto simp: cancellable_after_def Let_def cong cancellable_cases_for_failure_def split: if_splits option.splits)
qed

lemma ioi_next_step_spec:
  assumes "ioi_next_step p pr = (step, p')" and "pr_last pr = Some l"
  defines "s \<equiv> ip_short_circuit p" and "s' \<equiv> ip_short_circuit p'"
  shows "ip_all_test_cases p' = ip_all_test_cases p" "ip_subtask_defs p' = ip_subtask_defs p"
    "ssc_methods s' = ssc_methods s" "ssc_case_subtasks s' = ssc_case_subtasks s"
    "ssc_test_case_order s' = ssc_test_case_order s"
    "ssc_failed_subtasks s' = ssc_failed_subtasks s \<union> failing_subtasks_for s (co_test_case_id l) (co_score l)"
    "step = Continue \<or> (\<exists>ids. step = Cancel ids \<and> (\<exists>P. ids = filter P (ssc_test_case_order s))
       \<and> set ids \<inter> set (map co_test_case_id (pr_outcomes pr)) = {}
       \<and> (\<forall>j \<in> set ids. case_is_only_needed_by_failed s j (ssc_failed_subtasks s')))"
proof -
  obtain ids sc where ca: "cancellable_after (co_test_case_id l) (co_score l)
      (set (map co_test_case_id (pr_outcomes pr))) (ip_short_circuit p) = (ids, sc)" by force
  note spec = cancellable_after_spec [OF ca, folded s_def]
  have res: "(step, p') = (if ids = [] then (Continue, p\<lparr>ip_short_circuit := sc\<rparr>)
      else (Cancel ids, p\<lparr>ip_short_circuit := mark_cancelled ids sc\<rparr>))"
    using assms(1,2) ca by (simp add: ioi_next_step_def Let_def split: if_splits)
  show "ip_all_test_cases p' = ip_all_test_cases p" "ip_subtask_defs p' = ip_subtask_defs p"
    "ssc_methods s' = ssc_methods s" "ssc_case_subtasks s' = ssc_case_subtasks s"
    "ssc_test_case_order s' = ssc_test_case_order s"
    "ssc_failed_subtasks s' = ssc_failed_subtasks s \<union> failing_subtasks_for s (co_test_case_id l) (co_score l)"
    using res spec by (auto simp: s'_def mark_cancelled_def split: if_splits)
  show "step = Continue \<or> (\<exists>ids. step = Cancel ids \<and> (\<exists>P. ids = filter P (ssc_test_case_order s))
       \<and> set ids \<inter> set (map co_test_case_id (pr_outcomes pr)) = {}
       \<and> (\<forall>j \<in> set ids. case_is_only_needed_by_failed s j (ssc_failed_subtasks s')))"
  proof (cases "ids = []")
    case False
    with res spec(5-7) show ?thesis by (simp add: s'_def mark_cancelled_def)
  qed (use res in simp)
qed

interpretation ioi: contest_judge_total "ioi_judge :: (ioi_policy, 'z) judge_ops" ioi_policy_ok
proof
  fix p v
  show "co_test_case_id (jo_score ioi_judge p v) = tv_test_case_id v"
    by (simp add: ioi_judge_def ioi_score_def outcome_from_verdict_def)
  show "f64_is_finite (co_score (jo_score ioi_judge p v))"
    using unit_f64_finite [OF unit_normalize] by (simp add: ioi_judge_def ioi_score_def outcome_from_verdict_def)
next
  fix p pr ids p'
  assume ok: "ioi_policy_ok p" and rec: "pr_recorded_ids pr = set (map co_test_case_id (pr_outcomes pr))"
    and step: "jo_next_step ioi_judge p pr = (Cancel ids, p')"
  then obtain l where l: "pr_last pr = Some l"
    by (cases "pr_last pr") (auto simp: ioi_judge_def ioi_next_step_def)
  have ns: "ioi_next_step p pr = (Cancel ids, p')" using step by (simp add: ioi_judge_def)
  from ioi_next_step_spec(7) [OF ns l] ok rec show "distinct ids \<and> set ids \<inter> pr_recorded_ids pr = {}"
    by (auto simp: ioi_policy_ok_def)
next
  fix p pr
  assume "ioi_policy_ok p"
  show "ioi_policy_ok (snd (jo_next_step ioi_judge p pr))"
  proof (cases "pr_last pr")
    case None
    with \<open>ioi_policy_ok p\<close> show ?thesis by (simp add: ioi_judge_def ioi_next_step_def)
  next
    case (Some l)
    obtain step p' where "ioi_next_step p pr = (step, p')" by force
    from ioi_next_step_spec(5) [OF this Some] \<open>ioi_policy_ok p\<close> this show ?thesis
      by (simp add: ioi_judge_def ioi_policy_ok_def)
  qed
next
  fix p pr
  show "fst (jo_next_step ioi_judge p pr) \<noteq> Finish None"
    by (auto simp: ioi_judge_def ioi_next_step_def Let_def split: option.splits prod.splits)
next
  fix p :: ioi_policy and pr :: judge_progress and d d' :: "'z db_scheme" and r
  assume fin: "jo_finalize ioi_judge p pr d = (r, d')"
  let ?s = "pr_submission pr"
  let ?u = "ioi_terminal_update (js_submission_id ?s) (js_judgement_id ?s) (js_judge_epoch ?s)
    (map ioi_outcome_from_case (pr_outcomes pr))
    (ioi_submission_score (ip_subtask_defs p) (ip_all_test_cases p) (pr_outcomes pr))"
  obtain r1 d1 where run: "submission_update_call ?u d = (r1, d1)" by force
  with fin have "d' = d1"
    by (auto simp: ioi_judge_def ioi_finalize_def persist_results_def Let_def hbind_def hret_def
        hthrow_def split: sum.splits if_splits)
  with submission_update_call_frozen [OF run] show "db_results d' = db_results d" by simp
next
  fix d :: "'z db_scheme" and p :: ioi_policy and pr :: judge_progress
  assume "db_faults d = []" and "judgement_live (db_judgements d) (pr_submission pr)"
  then obtain n d' where "submission_update_call (ioi_terminal_update (js_submission_id (pr_submission pr))
      (js_judgement_id (pr_submission pr)) (js_judge_epoch (pr_submission pr))
      (map ioi_outcome_from_case (pr_outcomes pr))
      (ioi_submission_score (ip_subtask_defs p) (ip_all_test_cases p) (pr_outcomes pr))) d = (Inr n, d')"
    "0 < n" "sealed d' (pr_submission pr)"
    using terminal_update_total [of d "pr_submission pr"] by (metis ioi_terminal_update_ids)
  then show "\<exists>d'. jo_finalize ioi_judge p pr d = (Inr (), d') \<and> sealed d' (pr_submission pr)"
    by (simp add: ioi_judge_def ioi_finalize_def persist_results_def Let_def hbind_def hret_def)
qed

section \<open>Cancelling changes no score\<close>

text \<open>
  Two sets of outcomes of the same cases, one of them with cases left out: a case may be left out
  only if each subtask it belongs to is all-or-nothing and has failed on a case that both have.
\<close>

definition safely_dropped :: "subtask_def list \<Rightarrow> test_case_row list \<Rightarrow> case_outcome list \<Rightarrow> i32 \<Rightarrow> bool" where
  "safely_dropped defs tcs ocs i \<longleftrightarrow>
    (\<forall>k < length defs. i \<in> subtask_ids tcs (defs ! k) \<longrightarrow>
      sd_scoring_method (defs ! k) \<noteq> SumMethod \<and>
      (\<exists>oc \<in> set ocs. \<not> is_skipped_or_cancelled (co_verdict oc) \<and> co_test_case_id oc \<in> subtask_ids tcs (defs ! k)
        \<and> result_fails_method (ssc_new defs tcs) k (co_score oc)))"

lemma subtask_ids_key:
  "i \<in> subtask_ids tcs def \<longleftrightarrow>
    (\<exists>k \<in> set (sd_test_cases def). \<exists>tc \<in> set tcs. tc_id tc = i \<and> k \<in> set (test_case_reference_keys tc))"
  by (auto simp: subtask_ids_def key_to_ids_def)

lemma score_subtask_raw_cong:
  assumes "\<And>k. k \<in> set (sd_test_cases def) \<Longrightarrow> score_or_zero m k = score_or_zero m' k"
  shows "score_subtask_raw def w m = score_subtask_raw def w m'"
proof -
  have "foldl (weigh w m) acc ks = foldl (weigh w m') acc ks" if "set ks \<subseteq> set (sd_test_cases def)" for acc ks
    using that assms by (induction ks arbitrary: acc) (auto simp: weigh_def Let_def)
  moreover have "list_all (\<lambda>k. f64_le (F64 1) (score_or_zero m k)) (sd_test_cases def) =
      list_all (\<lambda>k. f64_le (F64 1) (score_or_zero m' k)) (sd_test_cases def)"
    using assms by (auto simp: list_all_iff)
  moreover have "map (score_or_zero m) (sd_test_cases def) = map (score_or_zero m') (sd_test_cases def)"
    using assms by simp
  ultimately show ?thesis by (cases "sd_scoring_method def") (simp_all add: score_subtask_raw_def cong: map_cong)
qed

text \<open>An all-or-nothing subtask that has failed.\<close>

definition subtask_void :: "subtask_def \<Rightarrow> f64" where
  "subtask_void def = (if sd_scoring_method def = GroupMul then f64_mul (sd_max_score def) (F64 0) else F64 0)"

lemma score_subtask_raw_failed:
  assumes "k < length defs" and fails: "result_fails_method (ssc_new defs tcs) k (score_or_zero m key)"
    and key: "key \<in> set (sd_test_cases (defs ! k))" and unit: "\<And>k. unit_f64 (score_or_zero m k)"
  shows "score_subtask_raw (defs ! k) w m = subtask_void (defs ! k)"
proof (cases "sd_scoring_method (defs ! k)")
  case GroupMin
  with assms(1,2) have "\<not> f64_le (F64 1) (score_or_zero m key)"
    by (intro unit_not_ge_1) (simp add: result_fails_method_def ssc_new_tables)
  with key GroupMin show ?thesis by (auto simp: score_subtask_raw_def subtask_void_def list_all_iff)
next
  case SumMethod
  with assms(1,2) show ?thesis by (simp add: result_fails_method_def ssc_new_tables)
next
  case GroupMul
  with assms(1,2) have "score_or_zero m key = F64 0"
    by (intro unit_le_0 [OF unit]) (simp add: result_fails_method_def ssc_new_tables)
  with key have "F64 0 \<in> set (map (score_or_zero m) (sd_test_cases (defs ! k)))" by (metis imageI set_map)
  with unit have "f64_product (map (score_or_zero m) (sd_test_cases (defs ! k))) = F64 0"
    by (intro f64_product_0) (simp_all add: list_all_iff)
  moreover have "sd_test_cases (defs ! k) \<noteq> []" using key by auto
  ultimately show ?thesis using GroupMul by (simp add: score_subtask_raw_def subtask_void_def)
qed

lemma dropping_keeps_scores:
  assumes keys: "keys_unambiguous A" and S: "set S \<subseteq> set A"
    and dist: "distinct (map co_test_case_id few)" "distinct (map co_test_case_id all)"
    and unit: "\<forall>oc \<in> set few \<union> set all. unit_f64 (co_score oc)"
    and real: "\<And>oc. oc \<in> set few \<Longrightarrow> \<not> is_skipped_or_cancelled (co_verdict oc) \<Longrightarrow>
      \<exists>oc' \<in> set all. \<not> is_skipped_or_cancelled (co_verdict oc') \<and> co_test_case_id oc' = co_test_case_id oc \<and> co_score oc' = co_score oc"
    and rest: "\<And>oc. oc \<in> set all \<Longrightarrow> \<not> is_skipped_or_cancelled (co_verdict oc) \<Longrightarrow> co_test_case_id oc \<in> tc_id ` set S \<and>
      ((\<exists>oc' \<in> set few. \<not> is_skipped_or_cancelled (co_verdict oc') \<and> co_test_case_id oc' = co_test_case_id oc)
       \<or> safely_dropped defs S few (co_test_case_id oc))"
  shows "ioi_submission_score defs A few = ioi_submission_score defs A all"
proof -
  let ?f = "outcome_scores A few" and ?a = "outcome_scores A all" and ?w = "test_case_weights A"
  note char = outcome_scores_char [OF keys dist(1)] outcome_scores_char [OF keys dist(2)]
  have sub: "?f k = Some s \<Longrightarrow> ?a k = Some s" for k s
    unfolding char outcome_at_def using real by metis
  have unit: "unit_f64 (score_or_zero ?f k)" "unit_f64 (score_or_zero ?a k)" for k
    using unit_scores [OF keys dist(1)] unit_scores [OF keys dist(2)] unit by auto
  have raw: "score_subtask_raw (defs ! k) ?w ?f = score_subtask_raw (defs ! k) ?w ?a" if k: "k < length defs" for k
  proof (cases "\<forall>key \<in> set (sd_test_cases (defs ! k)). score_or_zero ?f key = score_or_zero ?a key")
    case True
    then show ?thesis by (intro score_subtask_raw_cong) blast
  next
    case False
    then obtain key where key: "key \<in> set (sd_test_cases (defs ! k))" "score_or_zero ?f key \<noteq> score_or_zero ?a key"
      by blast
    then have none: "?f key = None" and "\<exists>s. ?a key = Some s"
      using sub by (auto simp: score_or_zero_def split: option.splits)
    then obtain oc where oc: "oc \<in> set all" "outcome_at A oc key" unfolding char by blast
    then obtain tc where tc: "tc \<in> set A" "tc_id tc = co_test_case_id oc" "key \<in> set (test_case_reference_keys tc)"
      and real_oc: "\<not> is_skipped_or_cancelled (co_verdict oc)"
      by (auto simp: outcome_at_def)
    from rest [OF oc(1) real_oc] have inS: "co_test_case_id oc \<in> tc_id ` set S" by blast
    have "tc \<in> set S"
    proof -
      from inS obtain tc' where "tc' \<in> set S" "tc_id tc' = tc_id tc" using tc by auto
      moreover from this S have "tc' = tc"
        using keys_unambiguousD [OF keys _ tc(1), of tc' "id_string (tc_id tc)"] id_string_key [of tc] id_string_key [of tc']
        by (metis subsetD)
      ultimately show ?thesis by simp
    qed
    then have mem: "co_test_case_id oc \<in> subtask_ids S (defs ! k)"
      using key(1) tc by (auto simp: subtask_ids_key)
    have "\<not> (\<exists>oc' \<in> set few. \<not> is_skipped_or_cancelled (co_verdict oc') \<and> co_test_case_id oc' = co_test_case_id oc)"
    proof
      assume "\<exists>oc' \<in> set few. \<not> is_skipped_or_cancelled (co_verdict oc') \<and> co_test_case_id oc' = co_test_case_id oc"
      then obtain oc' where "oc' \<in> set few" "outcome_at A oc' key" using tc unfolding outcome_at_def by metis
      with none char(1) [of key] show False by auto
    qed
    with rest [OF oc(1) real_oc] have "safely_dropped defs S few (co_test_case_id oc)" by blast
    with k mem obtain oc' where oc': "oc' \<in> set few" "\<not> is_skipped_or_cancelled (co_verdict oc')"
        "co_test_case_id oc' \<in> subtask_ids S (defs ! k)" and fails: "result_fails_method (ssc_new defs S) k (co_score oc')"
      unfolding safely_dropped_def by blast
    from oc'(3) obtain key' tc' where key': "key' \<in> set (sd_test_cases (defs ! k))" "tc' \<in> set S"
        "tc_id tc' = co_test_case_id oc'" "key' \<in> set (test_case_reference_keys tc')"
      by (auto simp: subtask_ids_key)
    then have "?f key' = Some (co_score oc')" unfolding char outcome_at_def using oc' S by blast
    with sub have at: "score_or_zero ?f key' = co_score oc'" "score_or_zero ?a key' = co_score oc'"
      by (simp_all add: score_or_zero_def)
    show ?thesis
      using score_subtask_raw_failed [OF k _ key'(1) unit(1), of S] score_subtask_raw_failed [OF k _ key'(1) unit(2), of S]
        fails at by simp
  qed
  have "map (\<lambda>def. score_subtask_with_weights def ?w ?f) defs = map (\<lambda>def. score_subtask_with_weights def ?w ?a) defs"
    by (rule nth_equalityI) (simp_all add: score_subtask_with_weights_def raw)
  then show ?thesis
    unfolding ioi_submission_score_def score_all_subtasks_def Let_def outcome_scores_all_keys [OF keys dist(1)]
      outcome_scores_all_keys [OF keys dist(2)] by (simp only:)
qed

section \<open>What a session keeps\<close>

text \<open>The outcome is what the policy makes of one of the results.\<close>

definition outcome_of_results :: "test_case_verdict list \<Rightarrow> case_outcome \<Rightarrow> bool" where
  "outcome_of_results vs oc \<longleftrightarrow> (\<exists>v \<in> set vs. co_test_case_id oc = tv_test_case_id v \<and> co_verdict oc = tv_verdict v
     \<and> co_score oc = normalize_raw_score (tv_score v))"

definition ioi_inv :: "subtask_def list \<Rightarrow> test_case_row list \<Rightarrow> test_case_row list \<Rightarrow> test_case_verdict list
    \<Rightarrow> ioi_policy det_eval \<Rightarrow> bool" where
  "ioi_inv defs A S vs st \<longleftrightarrow>
    ip_all_test_cases (de_policy st) = A \<and> ip_subtask_defs (de_policy st) = defs \<and>
    ssc_methods (ip_short_circuit (de_policy st)) = ssc_methods (ssc_new defs S) \<and>
    ssc_case_subtasks (ip_short_circuit (de_policy st)) = ssc_case_subtasks (ssc_new defs S) \<and>
    (\<forall>oc \<in> set (de_outcomes st). wire_verdict (co_verdict oc) = co_verdict oc \<and>
      (outcome_of_results vs oc \<or> co_verdict oc = Skipped \<and> co_score oc = F64 0 \<and>
        case_is_only_needed_by_failed (ssc_new defs S) (co_test_case_id oc)
          (ssc_failed_subtasks (ip_short_circuit (de_policy st))))) \<and>
    (\<forall>k \<in> ssc_failed_subtasks (ip_short_circuit (de_policy st)). \<exists>oc \<in> set (de_outcomes st).
      outcome_of_results vs oc \<and> k \<in> set (listed (ssc_case_subtasks (ssc_new defs S)) (co_test_case_id oc))
      \<and> result_fails_method (ssc_new defs S) k (co_score oc))"

lemma wire_skipped [simp]: "wire_verdict Skipped = Skipped"
  unfolding wire_verdict_def by (rule verdict_deserialize_display) simp

lemma ssc_congs:
  assumes "ssc_methods s = ssc_methods s0" "ssc_case_subtasks s = ssc_case_subtasks s0"
  shows "case_is_only_needed_by_failed s = case_is_only_needed_by_failed s0"
    and "failing_subtasks_for s = failing_subtasks_for s0"
  by (intro ext; simp add: case_is_only_needed_by_failed_def method_can_short_circuit_def failing_subtasks_for_def
      result_fails_method_def assms cong: option.case_cong)+

lemma case_is_only_needed_mono:
  "case_is_only_needed_by_failed s i f \<Longrightarrow> f \<subseteq> g \<Longrightarrow> case_is_only_needed_by_failed s i g"
  by (auto simp: case_is_only_needed_listed)

lemma retain_all_outcomes:
  "de_outcomes (retain_all ocs st) = de_outcomes st @ map (\<lambda>oc. oc\<lparr>co_stdout := None, co_stderr := None\<rparr>) ocs"
  by (induction ocs arbitrary: st) (auto simp: retain_all_def retain_outcome_def)

lemma ioi_inv_next:
  assumes inv: "ioi_inv defs A S vs st" and v: "v \<in> set vs" "tv_verdict v \<noteq> CompileError" "wire_verdict (tv_verdict v) = tv_verdict v"
  shows "ioi_inv defs A S vs (det_next (ioi_judge :: (ioi_policy, 'z) judge_ops) (wire_state st) v)"
proof -
  let ?J = "ioi_judge :: (ioi_policy, 'z) judge_ops"
  have "map (\<lambda>oc. oc\<lparr>co_verdict := wire_verdict (co_verdict oc)\<rparr>) (de_outcomes st) = de_outcomes st"
    using inv by (intro map_idI) (auto simp: ioi_inv_def)
  then have w: "wire_state st = st" by (simp add: wire_state_def)
  show ?thesis
  proof (cases "tv_test_case_id v \<in> de_recorded_ids st")
    case True
    with inv show ?thesis by (simp add: det_next_def w)
  next
    case False
    define oc where "oc = ioi_score (de_policy st) v"
    define st1 where "st1 = retain_outcome oc (st\<lparr>de_marked_running := True\<rparr>)"
    define l where "l = last (de_outcomes st1)"
    obtain step p where ns: "ioi_next_step (de_policy st1) (progress_of st1 (Some l)) = (step, p)" by force
    have nxt: "det_next ?J st v = step_state step (st1\<lparr>de_policy := p\<rparr>)"
      using False v(2) ns
      by (simp add: det_next_def ioi_judge_def oc_def [symmetric] st1_def [symmetric] l_def [symmetric] Let_def)
         (simp add: oc_def ioi_score_def outcome_from_verdict_def)
    have st1: "de_policy st1 = de_policy st" "de_outcomes st1 = de_outcomes st @ [l]"
      by (simp_all add: st1_def l_def retain_outcome_def)
    have l: "co_test_case_id l = tv_test_case_id v" "co_verdict l = tv_verdict v"
      "co_score l = normalize_raw_score (tv_score v)"
      by (simp_all add: l_def st1_def retain_outcome_def oc_def ioi_score_def outcome_from_verdict_def)
    then have real: "outcome_of_results vs l" using v(1) by (auto simp: outcome_of_results_def)
    let ?s = "ip_short_circuit (de_policy st)" and ?s' = "ip_short_circuit p"
    note spec = ioi_next_step_spec [OF ns, of l, unfolded st1(1)]
    have sc: "ssc_methods ?s = ssc_methods (ssc_new defs S)" "ssc_case_subtasks ?s = ssc_case_subtasks (ssc_new defs S)"
      using inv by (auto simp: ioi_inv_def)
    note congs = ssc_congs [OF sc]
    have last: "pr_last (progress_of st1 (Some l)) = Some l" by (simp add: progress_of_def)
    have failed: "ssc_failed_subtasks ?s' = ssc_failed_subtasks ?s \<union> failing_subtasks_for (ssc_new defs S) (co_test_case_id l) (co_score l)"
      using spec(6) [OF last] congs by simp
    define drops where "drops = (case step of Cancel ids \<Rightarrow> map (\<lambda>i. (outcome_filled i Skipped SKIPPED_SHORT_CIRCUIT)) ids | _ \<Rightarrow> [])"
    have drops: "co_verdict d = Skipped \<and> co_score d = F64 0 \<and>
        case_is_only_needed_by_failed (ssc_new defs S) (co_test_case_id d) (ssc_failed_subtasks ?s')" if "d \<in> set drops" for d
      using spec(7) [OF last] that congs by (auto simp: drops_def outcome_filled_def f64_zero_def)
    have res: "step_state step (st1\<lparr>de_policy := p\<rparr>) = retain_all drops (st1\<lparr>de_policy := p\<rparr>)"
      using spec(7) [OF last] by (auto simp: step_state_def drops_def retain_all_def)
    have ocs: "de_outcomes (retain_all drops (st1\<lparr>de_policy := p\<rparr>)) =
        (de_outcomes st @ [l]) @ map (\<lambda>oc. oc\<lparr>co_stdout := None, co_stderr := None\<rparr>) drops"
      by (simp add: retain_all_outcomes st1)
    have old: "wire_verdict (co_verdict d) = co_verdict d \<and> (outcome_of_results vs d \<or> co_verdict d = Skipped \<and> co_score d = F64 0 \<and>
        case_is_only_needed_by_failed (ssc_new defs S) (co_test_case_id d) (ssc_failed_subtasks ?s'))"
      if "d \<in> set (de_outcomes st)" for d
      using inv that case_is_only_needed_mono [of "ssc_new defs S" _ "ssc_failed_subtasks ?s" "ssc_failed_subtasks ?s'"] failed
      by (auto simp: ioi_inv_def)
    have fails: "\<exists>d \<in> set (de_outcomes st @ [l]). outcome_of_results vs d
        \<and> k \<in> set (listed (ssc_case_subtasks (ssc_new defs S)) (co_test_case_id d))
        \<and> result_fails_method (ssc_new defs S) k (co_score d)" if "k \<in> ssc_failed_subtasks ?s'" for k
      using that real inv unfolding failed failing_listed ioi_inv_def by auto
    let ?ocs = "(de_outcomes st @ [l]) @ map (\<lambda>oc. oc\<lparr>co_stdout := None, co_stderr := None\<rparr>) drops"
    have "wire_verdict (co_verdict d) = co_verdict d \<and> (outcome_of_results vs d \<or> co_verdict d = Skipped \<and> co_score d = F64 0 \<and>
        case_is_only_needed_by_failed (ssc_new defs S) (co_test_case_id d) (ssc_failed_subtasks ?s'))" if "d \<in> set ?ocs" for d
      using that old real v(3) l(2) drops by auto
    moreover have "\<exists>d \<in> set ?ocs. outcome_of_results vs d
        \<and> k \<in> set (listed (ssc_case_subtasks (ssc_new defs S)) (co_test_case_id d))
        \<and> result_fails_method (ssc_new defs S) k (co_score d)" if "k \<in> ssc_failed_subtasks ?s'" for k
      using fails [OF that] unfolding set_append by blast
    moreover have "ip_all_test_cases p = A" "ip_subtask_defs p = defs" "ssc_methods ?s' = ssc_methods (ssc_new defs S)"
      "ssc_case_subtasks ?s' = ssc_case_subtasks (ssc_new defs S)"
      using spec(1-4) [OF last] inv sc by (auto simp: ioi_inv_def)
    ultimately have "ioi_inv defs A S vs (retain_all drops (st1\<lparr>de_policy := p\<rparr>))"
      unfolding ioi_inv_def ocs by simp
    then show ?thesis by (simp add: w nxt res)
  qed
qed

end
