(* ===== verification/IoiClaims.thy ===== *)
theory IoiClaims
  imports IoiRules "HOL-Library.Multiset"
begin

text \<open>
  The claims about the IOI judge: what a whole session leaves, and the bounds of scores and tokens.
\<close>

section \<open>A whole session\<close>

lemma without_bodies_fields [simp]:
  "tc_id (without_bodies tc) = tc_id tc" "tc_score (without_bodies tc) = tc_score tc"
  "tc_label (without_bodies tc) = tc_label tc" "tc_is_sample (without_bodies tc) = tc_is_sample tc"
  by (simp_all add: without_bodies_def)

lemma without_bodies_label [simp]: "resolve_tc_label (without_bodies tc) = resolve_tc_label tc"
  by (simp add: resolve_tc_label_def split: option.split)

lemma without_bodies_keys [simp]: "test_case_reference_keys (without_bodies tc) = test_case_reference_keys tc"
  by (simp add: test_case_reference_keys_def)

lemma ssc_new_without_bodies: "ssc_new defs (map without_bodies S) = ssc_new defs S"
proof -
  have "key_to_ids (map without_bodies S) = key_to_ids S"
    by (intro ext) (simp add: key_to_ids_def filter_map comp_def)
  then show ?thesis by (simp add: ssc_new_def comp_def filter_map)
qed

lemma ioi_submission_score_without_bodies:
  "ioi_submission_score defs (map without_bodies A) ocs = ioi_submission_score defs A ocs"
  by (simp add: ioi_submission_score_def score_all_subtasks_def test_case_weights_def scores_by_all_keys_def
      outcome_scores_def foldl_map comp_def cong: option.case_cong)

lemma keys_unambiguous_without_bodies: "keys_unambiguous (map without_bodies A) = keys_unambiguous A"
  by (simp add: keys_unambiguous_def comp_def)

lemma ioi_inv_start:
  assumes "de_policy st = ioi_policy_new A S defs" "de_outcomes st = []"
  shows "ioi_inv defs (map without_bodies A) (map without_bodies S) vs st"
  using assms by (simp add: ioi_inv_def ioi_policy_new_def ssc_new_without_bodies ssc_new_tables)

lemma ioi_inv_dropped:
  assumes inv: "ioi_inv defs A S vs st" and oc: "oc \<in> set (de_outcomes st)" "\<not> outcome_of_results vs oc"
    and real: "\<forall>v \<in> set vs. \<not> is_skipped_or_cancelled (tv_verdict v)"
  shows "safely_dropped defs S (de_outcomes st) (co_test_case_id oc)"
  unfolding safely_dropped_def
proof (intro allI impI)
  fix k
  assume k: "k < length defs" "co_test_case_id oc \<in> subtask_ids S (defs ! k)"
  from inv oc have only: "case_is_only_needed_by_failed (ssc_new defs S) (co_test_case_id oc)
      (ssc_failed_subtasks (ip_short_circuit (de_policy st)))"
    unfolding ioi_inv_def by blast
  have "k \<in> set (listed (ssc_case_subtasks (ssc_new defs S)) (co_test_case_id oc))"
    using k by (simp add: ssc_new_member)
  with only have can: "method_can_short_circuit (ssc_new defs S) k"
    and failed: "k \<in> ssc_failed_subtasks (ip_short_circuit (de_policy st))"
    by (auto simp: case_is_only_needed_listed)
  from inv failed obtain oc' where oc': "oc' \<in> set (de_outcomes st)" "outcome_of_results vs oc'"
      "k \<in> set (listed (ssc_case_subtasks (ssc_new defs S)) (co_test_case_id oc'))"
      "result_fails_method (ssc_new defs S) k (co_score oc')"
    unfolding ioi_inv_def by blast
  then have "\<not> is_skipped_or_cancelled (co_verdict oc')" using real by (auto simp: outcome_of_results_def)
  moreover have "co_test_case_id oc' \<in> subtask_ids S (defs ! k)" using oc'(3) by (simp add: ssc_new_member)
  moreover have "sd_scoring_method (defs ! k) \<noteq> SumMethod"
    using can k(1) by (auto simp: method_can_short_circuit_def ssc_new_tables)
  ultimately show "sd_scoring_method (defs ! k) \<noteq> SumMethod \<and>
      (\<exists>oc \<in> set (de_outcomes st). \<not> is_skipped_or_cancelled (co_verdict oc) \<and>
        co_test_case_id oc \<in> subtask_ids S (defs ! k) \<and> result_fails_method (ssc_new defs S) k (co_score oc))"
    using oc' by blast
qed

text \<open>The outcomes of results that are all taken.\<close>

definition full_outcomes :: "test_case_verdict list \<Rightarrow> case_outcome list" where
  "full_outcomes vs = map (\<lambda>v. outcome_from_verdict v (normalize_raw_score (tv_score v))) vs"

lemma full_outcomes_mem:
  "oc \<in> set (full_outcomes vs) \<Longrightarrow> \<exists>v \<in> set vs. co_test_case_id oc = tv_test_case_id v \<and>
    co_verdict oc = tv_verdict v \<and> co_score oc = normalize_raw_score (tv_score v)"
  by (auto simp: full_outcomes_def outcome_from_verdict_def)

lemma full_outcomes_of_results:
  assumes "outcome_of_results vs oc" "set vs0 = set vs"
  obtains oc' where "oc' \<in> set (full_outcomes vs0)" "co_test_case_id oc' = co_test_case_id oc"
    "co_verdict oc' = co_verdict oc" "co_score oc' = co_score oc"
proof -
  from assms obtain v where "v \<in> set vs0" "co_test_case_id oc = tv_test_case_id v" "co_verdict oc = tv_verdict v"
      "co_score oc = normalize_raw_score (tv_score v)" by (auto simp: outcome_of_results_def)
  then show ?thesis
    by (intro that [of "outcome_from_verdict v (normalize_raw_score (tv_score v))"])
       (simp_all add: full_outcomes_def outcome_from_verdict_def)
qed

lemma ioi_session_score:
  assumes inv: "ioi_inv defs A S vs st" and keys: "keys_unambiguous A" and S: "set S \<subseteq> set A"
    and dist: "distinct (outcome_ids st)" and all: "co_test_case_id ` set (de_outcomes st) = tc_id ` set S"
    and vs: "set vs0 = set vs" "distinct (map tv_test_case_id vs0)" "tv_test_case_id ` set vs0 = tc_id ` set S"
    and real: "\<forall>v \<in> set vs. \<not> is_skipped_or_cancelled (tv_verdict v)"
  shows "ioi_submission_score defs A (de_outcomes st) = ioi_submission_score defs A (full_outcomes vs0)"
proof (rule dropping_keeps_scores [OF keys S(1)])
  let ?all = "full_outcomes vs0"
  show "distinct (map co_test_case_id (de_outcomes st))" using dist by (simp add: outcome_ids_def)
  show "distinct (map co_test_case_id ?all)"
    using vs(2) by (simp add: full_outcomes_def outcome_from_verdict_def comp_def)
  show "\<forall>oc \<in> set (de_outcomes st) \<union> set ?all. unit_f64 (co_score oc)"
    using inv by (auto simp: ioi_inv_def outcome_of_results_def full_outcomes_def outcome_from_verdict_def unit_normalize)
  fix oc
  {
    assume oc: "oc \<in> set (de_outcomes st)" "\<not> is_skipped_or_cancelled (co_verdict oc)"
    then have "outcome_of_results vs oc"
      using inv by (auto simp: ioi_inv_def is_skipped_or_cancelled_def)
    then show "\<exists>oc' \<in> set ?all. \<not> is_skipped_or_cancelled (co_verdict oc') \<and>
        co_test_case_id oc' = co_test_case_id oc \<and> co_score oc' = co_score oc"
      by (rule full_outcomes_of_results [OF _ vs(1)]) (use oc(2) in \<open>metis (lifting)\<close>)
  next
    assume oc: "oc \<in> set ?all" "\<not> is_skipped_or_cancelled (co_verdict oc)"
    then have mem: "co_test_case_id oc \<in> tc_id ` set S" using full_outcomes_mem vs(3) by fastforce
    then obtain oc' where oc': "oc' \<in> set (de_outcomes st)" "co_test_case_id oc' = co_test_case_id oc"
      using all by (metis imageE)
    show "co_test_case_id oc \<in> tc_id ` set S \<and>
      ((\<exists>oc' \<in> set (de_outcomes st). \<not> is_skipped_or_cancelled (co_verdict oc') \<and> co_test_case_id oc' = co_test_case_id oc)
       \<or> safely_dropped defs S (de_outcomes st) (co_test_case_id oc))"
    proof (cases "outcome_of_results vs oc'")
      case True
      then have "\<not> is_skipped_or_cancelled (co_verdict oc')" using real(1) by (auto simp: outcome_of_results_def)
      with oc' mem show ?thesis by blast
    next
      case False
      with ioi_inv_dropped [OF inv oc'(1) _ real(1)] oc' mem show ?thesis by auto
    qed
  }
qed

text \<open>A session with an outcome has one that was not cancelled: a case is cancelled after another has failed.\<close>

lemma ioi_inv_real_outcome:
  assumes inv: "ioi_inv defs A S vs st" and ne: "de_outcomes st \<noteq> []"
  obtains oc where "oc \<in> set (de_outcomes st)" "outcome_of_results vs oc"
proof -
  obtain oc where oc: "oc \<in> set (de_outcomes st)" using ne by (cases "de_outcomes st") auto
  show ?thesis
  proof (cases "outcome_of_results vs oc")
    case False
    with inv oc have only: "case_is_only_needed_by_failed (ssc_new defs S) (co_test_case_id oc)
        (ssc_failed_subtasks (ip_short_circuit (de_policy st)))"
      by (auto simp: ioi_inv_def)
    moreover have "ssc_case_subtasks (ssc_new defs S) (co_test_case_id oc) \<noteq> Some []"
      using ssc_new_tables(1) [of defs S] by (simp add: tables_agree_def)
    ultimately obtain k where "k \<in> ssc_failed_subtasks (ip_short_circuit (de_policy st))"
      unfolding case_is_only_needed_listed listed_def
      by (cases "ssc_case_subtasks (ssc_new defs S) (co_test_case_id oc)") (auto simp: neq_Nil_conv)
    with inv that show ?thesis unfolding ioi_inv_def by blast
  qed (use oc that in blast)
qed

lemma ioi_inv_ids:
  assumes inv: "ioi_inv defs A S vs st" and vs: "tv_test_case_id ` set vs \<subseteq> tc_id ` set S"
  shows "co_test_case_id ` set (de_outcomes st) \<subseteq> tc_id ` set S"
proof (rule image_subsetI)
  fix oc
  assume oc: "oc \<in> set (de_outcomes st)"
  show "co_test_case_id oc \<in> tc_id ` set S"
  proof (cases "outcome_of_results vs oc")
    case True
    with vs show ?thesis by (auto simp: outcome_of_results_def)
  next
    case False
    with inv oc obtain l where l: "ssc_case_subtasks (ssc_new defs S) (co_test_case_id oc) = Some l"
      by (auto simp: ioi_inv_def case_is_only_needed_listed)
    moreover have "ssc_case_subtasks (ssc_new defs S) (co_test_case_id oc) \<noteq> Some []"
      using ssc_new_tables(1) [of defs S] by (simp add: tables_agree_def)
    ultimately obtain k where "k \<in> set (listed (ssc_case_subtasks (ssc_new defs S)) (co_test_case_id oc))"
      by (cases l) (auto simp: listed_def)
    then show ?thesis unfolding ssc_new_member subtask_ids_key by (metis imageI)
  qed
qed

lemma ioi_terminal_row:
  assumes "\<exists>oc \<in> set ocs. \<not> is_skipped_or_cancelled (co_verdict oc)" and "\<forall>oc \<in> set ocs. co_verdict oc \<noteq> CompileError"
    and "j' = update_judgement_row (wire_update (ioi_terminal_update sid jid ep (map ioi_outcome_from_case ocs) sc)) t j"
  shows "c_score (j_cols j') = Some (finite_or_zero (round_score sc))" "c_status (j_cols j') = Judged"
proof -
  let ?ns = "filter (\<lambda>oc. \<not> is_skipped_or_cancelled (io_verdict oc)) (map ioi_outcome_from_case ocs)"
  have ne: "?ns \<noteq> []" using assms(1) by (auto simp: filter_empty_conv ioi_outcome_from_case_def)
  have "max_by_key severity (map io_verdict ?ns) \<noteq> Some CompileError"
  proof
    assume "max_by_key severity (map io_verdict ?ns) = Some CompileError"
    then have "CompileError \<in> set (map io_verdict ?ns)" using max_by_key_Some by fast
    with assms(2) show False by (auto simp: ioi_outcome_from_case_def)
  qed
  then have "(case max_by_key severity (map io_verdict ?ns) of Some v \<Rightarrow> v | None \<Rightarrow> SystemError) \<noteq> CompileError"
    by (auto split: option.split)
  with ne show "c_score (j_cols j') = Some (finite_or_zero (round_score sc))" "c_status (j_cols j') = Judged"
    by (simp_all add: assms(3) update_judgement_row_def Let_def ioi_terminal_update_def
        wire_update_def push_judge_sets_def push_double_opt_def push_double_opt_str_def apply_sets_def
        submission_status_is_terminal_def finite_or_zero_def)
qed

lemma ioi_finalized_row:
  assumes "finalized_by ioi_judge st d'" and "\<exists>oc \<in> set (de_outcomes st). \<not> is_skipped_or_cancelled (co_verdict oc)"
    and "\<forall>oc \<in> set (de_outcomes st). co_verdict oc \<noteq> CompileError"
  shows "\<exists>j \<in> set (db_judgements d'). j_id j = js_judgement_id (de_request st) \<and> j_is_finalized j \<and>
    c_status (j_cols j) = Judged \<and> c_score (j_cols j) = Some (finite_or_zero (round_score
      (ioi_submission_score (ip_subtask_defs (de_policy st)) (ip_all_test_cases (de_policy st)) (de_outcomes st))))"
proof -
  let ?q = "de_request st"
  let ?u = "ioi_terminal_update (js_submission_id ?q) (js_judgement_id ?q) (js_judge_epoch ?q)
    (map ioi_outcome_from_case (de_outcomes st))
    (ioi_submission_score (ip_subtask_defs (de_policy st)) (ip_all_test_cases (de_policy st)) (de_outcomes st))"
  from assms obtain d where nf: "db_faults d = []" and live: "judgement_live (db_judgements d) ?q"
    and fin: "ioi_finalize (de_policy st) (progress_of st None) d = (Inr (), d')"
    by (auto simp: finalized_by_def ioi_judge_def)
  from terminal_update_total [OF nf live, of ?u] obtain n d1 j where
    run: "submission_update_call ?u d = (Inr n, d1)" "0 < n" and
    j: "j_id j = js_judgement_id ?q" "update_judgement_row (wire_update ?u) (db_now d) j \<in> set (db_judgements d1)"
    by auto
  have d1: "d1 = d'" using fin run
    by (simp add: ioi_finalize_def persist_results_def progress_of_def Let_def hbind_def hret_def)
  have "is_terminal_marker (wire_update ?u)"
    using ioi_terminal_update_ids(4) by (simp add: is_terminal_marker_def wire_update_def)
  then have "j_is_finalized (update_judgement_row (wire_update ?u) (db_now d) j)"
    "j_id (update_judgement_row (wire_update ?u) (db_now d) j) = j_id j"
    by (simp_all add: update_judgement_row_def Let_def)
  with j d1 show ?thesis
    by (intro bexI [of _ "update_judgement_row (wire_update ?u) (db_now d) j"])
      (auto simp: ioi_terminal_row [OF assms(2,3) refl])
qed

text \<open>
  C2: an IOI session over test cases whose reference keys are unambiguous, that receives one
  result per scoring case in any order and whose database calls succeed, ends with the reply Finish;
  every case has one result row, and the judgement is finalized as Judged with the score that
  scoring every result would give. So neither the cases cancelled because their subtasks had
  failed already nor the order of the results change the score.
\<close>

theorem ioi_session_scored:
  fixes d :: "'z db_scheme"
  assumes inv: "session_inv st d" and "finite_state st" and "db_faults d = []"
    and "judgement_live (db_judgements d) (de_request st)"
    and start: "de_outcomes st = []" "de_policy st = ioi_policy_new A S defs" "de_scoring_cases st = map scoring_case_from S"
    and keys: "keys_unambiguous A" "set S \<subseteq> set A"
    and vs: "vs \<noteq> []" "mset vs = mset ws" "distinct (map tv_test_case_id ws)" "set (map tv_test_case_id ws) = set (map tc_id S)"
    and real: "\<forall>v \<in> set ws. tv_verdict v \<noteq> CompileError \<and> \<not> is_skipped_or_cancelled (tv_verdict v)
      \<and> wire_verdict (tv_verdict v) = tv_verdict v"
  shows "\<exists>out d'. session_run ioi_judge st vs d = (Inr out, d') \<and> cb_action out = ActFinish \<and>
    all_recorded (cb_state out) \<and> session_inv (cb_state out) d' \<and>
    (\<exists>j \<in> set (db_judgements d'). j_id j = js_judgement_id (de_request st) \<and> j_is_finalized j \<and>
      c_status (j_cols j) = Judged \<and>
      c_score (j_cols j) = Some (finite_or_zero (round_score (ioi_submission_score defs A (full_outcomes ws)))))"
proof -
  have set_vs: "set ws = set vs" using vs(2) by (metis set_mset_mset)
  have ids: "map sc_id (de_scoring_cases st) = map tc_id S" by (simp add: start scoring_case_from_def)
  have distS: "distinct (map tc_id S)" using inv ids by (simp add: session_inv_def)
  have "S \<noteq> []" using vs(1,4) set_vs by auto
  moreover have "de_recorded_ids st = {}" using inv start by (auto simp: session_inv_def outcome_ids_def)
  ultimately have nall: "\<not> all_recorded st" by (cases S) (auto simp: all_recorded_def start)
  have cover: "set (map sc_id (de_scoring_cases st)) \<subseteq> de_recorded_ids st \<union> set (map tv_test_case_id vs)"
    using ids vs(4) set_vs by simp
  have "ioi_policy_ok (de_policy st)"
    using distS by (simp add: ioi_policy_ok_def start ioi_policy_new_def ssc_new_tables)
  from ioi.session_run_finishes [OF assms(1-4) nall cover this] obtain out d' where
    run: "session_run ioi_judge st vs d = (Inr out, d')" "cb_action out = ActFinish" "all_recorded (cb_state out)"
      "session_inv (cb_state out) d'" and fin: "finalized_by ioi_judge (cb_state out) d'"
    and req: "de_request (cb_state out) = de_request st" "de_scoring_cases (cb_state out) = de_scoring_cases st"
    by blast
  let ?A = "map without_bodies A" and ?S = "map without_bodies S" and ?st = "cb_state out"
  have inv': "ioi_inv defs ?A ?S vs ?st"
  proof (rule session_run_keeps [where P = "ioi_inv defs ?A ?S vs", OF _ _ run(1)])
    show "ioi_inv defs ?A ?S vs st" by (rule ioi_inv_start [OF start(2,1)])
  qed (use ioi_inv_next real set_vs in blast)
  have tcs: "tc_id ` set ?S = tc_id ` set S" "set ?S \<subseteq> set ?A" using keys(2) by (auto simp: image_image)
  have "tc_id ` set S \<subseteq> de_recorded_ids ?st"
    using run(3) req(2) start(3) by (auto simp: all_recorded_def scoring_case_from_def)
  moreover have rec: "de_recorded_ids ?st = co_test_case_id ` set (de_outcomes ?st)" "distinct (outcome_ids ?st)"
    using run(4) by (simp_all add: session_inv_def outcome_ids_def)
  ultimately have ids': "co_test_case_id ` set (de_outcomes ?st) = tc_id ` set ?S"
    using ioi_inv_ids [OF inv'] vs(4) set_vs tcs by auto
  have nskip: "\<forall>v \<in> set vs. \<not> is_skipped_or_cancelled (tv_verdict v)" using real set_vs by blast
  have score: "ioi_submission_score defs ?A (de_outcomes ?st) = ioi_submission_score defs A (full_outcomes ws)"
    using ioi_session_score [OF inv' _ tcs(2) rec(2) ids' set_vs vs(3) _ nskip] keys(1) vs(4) tcs(1)
    by (simp add: keys_unambiguous_without_bodies ioi_submission_score_without_bodies)
  have "de_outcomes ?st \<noteq> []" using ids' tcs(1) \<open>S \<noteq> []\<close> by auto
  then obtain oc where oc: "oc \<in> set (de_outcomes ?st)" "outcome_of_results vs oc" by (rule ioi_inv_real_outcome [OF inv'])
  then have "\<exists>oc \<in> set (de_outcomes ?st). \<not> is_skipped_or_cancelled (co_verdict oc)"
    using nskip unfolding outcome_of_results_def by metis
  moreover have "\<forall>oc \<in> set (de_outcomes ?st). co_verdict oc \<noteq> CompileError"
    using inv' real set_vs by (auto simp: ioi_inv_def outcome_of_results_def)
  moreover have "ip_subtask_defs (de_policy ?st) = defs" "ip_all_test_cases (de_policy ?st) = ?A"
    using inv' by (simp_all add: ioi_inv_def)
  ultimately show ?thesis using ioi_finalized_row [OF fin] run req(1) score by auto
qed

definition sample_tc :: "i32 \<Rightarrow> test_case_row" where
  "sample_tc i = \<lparr>tc_id = i, tc_score = f64_one, tc_is_sample = False, tc_position = i, tc_description = None,
     tc_label = None, tc_input = Missing, tc_expected_output = Missing, tc_is_custom = False\<rparr>"

definition sample_subtasks :: "subtask_def list" where
  "sample_subtasks =
    [\<lparr>sd_name = lit ''A'', sd_scoring_method = GroupMin, sd_max_score = F64 30, sd_test_cases = [lit ''1'', lit ''2'']\<rparr>,
     \<lparr>sd_name = lit ''B'', sd_scoring_method = SumMethod, sd_max_score = F64 70, sd_test_cases = [lit ''1'', lit ''2'']\<rparr>]"

lemma small_rounds: "f64_round 0 = F64 0" "f64_round 1 = F64 1" "f64_round (1 / 2) = F64 (1 / 2)"
  using f64_repr_0 f64_repr_1 f64_repr_scaled [of 1 "- 1"] by (simp_all add: f64_repr_def power_int_minus)

lemma sample_keys:
  "test_case_reference_keys (sample_tc 1) = [lit ''1'']" "test_case_reference_keys (sample_tc 2) = [lit ''2'']"
  by (code_simp, code_simp)

lemma sample_map: "outcome_scores [sample_tc 1, sample_tc 2]
    (full_outcomes [sample_result 1 Accepted, (sample_result 2 WrongAnswer)\<lparr>tv_score := F64 0\<rparr>])
  = [lit ''1'' \<mapsto> F64 1, lit ''2'' \<mapsto> F64 0]"
  by (simp add: outcome_scores_def full_outcomes_def outcome_from_verdict_def is_skipped_or_cancelled_def sample_keys)
     (simp add: sample_tc_def sample_result_def normalize_raw_score_def f64_clamp01_def f64_lt_def f64_one_def)

lemma sample_score: "finite_or_zero (round_score (ioi_submission_score sample_subtasks [sample_tc 1, sample_tc 2]
    (full_outcomes [sample_result 1 Accepted, (sample_result 2 WrongAnswer)\<lparr>tv_score := F64 0\<rparr>]))) = F64 35"
proof -
  have lits: "lit ''1'' \<noteq> lit ''2''" by code_simp
  have fl: "\<lfloor>7001 / 2 :: rat\<rfloor> = 3500" by (rule floor_unique) simp_all
  have weights: "test_case_weights [sample_tc 1, sample_tc 2] = [lit ''1'' \<mapsto> F64 1, lit ''2'' \<mapsto> F64 1]"
    by (simp add: test_case_weights_def sample_keys) (simp add: sample_tc_def f64_one_def)
  have labels: "resolve_tc_label (sample_tc 1) = lit ''1''" "resolve_tc_label (sample_tc 2) = lit ''2''"
    by (code_simp, code_simp)
  have scores: "scores_by_all_keys [sample_tc 1, sample_tc 2] [lit ''1'' \<mapsto> F64 1, lit ''2'' \<mapsto> F64 0] =
      [lit ''1'' \<mapsto> F64 1, lit ''2'' \<mapsto> F64 0]"
    using lits by (simp add: scores_by_all_keys_def sample_keys labels)
  show ?thesis
    using lits
    by (simp add: ioi_submission_score_def score_all_subtasks_def sample_map weights scores sample_subtasks_def
        score_subtask_with_weights_def score_subtask_raw_def weigh_def Let_def score_or_zero_def f64_lt_def
        round_score_def f64_sum_def f64_round_numeral small_rounds f64_zero_def finite_or_zero_def fl)
qed

theorem ioi_session_scored_witness:
  "\<exists>out d'. session_run ioi_judge (sample_session (ioi_policy_new [sample_tc 1, sample_tc 2] [sample_tc 1, sample_tc 2] sample_subtasks))
      [(sample_result 2 WrongAnswer)\<lparr>tv_score := F64 0\<rparr>, sample_result 1 Accepted] (sample_db []) = (Inr out, d') \<and>
    cb_action out = ActFinish \<and>
    (\<exists>j \<in> set (db_judgements d'). j_id j = 1 \<and> j_is_finalized j \<and> c_score (j_cols j) = Some (F64 35))"
proof -
  let ?S = "[sample_tc 1, sample_tc 2]" and ?a = "sample_result 1 Accepted"
    and ?b = "(sample_result 2 WrongAnswer)\<lparr>tv_score := F64 0\<rparr>"
  let ?st = "sample_session (ioi_policy_new ?S ?S sample_subtasks)"
  have "wire_verdict Accepted = Accepted" "wire_verdict WrongAnswer = WrongAnswer"
    unfolding wire_verdict_def by (rule verdict_deserialize_display, simp)+
  then have real: "\<forall>v \<in> set [?a, ?b]. tv_verdict v \<noteq> CompileError \<and> \<not> is_skipped_or_cancelled (tv_verdict v)
      \<and> wire_verdict (tv_verdict v) = tv_verdict v"
    by (simp add: is_skipped_or_cancelled_def)
  have keys: "keys_unambiguous ?S" by (simp add: keys_unambiguous_def sample_keys lit_def)
  have cases: "de_scoring_cases ?st = map scoring_case_from ?S" "de_policy ?st = ioi_policy_new ?S ?S sample_subtasks"
    by (simp_all add: sample_session_def sample_case_def scoring_case_from_def sample_tc_def)
  have ids: "js_judgement_id (de_request ?st) = 1" by (simp add: sample_submission_def)
  have "set (map tv_test_case_id [?a, ?b]) = set (map tc_id ?S)" "distinct (map tv_test_case_id [?a, ?b])"
    by (simp_all add: sample_tc_def)
  from ioi_session_scored [OF sample_inv sample_finite sample_simps(1) _ sample_simps(2) cases(2,1) keys _ _ _ this(2,1) real,
      where vs = "[?b, ?a]"] sample_live [of "[]"]
  obtain out d' where "session_run ioi_judge ?st [?b, ?a] (sample_db []) = (Inr out, d') \<and> cb_action out = ActFinish \<and>
    (\<exists>j \<in> set (db_judgements d'). j_id j = 1 \<and> j_is_finalized j \<and> c_score (j_cols j) = Some (F64 35))"
    unfolding sample_score ids by (auto simp del: session_run.simps)
  then show ?thesis by blast
qed

end
