(* ===== verification/IoiBounds.thy ===== *)
theory IoiBounds
  imports IoiClaims
begin

text \<open>
  Bounds of subtask scores in binary64: whatever the rounding of the sums, products and quotients
  does, a subtask gives between nothing and its maximum, and exactly its maximum for full marks.
\<close>

text \<open>A test weight that binary64 represents, or one that is not counted.\<close>

definition weight_ok :: "f64 \<Rightarrow> bool" where
  "weight_ok w \<longleftrightarrow> (\<exists>q. w = F64 q \<and> (0 < q \<longrightarrow> f64_repr q))"

definition weights_ok :: "score_map \<Rightarrow> bool" where
  "weights_ok weights \<longleftrightarrow> (\<forall>label w. weights label = Some w \<longrightarrow> weight_ok w)"

abbreviation weight_of :: "score_map \<Rightarrow> rstr \<Rightarrow> f64" where
  "weight_of weights label \<equiv> (case weights label of Some w \<Rightarrow> w | None \<Rightarrow> F64 1)"

lemma weight_of_ok: "weights_ok weights \<Longrightarrow> weight_ok (weight_of weights label)"
  by (auto simp: weights_ok_def weight_ok_def split: option.splits)

text \<open>The total weight and the weighted sum of scores that are at most 1.\<close>

definition balanced :: "f64 \<times> f64 \<Rightarrow> bool" where
  "balanced acc \<longleftrightarrow> (\<exists>t s. acc = (F64 t, F64 s) \<and> 0 \<le> s \<and> s \<le> t)"

lemma weigh_finite:
  assumes "weights_ok weights" "f64_is_finite (fst (weigh weights scores acc label))"
  shows "f64_is_finite (fst acc)"
proof -
  obtain q where "weight_of weights label = F64 q" using weight_of_ok [OF assms(1)] by (auto simp: weight_ok_def)
  with assms(2) show ?thesis by (cases "fst acc") (auto simp: weigh_def Let_def split: if_splits)
qed

lemma weigh_fold_finite:
  assumes "weights_ok weights"
  shows "f64_is_finite (fst (foldl (weigh weights scores) acc labels)) \<Longrightarrow> f64_is_finite (fst acc)"
proof (induction labels arbitrary: acc)
  case (Cons l ls)
  have "f64_is_finite (fst (weigh weights scores acc l))" by (rule Cons.IH) (use Cons.prems in simp)
  then show ?case by (rule weigh_finite [OF assms])
qed simp

lemma weigh_balanced:
  assumes "weights_ok weights" "unit_f64 (score_or_zero scores label)" "balanced acc"
    and fin: "f64_is_finite (fst (weigh weights scores acc label))"
  shows "balanced (weigh weights scores acc label)"
proof -
  from assms(3) obtain t s where acc: "acc = (F64 t, F64 s)" "0 \<le> s" "s \<le> t" by (auto simp: balanced_def)
  obtain q where q: "weight_of weights label = F64 q" "0 < q \<Longrightarrow> f64_repr q"
    using weight_of_ok [OF assms(1)] by (auto simp: weight_ok_def)
  obtain u where u: "score_or_zero scores label = F64 u" "0 \<le> u" "u \<le> 1" using assms(2) by (auto simp: unit_f64_def)
  show ?thesis
  proof (cases "0 < q")
    case True
    then have "0 \<le> u * q" "u * q \<le> q" using u by (auto simp: mult_le_cancel_right1)
    then obtain p where p: "f64_round (u * q) = F64 p" "0 \<le> p" "p \<le> q" using f64_round_between [OF _ _ q(2) [OF True]] by metis
    obtain b where b: "f64_round (t + q) = F64 b"
      using fin acc(1) q(1) True by (cases "f64_round (t + q)") (auto simp: weigh_def Let_def)
    have "0 \<le> s + p" "s + p \<le> t + q" using acc p by auto
    then obtain a where "f64_round (s + p) = F64 a" "0 \<le> a" "a \<le> b" using f64_round_below [OF _ _ b] by metis
    with acc q(1) u(1) p(1) b True show ?thesis by (simp add: weigh_def Let_def balanced_def)
  next
    case False
    with acc q(1) show ?thesis by (simp add: weigh_def Let_def balanced_def)
  qed
qed

lemma weigh_fold_balanced:
  assumes "weights_ok weights" "\<And>label. unit_f64 (score_or_zero scores label)"
  shows "balanced acc \<Longrightarrow> f64_is_finite (fst (foldl (weigh weights scores) acc labels)) \<Longrightarrow>
    balanced (foldl (weigh weights scores) acc labels)"
proof (induction labels arbitrary: acc)
  case (Cons l ls)
  have "f64_is_finite (fst (weigh weights scores acc l))"
    using weigh_fold_finite [OF assms(1)] Cons.prems(2) by simp
  with Cons show ?case using weigh_balanced [OF assms] by simp
qed simp

text \<open>Full marks: the two sums are the same number.\<close>

lemma weigh_full:
  assumes "weights_ok weights" "score_or_zero scores label = F64 1" "fst acc = snd acc"
  shows "fst (weigh weights scores acc label) = snd (weigh weights scores acc label)"
proof -
  obtain q where "weight_of weights label = F64 q" "0 < q \<Longrightarrow> f64_repr q"
    using weight_of_ok [OF assms(1)] by (auto simp: weight_ok_def)
  with assms(2,3) show ?thesis by (auto simp: weigh_def Let_def f64_repr_def)
qed

lemma weigh_fold_full:
  "weights_ok weights \<Longrightarrow> \<forall>label \<in> set labels. score_or_zero scores label = F64 1 \<Longrightarrow> fst acc = snd acc \<Longrightarrow>
    fst (foldl (weigh weights scores) acc labels) = snd (foldl (weigh weights scores) acc labels)"
  by (induction labels arbitrary: acc) (auto simp: weigh_full)

lemma product_full: "\<forall>x \<in> set xs. x = F64 1 \<Longrightarrow> foldl f64_mul (F64 1) xs = F64 1"
  by (induction xs) (auto simp: small_rounds)

text \<open>A share of the maximum score.\<close>

lemma share_of_max:
  assumes "0 \<le> m" "f64_repr m" "unit_f64 x"
  shows "\<exists>r. f64_mul (F64 m) x = F64 r \<and> 0 \<le> r \<and> r \<le> m"
proof -
  from assms(3) obtain u where u: "x = F64 u" "0 \<le> u" "u \<le> 1" by (auto simp: unit_f64_def)
  then have "0 \<le> m * u" "m * u \<le> m" using assms(1) by (auto simp: mult_left_le)
  then obtain r where "f64_round (m * u) = F64 r" "0 \<le> r" "r \<le> m" using f64_round_between [OF _ _ assms(2)] by metis
  with u show ?thesis by simp
qed

lemma share_full: "f64_repr m \<Longrightarrow> f64_mul (F64 m) (F64 1) = F64 m"
  by (simp add: f64_repr_def)

lemma ratio_unit:
  assumes "balanced acc" "f64_lt (F64 0) (fst acc)"
  shows "unit_f64 (f64_div (snd acc) (fst acc))" and "fst acc = snd acc \<Longrightarrow> f64_div (snd acc) (fst acc) = F64 1"
proof -
  from assms obtain t s where acc: "acc = (F64 t, F64 s)" "0 \<le> s" "s \<le> t" "0 < t"
    by (auto simp: balanced_def f64_lt_def)
  then have "0 \<le> s / t" "s / t \<le> 1" by auto
  then obtain r where "f64_round (s / t) = F64 r" "0 \<le> r" "r \<le> 1" using f64_round_between [OF _ _ f64_repr_1] by metis
  with acc show "unit_f64 (f64_div (snd acc) (fst acc))" by (simp add: unit_f64_def)
  from acc show "fst acc = snd acc \<Longrightarrow> f64_div (snd acc) (fst acc) = F64 1" by (simp add: small_rounds)
qed



end
