(* ===== verification/VisibilityRules.thy ===== *)
theory VisibilityRules
  imports IcpcStandings SubmissionFeedback
begin

text \<open>
  The host's rules on who may reach what (\<open>server/src/visibility/subject.rs\<close>, \<open>decision.rs\<close>,
  \<open>host_rules.rs\<close>): subjects, resources, the lattice of decisions, and the decisions of the host for
  a batch of resources, with the queries that fetch the rows they need. A \<open>HashMap\<close> collected
  from rows is a map; the code looks keys up in it and never iterates it in a way that shows.
\<close>

section \<open>Decisions\<close>

text \<open>A mask is a set of paths; \<open>BTreeSet\<close> keeps each path once.\<close>

datatype decision = DAllow | DRedact "string set" | DDeny

fun meet :: "decision \<Rightarrow> decision \<Rightarrow> decision" where
  "meet DDeny _ = DDeny"
| "meet _ DDeny = DDeny"
| "meet (DRedact a) (DRedact b) = DRedact (a \<union> b)"
| "meet (DRedact m) DAllow = DRedact m"
| "meet DAllow (DRedact m) = DRedact m"
| "meet DAllow DAllow = DAllow"

definition is_denied :: "decision \<Rightarrow> bool" where "is_denied d \<longleftrightarrow> d = DDeny"

text \<open>The order of which \<^const>\<open>meet\<close> is the greatest lower bound: lower decisions show less.\<close>

instantiation decision :: bounded_semilattice_inf_top
begin

definition inf_decision :: "decision \<Rightarrow> decision \<Rightarrow> decision" where
  "inf_decision = meet"
definition top_decision :: decision where
  "top_decision = DAllow"
definition less_eq_decision :: "decision \<Rightarrow> decision \<Rightarrow> bool" where
  "less_eq_decision a b \<longleftrightarrow> meet a b = a"
definition less_decision :: "decision \<Rightarrow> decision \<Rightarrow> bool" where
  "less_decision a b \<longleftrightarrow> meet a b = a \<and> meet b a \<noteq> b"

instance
proof
  fix a b c :: decision
  show "(a < b) = (a \<le> b \<and> \<not> b \<le> a)" by (simp add: less_decision_def less_eq_decision_def)
  show "a \<le> a" by (cases a) (simp_all add: less_eq_decision_def)
  show "a \<le> b \<Longrightarrow> b \<le> c \<Longrightarrow> a \<le> c"
    by (cases a; cases b; cases c) (auto simp: less_eq_decision_def)
  show "a \<le> b \<Longrightarrow> b \<le> a \<Longrightarrow> a = b" by (cases a; cases b) (auto simp: less_eq_decision_def)
  show "inf a b \<le> a" "inf a b \<le> b" by (cases a; cases b; auto simp: less_eq_decision_def inf_decision_def)+
  show "a \<le> b \<Longrightarrow> a \<le> c \<Longrightarrow> a \<le> inf b c"
    by (cases a; cases b; cases c) (auto simp: less_eq_decision_def inf_decision_def)
  show "a \<le> top" by (cases a) (simp_all add: less_eq_decision_def top_decision_def)
qed

end

lemma meet_inf: "meet a b = inf a b"
  by (simp add: inf_decision_def)

lemma decision_le_simps [simp]:
  "d \<le> DAllow" "DDeny \<le> d" "DRedact a \<le> DRedact b \<longleftrightarrow> b \<subseteq> a" "\<not> DAllow \<le> DRedact a" "\<not> DAllow \<le> DDeny"
  "\<not> DRedact a \<le> DDeny" "d \<le> DDeny \<longleftrightarrow> d = DDeny"
  by (cases d; auto simp: less_eq_decision_def)+

section \<open>Subjects and resources\<close>

record subject =
  sj_user_id :: "i32 option"
  sj_authenticated :: bool
  sj_permissions :: "string list"
  sj_admin_override :: bool

definition from_auth_user :: "i32 \<Rightarrow> string list \<Rightarrow> subject" where
  "from_auth_user uid perms =
    \<lparr>sj_user_id = Some uid, sj_authenticated = True, sj_permissions = perms, sj_admin_override = False\<rparr>"

definition anonymous :: subject where
  "anonymous = \<lparr>sj_user_id = None, sj_authenticated = False, sj_permissions = [], sj_admin_override = False\<rparr>"

definition admin_override :: subject where
  "admin_override = \<lparr>sj_user_id = None, sj_authenticated = True, sj_permissions = [], sj_admin_override = True\<rparr>"

definition sj_has :: "subject \<Rightarrow> string \<Rightarrow> bool" where
  "sj_has s p \<longleftrightarrow> p \<in> set (sj_permissions s)"

definition PROBLEM_CREATE :: string where "PROBLEM_CREATE = ''problem:create''"
definition PROBLEM_EDIT :: string where "PROBLEM_EDIT = ''problem:edit''"

datatype vaction = VRead | VSubmit | VClarify | VDownload

fun as_wire :: "vaction \<Rightarrow> string" where
  "as_wire VRead = ''read''"
| "as_wire VSubmit = ''submit''"
| "as_wire VClarify = ''clarify''"
| "as_wire VDownload = ''download''"

text \<open>An attachment is identified by the text of its UUID.\<close>

datatype resource =
    RContest i32
  | RProblem "i32 option" i32
  | RSample "i32 option" i32
  | RAttachment i32 string
  | RSubmission i32
  | RClarification i32

fun wire_kind :: "resource \<Rightarrow> string" where
  "wire_kind (RContest _) = ''contest''"
| "wire_kind (RProblem _ _) = ''problem''"
| "wire_kind (RSample _ _) = ''sample''"
| "wire_kind (RAttachment _ _) = ''attachment''"
| "wire_kind (RSubmission _) = ''submission''"
| "wire_kind (RClarification _) = ''clarification''"

fun wire_id :: "resource \<Rightarrow> string" where
  "wire_id (RContest i) = show_int i"
| "wire_id (RSubmission i) = show_int i"
| "wire_id (RClarification i) = show_int i"
| "wire_id (RProblem _ p) = show_int p"
| "wire_id (RSample _ p) = show_int p"
| "wire_id (RAttachment _ u) = u"

fun wire_problem_id :: "resource \<Rightarrow> i32 option" where
  "wire_problem_id (RProblem _ p) = Some p"
| "wire_problem_id (RSample _ p) = Some p"
| "wire_problem_id (RAttachment p _) = Some p"
| "wire_problem_id _ = None"

section \<open>Tables\<close>

record problem_row =
  pb_id :: i32
  pb_is_public :: bool
  pb_deleted_at :: "i64 option"

record clarification_row =
  cl_id :: i32
  cl_contest_id :: i32
  cl_author_id :: i32
  cl_recipient_id :: "i32 option"
  cl_is_public :: bool

record reply_row =
  rp_clarification_id :: i32
  rp_is_public :: bool
  rp_created_at :: i64

record ('v, 'm) vis_db = "('v, 'm) plugin_db" +
  v_problems :: "problem_row list"
  v_clarifications :: "clarification_row list"
  v_replies :: "reply_row list"

type_synonym ('v, 'm, 'z, 'a) viscall = "(('v, 'm, 'z) vis_db_scheme, app_error, 'a) call"

text \<open>A query of a handler: a failure of the database becomes an error of the handler.\<close>

definition app_query :: "('z db_scheme \<Rightarrow> 'a) \<Rightarrow> ('z db_scheme, app_error, 'a) call" where
  "app_query q d =
    (case db_query q d of
       (Inr x, d') \<Rightarrow> (Inr x, d')
     | (Inl (Database msg), d') \<Rightarrow> (Inl (AppDatabase msg), d')
     | (Inl _, d') \<Rightarrow> (Inl (AppDatabase []), d'))"

text \<open>Rows collected into a \<open>HashMap\<close> by a key: the last row of a key stays.\<close>

definition by_key :: "('a \<Rightarrow> i32) \<Rightarrow> 'a list \<Rightarrow> i32 \<rightharpoonup> 'a" where
  "by_key key rows = map_of (rev (map (\<lambda>r. (key r, r)) rows))"

section \<open>One resource\<close>

record host_tables =
  ht_contests :: "i32 \<rightharpoonup> contest_row"
  ht_member_of :: "i32 set"
  ht_problem_in_contest :: "(i32 \<times> i32) set"
  ht_submissions :: "i32 \<rightharpoonup> submission_row"
  ht_problems :: "i32 \<rightharpoonup> problem_row"
  ht_problem_contest_ids :: "i32 \<Rightarrow> i32 list"
  ht_clarifications :: "i32 \<rightharpoonup> clarification_row"
  ht_latest_reply_public :: "i32 \<rightharpoonup> bool"

definition window_is_closed :: "contest_row \<Rightarrow> i64 \<Rightarrow> bool" where
  "window_is_closed c now \<longleftrightarrow>
    (case ct_activate_time c of None \<Rightarrow> True | Some t \<Rightarrow> t > now) \<or>
    (case ct_deactivate_time c of None \<Rightarrow> False | Some t \<Rightarrow> t \<le> now)"

definition check_contest_access_decision :: "subject \<Rightarrow> contest_row \<Rightarrow> i64 \<Rightarrow> i32 set \<Rightarrow> decision" where
  "check_contest_access_decision s c now member_of =
    (if sj_has s CONTEST_MANAGE then DAllow
     else if window_is_closed c now then DDeny
     else if ct_is_public c then DAllow
     else if ct_id c \<in> member_of then DAllow else DDeny)"

definition require_contest_started_window_decision :: "subject \<Rightarrow> contest_row \<Rightarrow> i64 \<Rightarrow> decision" where
  "require_contest_started_window_decision s c now =
    (if sj_has s CONTEST_MANAGE then DAllow else if window_is_closed c now then DDeny else DAllow)"

definition decide_contest :: "subject \<Rightarrow> i64 \<Rightarrow> i32 \<Rightarrow> host_tables \<Rightarrow> decision" where
  "decide_contest s now i t =
    (case ht_contests t i of
       None \<Rightarrow> DDeny
     | Some c \<Rightarrow> check_contest_access_decision s c now (ht_member_of t))"

definition decide_standalone_problem_access :: "subject \<Rightarrow> i64 \<Rightarrow> i32 \<Rightarrow> host_tables \<Rightarrow> decision" where
  "decide_standalone_problem_access s now pid t =
    (case ht_problems t pid of
       None \<Rightarrow> DDeny
     | Some p \<Rightarrow>
         if sj_has s PROBLEM_CREATE \<or> sj_has s PROBLEM_EDIT then DAllow
         else if pb_is_public p then DAllow
         else let candidates = ht_problem_contest_ids t pid in
           if candidates = [] then DDeny
           else if sj_has s CONTEST_MANAGE then DAllow
           else let open_and_started =
                  filter (\<lambda>c. \<not> window_is_closed c now \<and> ct_start_time c \<le> now)
                    (List.map_filter (ht_contests t) candidates)
                in if list_ex ct_is_public open_and_started then DAllow
                   else if list_ex (\<lambda>c. ct_id c \<in> ht_member_of t) open_and_started then DAllow
                   else DDeny)"

definition decide_problem_or_sample :: "subject \<Rightarrow> i64 \<Rightarrow> i32 option \<Rightarrow> i32 \<Rightarrow> host_tables \<Rightarrow> decision" where
  "decide_problem_or_sample s now contest_id pid t =
    (case contest_id of
       None \<Rightarrow> decide_standalone_problem_access s now pid t
     | Some cid \<Rightarrow>
         (case ht_contests t cid of
            None \<Rightarrow> DDeny
          | Some c \<Rightarrow>
              if is_denied (check_contest_access_decision s c now (ht_member_of t)) then DDeny
              else if is_denied (require_contest_started_window_decision s c now) then DDeny
              else if (cid, pid) \<in> ht_problem_in_contest t then DAllow else DDeny))"

definition decide_submission :: "subject \<Rightarrow> i64 \<Rightarrow> i32 \<Rightarrow> host_tables \<Rightarrow> decision" where
  "decide_submission s now i t =
    (case ht_submissions t i of
       None \<Rightarrow> DDeny
     | Some sub \<Rightarrow>
         if sj_has s SUBMISSION_VIEW_ALL then DAllow
         else if sj_user_id s = Some (s_user_id sub) then DAllow
         else (case s_contest_id sub of
            None \<Rightarrow> DDeny
          | Some cid \<Rightarrow>
              (case ht_contests t cid of
                 None \<Rightarrow> DDeny
               | Some c \<Rightarrow>
                   if is_denied (check_contest_access_decision s c now (ht_member_of t)) then DDeny
                   else if cid \<notin> ht_member_of t \<or> \<not> ct_submissions_visible c then DDeny
                   else DAllow)))"

definition clarification_reply_mask :: "string set" where
  "clarification_reply_mask = set [''reply_content'', ''reply_author_id'', ''reply_author_name'', ''replied_at'']"

definition decide_clarification :: "subject \<Rightarrow> i32 \<Rightarrow> host_tables \<Rightarrow> decision" where
  "decide_clarification s i t =
    (case ht_clarifications t i of
       None \<Rightarrow> DDeny
     | Some c \<Rightarrow>
         let is_participant = sj_has s CONTEST_MANAGE \<or> sj_user_id s = Some (cl_author_id c)
               \<or> (sj_user_id s \<noteq> None \<and> cl_recipient_id c = sj_user_id s)
         in if \<not> is_participant \<and> \<not> cl_is_public c then DDeny
            else if is_participant then DAllow
            else if ht_latest_reply_public t i = Some True then DAllow
            else DRedact clarification_reply_mask)"

fun decide_one :: "subject \<Rightarrow> i64 \<Rightarrow> host_tables \<Rightarrow> resource \<Rightarrow> decision" where
  "decide_one s now t (RContest i) = decide_contest s now i t"
| "decide_one s now t (RProblem c p) = decide_problem_or_sample s now c p t"
| "decide_one s now t (RSample c p) = decide_problem_or_sample s now c p t"
| "decide_one s now t (RSubmission i) = decide_submission s now i t"
| "decide_one s now t (RAttachment p _) = decide_standalone_problem_access s now p t"
| "decide_one s now t (RClarification i) = decide_clarification s i t"

section \<open>The batch\<close>

fun submission_ref :: "resource \<Rightarrow> i32 option" where
  "submission_ref (RSubmission i) = Some i"
| "submission_ref _ = None"

fun standalone_ref :: "resource \<Rightarrow> i32 option" where
  "standalone_ref (RProblem None p) = Some p"
| "standalone_ref (RSample None p) = Some p"
| "standalone_ref (RAttachment p _) = Some p"
| "standalone_ref _ = None"

fun clarification_ref :: "resource \<Rightarrow> i32 option" where
  "clarification_ref (RClarification i) = Some i"
| "clarification_ref _ = None"

fun contest_ref :: "resource \<Rightarrow> i32 option" where
  "contest_ref (RContest i) = Some i"
| "contest_ref (RProblem (Some c) _) = Some c"
| "contest_ref (RSample (Some c) _) = Some c"
| "contest_ref _ = None"

fun pair_ref :: "resource \<Rightarrow> (i32 \<times> i32) option" where
  "pair_ref (RProblem (Some c) p) = Some (c, p)"
| "pair_ref (RSample (Some c) p) = Some (c, p)"
| "pair_ref _ = None"

text \<open>A query that is skipped when nothing is asked for.\<close>

definition fetch :: "bool \<Rightarrow> (('v, 'm, 'z) vis_db_scheme \<Rightarrow> 'a list) \<Rightarrow> ('v, 'm, 'z, 'a list) viscall" where
  "fetch wanted q = (if wanted then app_query q else hret [])"

definition needs_contest_check :: "subject \<Rightarrow> submission_row \<Rightarrow> bool" where
  "needs_contest_check s sub \<longleftrightarrow> \<not> sj_has s SUBMISSION_VIEW_ALL \<and> sj_user_id s \<noteq> Some (s_user_id sub)"

definition fetch_members :: "subject \<Rightarrow> contest_row list \<Rightarrow> ('v, 'm, 'z, (i32 \<times> user_identity) list) viscall" where
  "fetch_members s contests =
    (case sj_user_id s of
       None \<Rightarrow> hret []
     | Some uid \<Rightarrow> fetch (contests \<noteq> [])
         (\<lambda>d. filter (\<lambda>(c, u). ui_user_id u = uid \<and> c \<in> set (map ct_id contests)) (h_contest_users d)))"

definition host_decide ::
    "subject \<Rightarrow> resource list \<Rightarrow>
     ('v, 'm, 'z, decision list \<times> (i32 \<rightharpoonup> i32 option) \<times> (i32 \<rightharpoonup> i32)) viscall" where
  "host_decide s resources d0 =
    (if sj_admin_override s then (Inr (map (\<lambda>_. DAllow) resources, Map.empty, Map.empty), d0)
     else
      let now = db_now d0;
          sub_ids = List.map_filter submission_ref resources;
          prob_ids = List.map_filter standalone_ref resources;
          cla_ids = List.map_filter clarification_ref resources;
          pairs = List.map_filter pair_ref resources
      in
      hbind (fetch (sub_ids \<noteq> []) (\<lambda>d. filter (\<lambda>r. s_id r \<in> set sub_ids) (db_submissions d))) (\<lambda>subs.
      hbind (fetch (prob_ids \<noteq> []) (\<lambda>d. filter (\<lambda>r. pb_deleted_at r = None \<and> pb_id r \<in> set prob_ids) (v_problems d))) (\<lambda>probs.
      hbind (fetch (prob_ids \<noteq> []) (\<lambda>d. filter (\<lambda>(c, p, _). p \<in> set prob_ids) (h_contest_problems d))) (\<lambda>attached.
      hbind (fetch (cla_ids \<noteq> []) (\<lambda>d. filter (\<lambda>r. cl_id r \<in> set cla_ids) (v_clarifications d))) (\<lambda>clas.
      hbind (fetch (clas \<noteq> []) (\<lambda>d. sort_key rp_created_at
               (filter (\<lambda>r. rp_clarification_id r \<in> set (map cl_id clas)) (v_replies d)))) (\<lambda>replies.
      let contest_ids = List.map_filter contest_ref resources
            @ List.map_filter (\<lambda>sub. if needs_contest_check s sub then s_contest_id sub else None) subs
            @ map fst attached
      in
      hbind (fetch (contest_ids \<noteq> []) (\<lambda>d. filter (\<lambda>r. ct_deleted_at r = None \<and> ct_id r \<in> set contest_ids) (h_contests d))) (\<lambda>contests.
      hbind (fetch_members s contests) (\<lambda>members.
      hbind (fetch (pairs \<noteq> []) (\<lambda>d. filter (\<lambda>(c, p, _). c \<in> set (map fst pairs) \<and> p \<in> set (map snd pairs)) (h_contest_problems d))) (\<lambda>in_contest.
      let t = \<lparr>ht_contests = by_key ct_id contests, ht_member_of = set (map fst members),
               ht_problem_in_contest = set (map (\<lambda>(c, p, _). (c, p)) in_contest),
               ht_submissions = by_key s_id subs, ht_problems = by_key pb_id probs,
               ht_problem_contest_ids = (\<lambda>p. map fst (filter (\<lambda>(_, p', _). p' = p) attached)),
               ht_clarifications = by_key cl_id clas,
               ht_latest_reply_public = map_option rp_is_public \<circ> by_key rp_clarification_id replies\<rparr>
      in hret (map (decide_one s now t) resources,
               map_option s_contest_id \<circ> by_key s_id subs,
               map_option cl_contest_id \<circ> by_key cl_id clas))))))))) d0)"

end
