(* ===== verification/VisibilityBatch.thy ===== *)
theory VisibilityBatch
  imports VisibilityRules
begin

text \<open>
  The batched queries of the host decide as if every resource had been looked up in the whole
  tables.
\<close>

section \<open>Rows by key\<close>

lemma by_key_filter:
  assumes "\<And>r. r \<in> set rows \<Longrightarrow> key r = i \<Longrightarrow> P r"
  shows "by_key key (filter P rows) i = by_key key rows i"
  using assms
proof (induction rows rule: rev_induct)
  case (snoc r rows)
  then show ?case by (auto simp: by_key_def)
qed (simp add: by_key_def)

lemma by_key_Some: "by_key key rows i = Some r \<Longrightarrow> r \<in> set rows \<and> key r = i"
  by (auto simp: by_key_def dest: map_of_SomeD)

lemma filter_sort_key: "filter P (sort_key f xs) = sort_key f (filter P xs)"
  by (induction xs) (auto simp: filter_insort filter_insort_triv)

lemma sort_key_filter_by_key:
  assumes "\<And>r. key r = i \<Longrightarrow> P r"
  shows "by_key key (sort_key f (filter P rows)) i = by_key key (sort_key f rows) i"
  using by_key_filter [where rows = "sort_key f rows" and P = P and key = key and i = i] assms
  by (simp add: filter_sort_key)

section \<open>The whole tables\<close>

definition full_tables :: "subject \<Rightarrow> ('v, 'm, 'z) vis_db_scheme \<Rightarrow> host_tables" where
  "full_tables s d =
    \<lparr>ht_contests = by_key ct_id (filter (\<lambda>r. ct_deleted_at r = None) (h_contests d)),
     ht_member_of = {c. \<exists>u. (c, u) \<in> set (h_contest_users d) \<and> sj_user_id s = Some (ui_user_id u)},
     ht_problem_in_contest = set (map (\<lambda>(c, p, _). (c, p)) (h_contest_problems d)),
     ht_submissions = by_key s_id (db_submissions d),
     ht_problems = by_key pb_id (filter (\<lambda>r. pb_deleted_at r = None) (v_problems d)),
     ht_problem_contest_ids = (\<lambda>p. map fst (filter (\<lambda>(_, p', _). p' = p) (h_contest_problems d))),
     ht_clarifications = by_key cl_id (v_clarifications d),
     ht_latest_reply_public = map_option rp_is_public \<circ> by_key rp_clarification_id (sort_key rp_created_at (v_replies d))\<rparr>"

text \<open>What the host says of one resource, on its own.\<close>

definition host_rule :: "subject \<Rightarrow> ('v, 'm, 'z) vis_db_scheme \<Rightarrow> resource \<Rightarrow> decision" where
  "host_rule s d r = (if sj_admin_override s then DAllow else decide_one s (db_now d) (full_tables s d) r)"

text \<open>Two sets of tables that agree on what the decision about a resource reads.\<close>

definition agree_contest :: "host_tables \<Rightarrow> host_tables \<Rightarrow> i32 \<Rightarrow> bool" where
  "agree_contest t u c \<longleftrightarrow> ht_contests t c = ht_contests u c \<and>
    (ht_contests t c \<noteq> None \<longrightarrow> (c \<in> ht_member_of t \<longleftrightarrow> c \<in> ht_member_of u))"

definition keyed :: "host_tables \<Rightarrow> bool" where
  "keyed t \<longleftrightarrow> (\<forall>i c. ht_contests t i = Some c \<longrightarrow> ct_id c = i)"

lemma agree_contestD:
  assumes "agree_contest t u i"
  shows "ht_contests t i = x \<Longrightarrow> ht_contests u i = x"
    and "ht_contests t i = Some c \<Longrightarrow> i \<in> ht_member_of t \<longleftrightarrow> i \<in> ht_member_of u"
  using assms by (auto simp: agree_contest_def)

lemma access_agree:
  assumes "agree_contest t u i" "ht_contests t i = Some c" "keyed t"
  shows "check_contest_access_decision s c now (ht_member_of t) = check_contest_access_decision s c now (ht_member_of u)"
  using assms by (auto simp: agree_contest_def keyed_def check_contest_access_decision_def)

lemma standalone_agree:
  assumes "ht_problems t p = ht_problems u p" "ht_problem_contest_ids t p = ht_problem_contest_ids u p"
    and "\<forall>c \<in> set (ht_problem_contest_ids t p). agree_contest t u c" "keyed t" "keyed u"
  shows "decide_standalone_problem_access s now p t = decide_standalone_problem_access s now p u"
proof -
  have maps: "List.map_filter (ht_contests t) xs = List.map_filter (ht_contests u) xs"
    if "\<forall>c \<in> set xs. agree_contest t u c" for xs
    using that by (induction xs) (auto simp: map_filter_simps agree_contest_def split: option.splits)
  have mem: "ct_id c \<in> ht_member_of t \<longleftrightarrow> ct_id c \<in> ht_member_of u"
    if "c \<in> set (List.map_filter (ht_contests u) (ht_problem_contest_ids u p))" for c
  proof -
    from that obtain i where "i \<in> set (ht_problem_contest_ids t p)" "ht_contests u i = Some c"
      using assms(2) by (auto simp: map_filter_def)
    with assms(3,5) show ?thesis by (auto simp: agree_contest_def keyed_def)
  qed
  have "list_ex (\<lambda>c. ct_id c \<in> ht_member_of t) (filter Q (List.map_filter (ht_contests u) (ht_problem_contest_ids u p))) =
      list_ex (\<lambda>c. ct_id c \<in> ht_member_of u) (filter Q (List.map_filter (ht_contests u) (ht_problem_contest_ids u p)))" for Q
    using mem by (auto simp: list_ex_iff)
  with assms(1,2,3) maps show ?thesis
    by (simp add: decide_standalone_problem_access_def Let_def split: option.splits)
qed

lemma submission_agree:
  assumes sub: "ht_submissions t i = ht_submissions u i" and "keyed t"
    and need: "\<And>sub c. ht_submissions t i = Some sub \<Longrightarrow> needs_contest_check s sub \<Longrightarrow> s_contest_id sub = Some c \<Longrightarrow> agree_contest t u c"
  shows "decide_submission s now i t = decide_submission s now i u"
proof (cases "ht_submissions u i")
  case None
  with sub show ?thesis by (simp add: decide_submission_def)
next
  case u: (Some row)
  then have t: "ht_submissions t i = Some row" using sub by simp
  show ?thesis
  proof (cases "needs_contest_check s row \<and> s_contest_id row \<noteq> None")
    case True
    then obtain c where c: "s_contest_id row = Some c" and ag: "agree_contest t u c" using need [OF t] by auto
    show ?thesis
    proof (cases "ht_contests t c")
      case None
      with agree_contestD(1) [OF ag] t u c show ?thesis by (simp add: decide_submission_def)
    next
      case (Some ct)
      with agree_contestD [OF ag] t u c access_agree [OF ag Some assms(2)] show ?thesis
        by (simp add: decide_submission_def)
    qed
  next
    case False
    with t u show ?thesis by (auto simp: decide_submission_def needs_contest_check_def)
  qed
qed

text \<open>What a resource reads.\<close>

definition reads_agree :: "subject \<Rightarrow> host_tables \<Rightarrow> host_tables \<Rightarrow> resource \<Rightarrow> bool" where
  "reads_agree s t u r \<longleftrightarrow>
    (\<forall>c. contest_ref r = Some c \<longrightarrow> agree_contest t u c) \<and>
    (\<forall>q. pair_ref r = Some q \<longrightarrow> (q \<in> ht_problem_in_contest t \<longleftrightarrow> q \<in> ht_problem_in_contest u)) \<and>
    (\<forall>p. standalone_ref r = Some p \<longrightarrow> ht_problems t p = ht_problems u p \<and>
      ht_problem_contest_ids t p = ht_problem_contest_ids u p \<and> (\<forall>c \<in> set (ht_problem_contest_ids t p). agree_contest t u c)) \<and>
    (\<forall>i. submission_ref r = Some i \<longrightarrow> ht_submissions t i = ht_submissions u i \<and>
      (\<forall>sub c. ht_submissions t i = Some sub \<and> needs_contest_check s sub \<and> s_contest_id sub = Some c \<longrightarrow> agree_contest t u c)) \<and>
    (\<forall>i. clarification_ref r = Some i \<longrightarrow> ht_clarifications t i = ht_clarifications u i \<and>
      (ht_clarifications t i \<noteq> None \<longrightarrow> ht_latest_reply_public t i = ht_latest_reply_public u i))"

lemma problem_agree:
  assumes "agree_contest t u c" "(c, p) \<in> ht_problem_in_contest t \<longleftrightarrow> (c, p) \<in> ht_problem_in_contest u" "keyed t"
  shows "decide_problem_or_sample s now (Some c) p t = decide_problem_or_sample s now (Some c) p u"
proof (cases "ht_contests t c")
  case None
  with agree_contestD(1) [OF assms(1)] show ?thesis by (simp add: decide_problem_or_sample_def)
next
  case (Some ct)
  with agree_contestD [OF assms(1)] assms(2) access_agree [OF assms(1) Some assms(3)] show ?thesis
    by (simp add: decide_problem_or_sample_def)
qed

lemma decide_one_agree:
  assumes "reads_agree s t u r" "keyed t" "keyed u"
  shows "decide_one s now t r = decide_one s now u r"
proof (cases r)
  case (RContest i)
  then have ag: "agree_contest t u i" using assms(1) by (simp add: reads_agree_def)
  show ?thesis
  proof (cases "ht_contests t i")
    case (Some c)
    with agree_contestD [OF ag] RContest access_agree [OF ag Some assms(2)] show ?thesis by (simp add: decide_contest_def)
  qed (use agree_contestD(1) [OF ag] RContest in \<open>simp add: decide_contest_def\<close>)
next
  case (RProblem c p)
  show ?thesis
  proof (cases c)
    case None
    with RProblem assms show ?thesis
      by (auto simp: reads_agree_def decide_problem_or_sample_def intro!: standalone_agree)
  next
    case (Some c')
    with RProblem assms problem_agree [of t u c' p s now] show ?thesis by (simp add: reads_agree_def)
  qed
next
  case (RSample c p)
  show ?thesis
  proof (cases c)
    case None
    with RSample assms show ?thesis
      by (auto simp: reads_agree_def decide_problem_or_sample_def intro!: standalone_agree)
  next
    case (Some c')
    with RSample assms problem_agree [of t u c' p s now] show ?thesis by (simp add: reads_agree_def)
  qed
next
  case (RAttachment p a)
  with assms show ?thesis by (auto simp: reads_agree_def intro!: standalone_agree)
next
  case (RSubmission i)
  with assms show ?thesis by (auto simp: reads_agree_def intro!: submission_agree)
next
  case (RClarification i)
  with assms show ?thesis
    by (cases "ht_clarifications u i") (auto simp: reads_agree_def decide_clarification_def)
qed

section \<open>The batch\<close>

lemma app_query_Inr:
  assumes "app_query q d = (Inr x, d')"
  shows "\<exists>fs. d' = d\<lparr>db_faults := fs\<rparr> \<and> x = q d'"
proof (cases "db_faults d")
  case Nil
  with assms have "d' = d\<lparr>db_faults := []\<rparr> \<and> x = q d'" by (auto simp: app_query_def db_query_def)
  then show ?thesis by blast
next
  case (Cons f fs)
  with assms show ?thesis by (cases f) (auto simp: app_query_def db_query_def)
qed

text \<open>A query of tables that faults do not touch, skipped when it would find nothing.\<close>

lemma fetch_bind:
  assumes "hbind (fetch w q) k d = (Inr y, d')" "\<And>fs. q (d\<lparr>db_faults := fs\<rparr>) = q d" "\<not> w \<Longrightarrow> q d = []"
  obtains fs where "k (q d) (d\<lparr>db_faults := fs\<rparr>) = (Inr y, d')"
proof -
  from assms(1) obtain x d1 where x: "fetch w q d = (Inr x, d1)" and k: "k x d1 = (Inr y, d')"
    by (auto simp: hbind_Inr)
  show ?thesis
  proof (cases w)
    case True
    with x app_query_Inr [of q d x d1] k assms(2) show ?thesis by (auto simp: fetch_def intro: that)
  next
    case False
    with x k assms(3) that [of "db_faults d"] show ?thesis by (auto simp: fetch_def hret_def)
  qed
qed

definition members_in :: "subject \<Rightarrow> contest_row list \<Rightarrow> ('v, 'z) host_db_scheme \<Rightarrow> (i32 \<times> user_identity) list" where
  "members_in s contests d =
    (case sj_user_id s of
       None \<Rightarrow> []
     | Some uid \<Rightarrow> filter (\<lambda>(c, u). ui_user_id u = uid \<and> c \<in> set (map ct_id contests)) (h_contest_users d))"

lemma members_in_faults [simp]: "members_in s contests (d\<lparr>db_faults := fs\<rparr>) = members_in s contests d"
  by (simp add: members_in_def split: option.split)

lemma members_bind:
  assumes "hbind (fetch_members s contests) k d = (Inr y, d')"
  obtains fs where "k (members_in s contests d) (d\<lparr>db_faults := fs\<rparr>) = (Inr y, d')"
proof (cases "sj_user_id s")
  case None
  with assms that [of "db_faults d"] show ?thesis by (simp add: fetch_members_def members_in_def hbind_def hret_def)
next
  case (Some uid)
  with assms have "hbind (fetch (contests \<noteq> [])
      (\<lambda>d. filter (\<lambda>(c, u). ui_user_id u = uid \<and> c \<in> set (map ct_id contests)) (h_contest_users d))) k d = (Inr y, d')"
    by (simp add: fetch_members_def)
  then obtain fs where "k (filter (\<lambda>(c, u). ui_user_id u = uid \<and> c \<in> set (map ct_id contests)) (h_contest_users d))
      (d\<lparr>db_faults := fs\<rparr>) = (Inr y, d')"
    by (rule fetch_bind) auto
  with Some that show ?thesis by (simp add: members_in_def)
qed

text \<open>The tables a batch fetches.\<close>

definition fetched_tables :: "subject \<Rightarrow> resource list \<Rightarrow> ('v, 'm, 'z) vis_db_scheme \<Rightarrow> host_tables" where
  "fetched_tables s rs d =
    (let sub_ids = List.map_filter submission_ref rs;
         prob_ids = List.map_filter standalone_ref rs;
         cla_ids = List.map_filter clarification_ref rs;
         pairs = List.map_filter pair_ref rs;
         subs = filter (\<lambda>r. s_id r \<in> set sub_ids) (db_submissions d);
         attached = filter (\<lambda>(c, p, _). p \<in> set prob_ids) (h_contest_problems d);
         clas = filter (\<lambda>r. cl_id r \<in> set cla_ids) (v_clarifications d);
         contest_ids = List.map_filter contest_ref rs
            @ List.map_filter (\<lambda>sub. if needs_contest_check s sub then s_contest_id sub else None) subs
            @ map fst attached;
         contests = filter (\<lambda>r. ct_deleted_at r = None \<and> ct_id r \<in> set contest_ids) (h_contests d);
         members = members_in s contests d;
         in_contest = filter (\<lambda>(c, p, _). c \<in> set (map fst pairs) \<and> p \<in> set (map snd pairs)) (h_contest_problems d)
     in \<lparr>ht_contests = by_key ct_id contests, ht_member_of = set (map fst members),
         ht_problem_in_contest = set (map (\<lambda>(c, p, _). (c, p)) in_contest),
         ht_submissions = by_key s_id subs,
         ht_problems = by_key pb_id (filter (\<lambda>r. pb_deleted_at r = None \<and> pb_id r \<in> set prob_ids) (v_problems d)),
         ht_problem_contest_ids = (\<lambda>p. map fst (filter (\<lambda>(_, p', _). p' = p) attached)),
         ht_clarifications = by_key cl_id clas,
         ht_latest_reply_public = map_option rp_is_public \<circ> by_key rp_clarification_id
           (sort_key rp_created_at (filter (\<lambda>r. rp_clarification_id r \<in> set (map cl_id clas)) (v_replies d)))\<rparr>)"

lemma host_decide_fetched:
  assumes "host_decide s rs d = (Inr (ds, sm, cm), d')" "\<not> sj_admin_override s"
  shows "ds = map (decide_one s (db_now d) (fetched_tables s rs d)) rs \<and> (\<exists>fs. d' = d\<lparr>db_faults := fs\<rparr>) \<and>
    sm = map_option s_contest_id \<circ> ht_submissions (fetched_tables s rs d) \<and>
    cm = map_option cl_contest_id \<circ> ht_clarifications (fetched_tables s rs d)"
proof -
  have run: "host_decide s rs d = (Inr (ds, sm, cm), d')" by (fact assms)
  show ?thesis
    using run unfolding host_decide_def Let_def if_not_P [OF assms(2)]
    apply -
    apply (erule fetch_bind, simp, simp only: not_not, simp)+
    apply (erule members_bind)
    apply (erule fetch_bind, simp, simp only: not_not, simp)
    apply (auto simp: hret_def fetched_tables_def Let_def)
    done
qed

lemma by_key_ids:
  assumes "i \<in> set ids"
  shows "by_key key (filter (\<lambda>r. key r \<in> set ids) rows) i = by_key key rows i"
    "by_key key (filter (\<lambda>r. P r \<and> key r \<in> set ids) rows) i = by_key key (filter P rows) i"
  using by_key_filter [where rows = rows and P = "\<lambda>r. key r \<in> set ids" and i = i and key = key]
    by_key_filter [where rows = "filter P rows" and P = "\<lambda>r. key r \<in> set ids" and i = i and key = key] assms
  by (simp_all add: conj_commute cong: conj_cong)

lemma map_filter_mem: "x \<in> set xs \<Longrightarrow> f x = Some y \<Longrightarrow> y \<in> set (List.map_filter f xs)"
  by (force simp: map_filter_def)

lemma keyed_tables: "keyed (fetched_tables s rs d)" "keyed (full_tables s d)"
  by (auto simp: keyed_def fetched_tables_def full_tables_def Let_def dest: by_key_Some)

text \<open>The contests that the batch asks for.\<close>

definition wanted_contests :: "subject \<Rightarrow> resource list \<Rightarrow> ('v, 'm, 'z) vis_db_scheme \<Rightarrow> i32 list" where
  "wanted_contests s rs d = List.map_filter contest_ref rs
     @ List.map_filter (\<lambda>sub. if needs_contest_check s sub then s_contest_id sub else None)
         (filter (\<lambda>r. s_id r \<in> set (List.map_filter submission_ref rs)) (db_submissions d))
     @ map fst (filter (\<lambda>(c, p, _). p \<in> set (List.map_filter standalone_ref rs)) (h_contest_problems d))"

lemma fetched_contests:
  "ht_contests (fetched_tables s rs d) =
    by_key ct_id (filter (\<lambda>r. ct_deleted_at r = None \<and> ct_id r \<in> set (wanted_contests s rs d)) (h_contests d))"
  "ht_member_of (fetched_tables s rs d) = set (map fst (members_in s
    (filter (\<lambda>r. ct_deleted_at r = None \<and> ct_id r \<in> set (wanted_contests s rs d)) (h_contests d)) d))"
  by (simp_all add: fetched_tables_def wanted_contests_def Let_def)

lemma agree_wanted:
  assumes "c \<in> set (wanted_contests s rs d)"
  shows "agree_contest (fetched_tables s rs d) (full_tables s d) c"
proof -
  let ?cs = "filter (\<lambda>r. ct_deleted_at r = None \<and> ct_id r \<in> set (wanted_contests s rs d)) (h_contests d)"
  have same: "ht_contests (fetched_tables s rs d) c = ht_contests (full_tables s d) c"
    unfolding fetched_contests using by_key_ids(2) [OF assms] by (simp add: full_tables_def)
  have "c \<in> ht_member_of (fetched_tables s rs d) \<longleftrightarrow> c \<in> ht_member_of (full_tables s d)"
    if "ht_contests (fetched_tables s rs d) c = Some ct" for ct
  proof -
    from that have "c \<in> ct_id ` set ?cs" unfolding fetched_contests using by_key_Some [of ct_id ?cs c ct] by auto
    then show ?thesis unfolding fetched_contests full_tables_def
      by (cases "sj_user_id s") (force simp: members_in_def image_iff)+
  qed
  with same show ?thesis by (auto simp: agree_contest_def)
qed

lemma reads_agree_fetched:
  assumes r: "r \<in> set rs"
  shows "reads_agree s (fetched_tables s rs d) (full_tables s d) r"
  unfolding reads_agree_def
proof (intro conjI allI impI ballI)
  fix c
  assume "contest_ref r = Some c"
  with r have "c \<in> set (wanted_contests s rs d)" by (simp add: wanted_contests_def map_filter_mem)
  then show "agree_contest (fetched_tables s rs d) (full_tables s d) c" by (rule agree_wanted)
next
  fix q
  assume "pair_ref r = Some q"
  with r have "q \<in> set (List.map_filter pair_ref rs)" by (rule map_filter_mem)
  then show "q \<in> ht_problem_in_contest (fetched_tables s rs d) \<longleftrightarrow> q \<in> ht_problem_in_contest (full_tables s d)"
    by (force simp: fetched_tables_def full_tables_def Let_def image_iff)
next
  fix p
  assume "standalone_ref r = Some p"
  with r have p: "p \<in> set (List.map_filter standalone_ref rs)" by (rule map_filter_mem)
  then show "ht_problems (fetched_tables s rs d) p = ht_problems (full_tables s d) p"
    by (simp add: fetched_tables_def full_tables_def Let_def by_key_ids)
  show ids: "ht_problem_contest_ids (fetched_tables s rs d) p = ht_problem_contest_ids (full_tables s d) p"
    using p by (auto simp: fetched_tables_def full_tables_def Let_def intro!: arg_cong [of _ _ "map fst"] filter_cong)
  fix c
  assume "c \<in> set (ht_problem_contest_ids (fetched_tables s rs d) p)"
  then have "c \<in> set (wanted_contests s rs d)"
    by (auto simp: fetched_tables_def wanted_contests_def Let_def)
  then show "agree_contest (fetched_tables s rs d) (full_tables s d) c" by (rule agree_wanted)
next
  fix i
  assume "submission_ref r = Some i"
  with r have i: "i \<in> set (List.map_filter submission_ref rs)" by (rule map_filter_mem)
  then show "ht_submissions (fetched_tables s rs d) i = ht_submissions (full_tables s d) i"
    by (simp add: fetched_tables_def full_tables_def Let_def by_key_ids)
  fix sub c
  assume *: "ht_submissions (fetched_tables s rs d) i = Some sub \<and> needs_contest_check s sub \<and> s_contest_id sub = Some c"
  then have "sub \<in> set (filter (\<lambda>r. s_id r \<in> set (List.map_filter submission_ref rs)) (db_submissions d))"
    using by_key_Some [of s_id "filter (\<lambda>r. s_id r \<in> set (List.map_filter submission_ref rs)) (db_submissions d)" i sub]
    by (auto simp: fetched_tables_def Let_def)
  from map_filter_mem [OF this, of "\<lambda>sub. if needs_contest_check s sub then s_contest_id sub else None" c] *
  have "c \<in> set (wanted_contests s rs d)" by (simp add: wanted_contests_def)
  then show "agree_contest (fetched_tables s rs d) (full_tables s d) c" by (rule agree_wanted)
next
  fix i
  assume "clarification_ref r = Some i"
  with r have i: "i \<in> set (List.map_filter clarification_ref rs)" by (rule map_filter_mem)
  then show "ht_clarifications (fetched_tables s rs d) i = ht_clarifications (full_tables s d) i"
    by (simp add: fetched_tables_def full_tables_def Let_def by_key_ids)
  assume "ht_clarifications (fetched_tables s rs d) i \<noteq> None"
  then obtain c where "by_key cl_id (filter (\<lambda>r. cl_id r \<in> set (List.map_filter clarification_ref rs)) (v_clarifications d)) i = Some c"
    by (auto simp: fetched_tables_def Let_def)
  from by_key_Some [OF this]
  have "c \<in> set (filter (\<lambda>r. cl_id r \<in> set (List.map_filter clarification_ref rs)) (v_clarifications d))" "cl_id c = i" by auto
  then have "i \<in> set (map cl_id (filter (\<lambda>r. cl_id r \<in> set (List.map_filter clarification_ref rs)) (v_clarifications d)))"
    by force
  then show "ht_latest_reply_public (fetched_tables s rs d) i = ht_latest_reply_public (full_tables s d) i"
    unfolding fetched_tables_def full_tables_def Let_def host_tables.select_convs comp_def
    by (intro arg_cong [of _ _ "map_option rp_is_public"] sort_key_filter_by_key) simp
qed

lemma host_decide_rules:
  assumes "host_decide s rs d = (Inr (ds, sm, cm), d')"
  shows "ds = map (host_rule s d) rs"
proof (cases "sj_admin_override s")
  case True
  with assms show ?thesis by (auto simp: host_decide_def host_rule_def)
next
  case False
  from host_decide_fetched [OF assms False] decide_one_agree [OF reads_agree_fetched keyed_tables] False
  show ?thesis by (auto simp: host_rule_def)
qed

end
