(* ===== verification/VisibilityKernel.thy ===== *)
theory VisibilityKernel
  imports VisibilityBatch
begin

text \<open>
  The visibility kernel of the server (\<open>server/src/visibility/mod.rs\<close>) and its query of the plugins
  (\<open>plugin_query.rs\<close>). A plugin call is a parameter: it may fail, answer anything and change the
  state, which has the type of the whole database. The registry of plugins is a list in the order
  of its iteration, absent when its lock is poisoned.
\<close>

section \<open>Asking the plugins\<close>

datatype plugin_status = Unloaded | Loaded | FailedToLoad string

text \<open>The queries a plugin declares, as topic and function; none without a server section.\<close>

record plugin_entry =
  pe_id :: string
  pe_status :: plugin_status
  pe_queries :: "(string \<times> string) list option"

record vis_subject = query_subject + qs_authenticated :: bool
record vis_resource = query_resource + qr_problem_id :: "i32 option"

record vis_query =
  vq_subject :: vis_subject
  vq_action :: string
  vq_contest_id :: "i32 option"
  vq_resources :: "vis_resource list"

record 's plugin_host =
  ph_registry :: "plugin_entry list option"
  ph_call :: "string \<Rightarrow> string \<Rightarrow> vis_query \<Rightarrow> 's \<Rightarrow> (rstr + wire_decision list) \<times> 's"

definition visibility_queriers :: "plugin_entry list \<Rightarrow> (string \<times> string) list" where
  "visibility_queriers registry =
    concat (map (\<lambda>e. case pe_queries e of
        None \<Rightarrow> []
      | Some qs \<Rightarrow> if pe_status e \<noteq> Loaded then []
          else map (\<lambda>q. (pe_id e, snd q)) (filter (\<lambda>q. fst q = ''visibility'') qs)) registry)"

definition MAX_MASK_PATH_SEGMENTS :: nat where "MAX_MASK_PATH_SEGMENTS = 32"
definition MAX_MASK_PATH_BYTES :: nat where "MAX_MASK_PATH_BYTES = 256"
definition MAX_MASK_FIELDS :: nat where "MAX_MASK_FIELDS = 64"

definition validate_redact_fields :: "string list \<Rightarrow> bool" where
  "validate_redact_fields paths \<longleftrightarrow>
    \<not> length paths > MAX_MASK_FIELDS \<and>
    list_all (\<lambda>field. \<not> length field > MAX_MASK_PATH_BYTES \<and>
      \<not> length (split_on (CHR ''.'') field) > MAX_MASK_PATH_SEGMENTS) paths"

fun host_decision :: "wire_decision \<Rightarrow> decision" where
  "host_decision Allow = DAllow"
| "host_decision Deny = DDeny"
| "host_decision (Redact paths) = DRedact (set paths)"

fun well_formed :: "wire_decision \<Rightarrow> bool" where
  "well_formed (Redact paths) = validate_redact_fields paths"
| "well_formed _ = True"

definition decisions_from_output :: "rstr + wire_decision list \<Rightarrow> nat \<Rightarrow> decision list" where
  "decisions_from_output output expected_len =
    (let deny_all = replicate expected_len DDeny in
     case output of
       Inl _ \<Rightarrow> deny_all
     | Inr decisions \<Rightarrow>
         if length decisions \<noteq> expected_len then deny_all
         else if \<not> list_all well_formed decisions then deny_all
         else map host_decision decisions)"

definition meet_positionally :: "decision list \<Rightarrow> decision list \<Rightarrow> decision list" where
  "meet_positionally acc next_ds = map (\<lambda>(a, b). meet a b) (zip acc next_ds)"

definition enforce_mask_cap_post_union :: "decision list \<Rightarrow> decision list" where
  "enforce_mask_cap_post_union ds =
    map (\<lambda>d. case d of DRedact m \<Rightarrow> if card m > MAX_MASK_FIELDS then DDeny else d | _ \<Rightarrow> d) ds"

fun query_each ::
    "'s plugin_host \<Rightarrow> vis_query \<Rightarrow> nat \<Rightarrow> (string \<times> string) list \<Rightarrow> decision list \<Rightarrow> 's \<Rightarrow> decision list \<times> 's" where
  "query_each ph input n [] combined st = (combined, st)"
| "query_each ph input n ((plugin_id, func) # qs) combined st =
     (case ph_call ph plugin_id func input st of
        (output, st') \<Rightarrow> query_each ph input n qs (meet_positionally combined (decisions_from_output output n)) st')"

definition vis_query_of :: "subject \<Rightarrow> vaction \<Rightarrow> i32 option \<Rightarrow> resource list \<Rightarrow> i32 option list \<Rightarrow> vis_query" where
  "vis_query_of s action contest_id resources resource_contest_ids =
    \<lparr>vq_subject = \<lparr>qs_user_id = sj_user_id s, qs_permissions = sj_permissions s, qs_authenticated = sj_authenticated s\<rparr>,
     vq_action = as_wire action, vq_contest_id = contest_id,
     vq_resources = map (\<lambda>(r, cid). \<lparr>qr_kind = wire_kind r, qr_id = wire_id r, qr_contest_id = cid,
       qr_problem_id = wire_problem_id r\<rparr>) (zip resources resource_contest_ids)\<rparr>"

definition query_plugins ::
    "'s plugin_host \<Rightarrow> subject \<Rightarrow> vaction \<Rightarrow> i32 option \<Rightarrow> resource list \<Rightarrow> i32 option list \<Rightarrow> 's \<Rightarrow> decision list \<times> 's" where
  "query_plugins ph s action contest_id resources resource_contest_ids st =
    (if resources = [] then ([], st)
     else case ph_registry ph of
       None \<Rightarrow> (map (\<lambda>_. DDeny) resources, st)
     | Some registry \<Rightarrow>
         (let queriers = visibility_queriers registry in
          if queriers = [] then (map (\<lambda>_. DAllow) resources, st)
          else case query_each ph (vis_query_of s action contest_id resources resource_contest_ids) (length resources)
                 queriers (map (\<lambda>_. DAllow) resources) st of
            (combined, st') \<Rightarrow> (enforce_mask_cap_post_union combined, st')))"

section \<open>The kernel\<close>

definition contest_scope :: "resource list \<Rightarrow> i32 option" where
  "contest_scope resources =
    (case remdups (List.map_filter contest_ref resources) of [i] \<Rightarrow> Some i | _ \<Rightarrow> None)"

fun resource_contest_id :: "(i32 \<rightharpoonup> i32 option) \<Rightarrow> (i32 \<rightharpoonup> i32) \<Rightarrow> resource \<Rightarrow> i32 option" where
  "resource_contest_id sm cm (RContest i) = Some i"
| "resource_contest_id sm cm (RProblem c _) = c"
| "resource_contest_id sm cm (RSample c _) = c"
| "resource_contest_id sm cm (RSubmission i) = Option.bind (sm i) id"
| "resource_contest_id sm cm (RClarification i) = cm i"
| "resource_contest_id sm cm (RAttachment _ _) = None"

record kernel =
  k_subject :: subject
  k_memo :: "vaction \<times> resource \<rightharpoonup> decision"

definition kernel_new :: "subject \<Rightarrow> kernel" where
  "kernel_new s = \<lparr>k_subject = s, k_memo = Map.empty\<rparr>"

text \<open>The resources in the order they are first seen.\<close>

definition first_seen :: "'a list \<Rightarrow> 'a list" where
  "first_seen xs = rev (foldl (\<lambda>seen x. if x \<in> set seen then seen else x # seen) [] xs)"

definition write_back :: "decision list \<Rightarrow> (nat \<times> decision) list \<Rightarrow> decision list" where
  "write_back ds answers = foldl (\<lambda>ds (i, p). ds[i := meet (ds ! i) p]) ds answers"

text \<open>The decisions of a batch that the memo does not have.\<close>

definition decide_misses ::
    "('v, 'm, 'z) vis_db_scheme plugin_host \<Rightarrow> subject \<Rightarrow> vaction \<Rightarrow> resource list \<Rightarrow> ('v, 'm, 'z, decision list) viscall" where
  "decide_misses ph s action misses =
    hbind (host_decide s misses) (\<lambda>(host_decisions, sm, cm).
      if sj_admin_override s then hret host_decisions
      else let indices = filter (\<lambda>i. \<not> is_denied (host_decisions ! i)) [0..<length host_decisions];
               targets = map (\<lambda>i. misses ! i) indices
           in if targets = [] then hret host_decisions
              else (\<lambda>d. case query_plugins ph s action (contest_scope targets) targets
                              (map (resource_contest_id sm cm) targets) d of
                     (plugin_decisions, d') \<Rightarrow> (Inr (write_back host_decisions (zip indices plugin_decisions)), d')))"

definition decide_batch ::
    "('v, 'm, 'z) vis_db_scheme plugin_host \<Rightarrow> kernel \<Rightarrow> vaction \<Rightarrow> resource list
      \<Rightarrow> ('v, 'm, 'z, decision list \<times> kernel) viscall" where
  "decide_batch ph k action resources =
    (if resources = [] then hret ([], k)
     else let misses = filter (\<lambda>r. k_memo k (action, r) = None) (first_seen resources)
          in hbind (if misses = [] then hret k
                    else hbind (decide_misses ph (k_subject k) action misses) (\<lambda>ds.
                      hret (k\<lparr>k_memo := foldl (\<lambda>m (r, d). m((action, r) \<mapsto> d)) (k_memo k) (zip misses ds)\<rparr>)))
               (\<lambda>k'. hret (map (\<lambda>r. the (k_memo k' (action, r))) resources, k')))"

definition decide :: "('v, 'm, 'z) vis_db_scheme plugin_host \<Rightarrow> kernel \<Rightarrow> vaction \<Rightarrow> resource
      \<Rightarrow> ('v, 'm, 'z, decision \<times> kernel) viscall" where
  "decide ph k action r = hbind (decide_batch ph k action [r]) (\<lambda>(ds, k'). hret (hd ds, k'))"

end
