(* ===== verification/JsonMask.thy ===== *)
theory JsonMask
  imports VisibilityKernel
begin

text \<open>
  What leaves the server: the JSON of an entity with the feedback of a contest laid over it
  (\<open>services/submission_feedback.rs\<close>), the paths of a mask blanked (\<open>visibility/mask.rs\<close>), long texts
  cut (\<open>server-sdk/src/visibility.rs\<close>), and the type that ties them together
  (\<open>visibility/visible.rs\<close>). A JSON text is its UTF-8 bytes; an object lists its members.
\<close>

section \<open>JSON values\<close>

datatype json = JNull | JBool bool | JInt int | JNum f64 | JStr string | JArr "json list" | JObj "(string \<times> json) list"

fun json_get :: "string \<Rightarrow> json \<Rightarrow> json option" where
  "json_get key (JObj ms) = map_of ms key"
| "json_get key _ = None"

text \<open>\<open>value[key]\<close> where it is read: null when there is no such member.\<close>

definition json_index :: "json \<Rightarrow> string \<Rightarrow> json" where
  "json_index v key = (case json_get key v of Some x \<Rightarrow> x | None \<Rightarrow> JNull)"

text \<open>The member of a key replaced in place: the value \<open>get_mut\<close> gives, updated.\<close>

fun update_member :: "(json \<Rightarrow> json) \<Rightarrow> string \<Rightarrow> (string \<times> json) list \<Rightarrow> (string \<times> json) list" where
  "update_member f key [] = []"
| "update_member f key ((k, v) # ms) = (if k = key then (k, f v) # ms else (k, v) # update_member f key ms)"

text \<open>\<open>value[key] = x\<close>: a new member when there is none, an object out of null, a panic otherwise.\<close>

fun json_set :: "string \<Rightarrow> json \<Rightarrow> json \<Rightarrow> json option" where
  "json_set key x (JObj ms) =
     Some (JObj (if map_of ms key = None then ms @ [(key, x)] else update_member (\<lambda>_. x) key ms))"
| "json_set key x JNull = Some (JObj [(key, x)])"
| "json_set key x _ = None"

section \<open>Masks\<close>

fun blank_in_place :: "json \<Rightarrow> json" where
  "blank_in_place (JArr _) = JArr []"
| "blank_in_place _ = JNull"

fun blank_segments :: "string list \<Rightarrow> json \<Rightarrow> json" where
  "blank_segments [] v = v"
| "blank_segments (seg # rest) v =
     (if seg = ''*'' then
        (case v of
           JArr elements \<Rightarrow> JArr (map (if rest = [] then blank_in_place else blank_segments rest) elements)
         | _ \<Rightarrow> v)
      else (case v of
              JObj ms \<Rightarrow> JObj (update_member (if rest = [] then blank_in_place else blank_segments rest) seg ms)
            | _ \<Rightarrow> v))"

definition blank_path :: "string \<Rightarrow> json \<Rightarrow> json" where
  "blank_path path v = blank_segments (split_on (CHR ''.'') path) v"

text \<open>\<open>BTreeSet\<close> gives the paths in the order of their bytes.\<close>

definition mask_paths :: "string set \<Rightarrow> string list" where
  "mask_paths m = map (map char_of) (sorted_list_of_set ((map (of_char :: char \<Rightarrow> nat)) ` m))"

definition apply_mask :: "string set \<Rightarrow> json \<Rightarrow> json" where
  "apply_mask m v = foldl (\<lambda>v path. blank_path path v) v (mask_paths m)"

section \<open>Feedback\<close>

datatype public_feedback = FeedbackPending | FeedbackPublished feedback_result

text \<open>\<open>load\<close>: the feedback of submissions whose outcome is not released, or released with a result of its own.\<close>

definition load_feedback :: "i32 list \<Rightarrow> ('v, 'm, 'z, i32 \<rightharpoonup> public_feedback) viscall" where
  "load_feedback ids =
    (if ids = [] then hret Map.empty
     else hbind (app_query (\<lambda>d. filter (\<lambda>r. f_submission_id r \<in> set ids
              \<and> (f_outcome r \<noteq> OutcomeReleased \<or> f_public_result r \<noteq> None)) (p_feedback d)))
       (\<lambda>rows. hret (map_of (List.rev (map (\<lambda>r. (f_submission_id r,
          if f_outcome r \<noteq> OutcomeReleased then FeedbackPending
          else case f_public_result r of Some x \<Rightarrow> FeedbackPublished x | None \<Rightarrow> FeedbackPending)) rows)))))"

definition set_if_present :: "string \<Rightarrow> json \<Rightarrow> json \<Rightarrow> json" where
  "set_if_present key x v = (if json_get key v \<noteq> None then the (json_set key x v) else v)"

text \<open>The UTF-8 bytes of a text.\<close>

definition utf8_encode_char :: "nat \<Rightarrow> nat list" where
  "utf8_encode_char c =
    (if c < 128 then [c]
     else if c < 2048 then [192 + c div 64, 128 + c mod 64]
     else if c < 65536 then [224 + c div 4096, 128 + c div 64 mod 64, 128 + c mod 64]
     else [240 + c div 262144, 128 + c div 4096 mod 64, 128 + c div 64 mod 64, 128 + c mod 64])"

definition verdict_json :: "verdict \<Rightarrow> json" where
  "verdict_json v = JStr (map char_of (concat (map utf8_encode_char (verdict_display v))))"

text \<open>A number that is not finite has no JSON and becomes null.\<close>

definition number_json :: "f64 \<Rightarrow> json" where
  "number_json x = (if f64_is_finite x then JNum x else JNull)"

definition apply_public_result :: "feedback_result \<Rightarrow> json \<Rightarrow> json" where
  "apply_public_result r v =
    set_if_present ''score'' (number_json (res_score r)) (set_if_present ''verdict'' (verdict_json (res_verdict r)) v)"

fun is_object :: "json \<Rightarrow> bool" where
  "is_object (JObj _) = True"
| "is_object _ = False"

text \<open>\<open>project\<close>; absent when an assignment panics, on a value that is no object.\<close>

fun project :: "public_feedback \<Rightarrow> json \<Rightarrow> json option" where
  "project FeedbackPending v =
     map_option (\<lambda>v. foldl (\<lambda>v key. set_if_present key JNull v) (set_if_present ''result'' JNull v)
                   [''verdict'', ''score'', ''time_used'', ''memory_used'', ''judged_at''])
       (json_set ''status'' (JStr ''Running'') v)"
| "project (FeedbackPublished r) v =
     (let v1 = apply_public_result r v in
      Some (if is_object (json_index v1 ''result'')
            then the (json_set ''result'' (apply_public_result r (json_index v1 ''result'')) v1) else v1))"

section \<open>Long texts\<close>

definition DETAIL_TEXT_RESPONSE_LIMIT_BYTES :: nat where "DETAIL_TEXT_RESPONSE_LIMIT_BYTES = 65536"

text \<open>\<open>is_char_boundary\<close>: the start, the end, or a byte that does not continue a character.\<close>

definition is_char_boundary :: "string \<Rightarrow> nat \<Rightarrow> bool" where
  "is_char_boundary s i \<longleftrightarrow> i = 0 \<or> i = length s \<or>
    (i < length s \<and> \<not> (128 \<le> (of_char (s ! i) :: nat) \<and> (of_char (s ! i) :: nat) < 192))"

fun boundary_below :: "string \<Rightarrow> nat \<Rightarrow> nat" where
  "boundary_below s 0 = 0"
| "boundary_below s (Suc n) = (if is_char_boundary s (Suc n) then Suc n else boundary_below s n)"

definition cap_detail_text :: "string \<Rightarrow> string" where
  "cap_detail_text s =
    (if length s \<le> DETAIL_TEXT_RESPONSE_LIMIT_BYTES then s
     else take (boundary_below s DETAIL_TEXT_RESPONSE_LIMIT_BYTES) s)"

fun cap_string :: "json \<Rightarrow> json" where
  "cap_string (JStr s) = JStr (cap_detail_text s)"
| "cap_string v = v"

definition cap_fields :: "string list \<Rightarrow> (string \<times> json) list \<Rightarrow> (string \<times> json) list" where
  "cap_fields keys ms = foldl (\<lambda>ms key. update_member cap_string key ms) ms keys"

fun cap_test_case :: "json \<Rightarrow> json" where
  "cap_test_case (JObj ms) = JObj (cap_fields [''input'', ''expected_output'', ''stdout'', ''stderr'', ''checker_output''] ms)"
| "cap_test_case v = v"

fun cap_test_cases :: "json \<Rightarrow> json" where
  "cap_test_cases (JArr cases) = JArr (map cap_test_case cases)"
| "cap_test_cases v = v"

fun cap_result :: "json \<Rightarrow> json" where
  "cap_result (JObj ms) = JObj (update_member cap_test_cases ''test_case_results'' (cap_fields [''compile_output'', ''error_message''] ms))"
| "cap_result v = v"

fun cap_submission_detail_texts :: "json \<Rightarrow> json" where
  "cap_submission_detail_texts (JObj ms) = JObj (update_member cap_result ''result'' ms)"
| "cap_submission_detail_texts v = v"

section \<open>Visible entities\<close>

record 'e visible =
  vi_inner :: 'e
  vi_decision :: decision
  vi_feedback :: "public_feedback option"

datatype render_error = SerializeError rstr | Panicked

text \<open>\<open>into_masked_json\<close>; the serialization of the entity is a parameter and may fail.\<close>

definition into_masked_json :: "('e \<Rightarrow> rstr + json) \<Rightarrow> 'e visible \<Rightarrow> render_error + json" where
  "into_masked_json ser x =
    (case ser (vi_inner x) of
       Inl e \<Rightarrow> Inl (SerializeError e)
     | Inr value \<Rightarrow>
         (case (case vi_feedback x of None \<Rightarrow> Some value | Some fb \<Rightarrow> project fb value) of
            None \<Rightarrow> Inl Panicked
          | Some value \<Rightarrow>
              Inr (cap_submission_detail_texts
                (case vi_decision x of DRedact m \<Rightarrow> apply_mask m value | _ \<Rightarrow> value))))"

definition submission_feedback :: "subject \<Rightarrow> resource list \<Rightarrow> ('v, 'm, 'z, i32 \<rightharpoonup> public_feedback) viscall" where
  "submission_feedback s resources =
    (if sj_has s SUBMISSION_VIEW_ALL then hret Map.empty
     else load_feedback (List.map_filter submission_ref resources))"

definition feedback_of :: "(i32 \<rightharpoonup> public_feedback) \<Rightarrow> resource \<Rightarrow> public_feedback option" where
  "feedback_of fb r = Option.bind (submission_ref r) fb"

definition visible_of :: "(i32 \<rightharpoonup> public_feedback) \<Rightarrow> resource \<Rightarrow> 'e \<Rightarrow> decision \<Rightarrow> 'e visible option" where
  "visible_of fb r e dec =
    (if is_denied dec then None else Some \<lparr>vi_inner = e, vi_decision = dec, vi_feedback = feedback_of fb r\<rparr>)"

definition fetch_visible ::
    "('v, 'm, 'z) vis_db_scheme plugin_host \<Rightarrow> kernel \<Rightarrow> vaction \<Rightarrow> resource \<Rightarrow> 'e
      \<Rightarrow> ('v, 'm, 'z, 'e visible option \<times> kernel) viscall" where
  "fetch_visible ph k action r e =
    hbind (decide ph k action r) (\<lambda>(dec, k').
      hbind (if is_denied dec then hret Map.empty else submission_feedback (k_subject k) [r]) (\<lambda>fb.
        hret (visible_of fb r e dec, k')))"

definition fetch_visible_batch ::
    "('v, 'm, 'z) vis_db_scheme plugin_host \<Rightarrow> kernel \<Rightarrow> vaction \<Rightarrow> (resource \<times> 'e) list
      \<Rightarrow> ('v, 'm, 'z, 'e visible option list \<times> kernel) viscall" where
  "fetch_visible_batch ph k action items =
    hbind (decide_batch ph k action (map fst items)) (\<lambda>(decs, k').
      hbind (submission_feedback (k_subject k)
               (map fst (filter (\<lambda>(_, dec). \<not> is_denied dec) (zip (map fst items) decs)))) (\<lambda>fb.
        hret (map (\<lambda>((r, e), dec). visible_of fb r e dec) (zip items decs), k')))"

end
