(* ===== verification/VisibilityLaws.thy ===== *)
theory VisibilityLaws
  imports VisibilityKernel
begin

text \<open>
  What the visibility kernel guarantees: plugins narrow the host's decisions and never widen them,
  failures of a plugin deny, and one request sees one decision per resource.
\<close>

section \<open>The answers of the plugins\<close>

lemma length_decisions_from_output [simp]: "length (decisions_from_output out n) = n"
  by (simp add: decisions_from_output_def Let_def split: sum.split)

lemma length_meet_positionally [simp]: "length (meet_positionally xs ys) = min (length xs) (length ys)"
  by (simp add: meet_positionally_def)

lemma nth_meet_positionally:
  "i < length xs \<Longrightarrow> i < length ys \<Longrightarrow> meet_positionally xs ys ! i = inf (xs ! i) (ys ! i)"
  by (simp add: meet_positionally_def meet_inf)

lemma query_each_below:
  assumes "query_each ph input n qs combined st = (ds, st')" "length combined = n"
  shows "length ds = n \<and> (\<forall>i < n. ds ! i \<le> combined ! i)"
  using assms
proof (induction qs arbitrary: combined st)
  case (Cons q qs)
  obtain plugin_id func where q: "q = (plugin_id, func)" by force
  obtain out st1 where call: "ph_call ph plugin_id func input st = (out, st1)" by force
  let ?c = "meet_positionally combined (decisions_from_output out n)"
  from Cons.prems q call have "query_each ph input n qs ?c st1 = (ds, st')" by simp
  with Cons.IH [of ?c st1] Cons.prems(2) have "length ds = n \<and> (\<forall>i < n. ds ! i \<le> ?c ! i)" by simp
  with Cons.prems(2) show ?case by (auto simp: nth_meet_positionally)
qed simp

text \<open>An answer that is a failure or breaks the protocol for a batch of \<open>n\<close> resources.\<close>

definition broken_answer :: "nat \<Rightarrow> rstr + wire_decision list \<Rightarrow> bool" where
  "broken_answer n out \<longleftrightarrow>
    (case out of Inl _ \<Rightarrow> True | Inr ds \<Rightarrow> length ds \<noteq> n \<or> \<not> list_all well_formed ds)"

lemma broken_answer_denies: "broken_answer n out \<Longrightarrow> decisions_from_output out n = replicate n DDeny"
  by (auto simp: broken_answer_def decisions_from_output_def Let_def split: sum.splits)

lemma query_each_broken:
  assumes "query_each ph input n qs combined st = (ds, st')" "length combined = n" "(p, f) \<in> set qs"
    and "\<And>st. broken_answer n (fst (ph_call ph p f input st))"
  shows "ds = replicate n DDeny"
  using assms(1-3)
proof (induction qs arbitrary: combined st)
  case (Cons q qs)
  obtain plugin_id func where q: "q = (plugin_id, func)" by force
  obtain out st1 where call: "ph_call ph plugin_id func input st = (out, st1)" by force
  let ?c = "meet_positionally combined (decisions_from_output out n)"
  from Cons.prems q call have rest: "query_each ph input n qs ?c st1 = (ds, st')" by simp
  show ?case
  proof (cases "(p, f) = q")
    case True
    with q call assms(4) [of st] have "decisions_from_output out n = replicate n DDeny"
      by (simp add: broken_answer_denies)
    with Cons.prems(2) have "\<forall>i < n. ?c ! i = DDeny" by (auto simp: nth_meet_positionally simp flip: meet_inf)
      (metis (no_types) decision_le_simps(7) inf_le2 meet_inf)
    with query_each_below [OF rest] Cons.prems(2) show ?thesis by (intro nth_equalityI) auto
  next
    case False
    with Cons.IH [OF rest] Cons.prems(2,3) show ?thesis by auto
  qed
qed simp

lemma length_query_plugins:
  assumes "query_plugins ph s a c rs cs st = (ds, st')"
  shows "length ds = length rs"
  using assms query_each_below
  by (fastforce simp: query_plugins_def Let_def enforce_mask_cap_post_union_def split: if_splits option.splits prod.splits)

lemma query_plugins_broken:
  assumes "query_plugins ph s a c rs cs st = (ds, st')" "length cs = length rs"
    and reg: "ph_registry ph = Some registry" "(p, f) \<in> set (visibility_queriers registry)"
    and broken: "\<And>q st. broken_answer (length (vq_resources q)) (fst (ph_call ph p f q st))"
  shows "ds = replicate (length rs) DDeny"
proof (cases "rs = []")
  case False
  let ?q = "vis_query_of s a c rs cs"
  have len: "length (vq_resources ?q) = length rs" using assms(2) by (simp add: vis_query_of_def)
  from reg(2) have "visibility_queriers registry \<noteq> []" by auto
  with assms(1) False reg(1) obtain combined where
    q: "query_each ph ?q (length rs) (visibility_queriers registry) (map (\<lambda>_. DAllow) rs) st = (combined, st')"
    and ds: "ds = enforce_mask_cap_post_union combined"
    by (auto simp: query_plugins_def split: prod.splits)
  from query_each_broken [OF q _ reg(2)] broken [of ?q] len have "combined = replicate (length rs) DDeny" by simp
  with ds show ?thesis by (simp add: enforce_mask_cap_post_union_def)
qed (use assms(1) in \<open>simp add: query_plugins_def\<close>)

section \<open>Writing the answers back\<close>

lemma length_write_back [simp]: "length (write_back ds answers) = length ds"
proof -
  have "length (foldl (\<lambda>ds (i, p). ds[i := meet (ds ! i) p]) ds answers) = length ds"
    by (induction answers arbitrary: ds) auto
  then show ?thesis by (simp add: write_back_def)
qed

lemma write_back_Cons: "write_back ds ((i, p) # answers) = write_back (ds[i := meet (ds ! i) p]) answers"
  by (simp add: write_back_def)

lemma write_back_below: "j < length ds \<Longrightarrow> write_back ds answers ! j \<le> ds ! j"
proof (induction answers arbitrary: ds)
  case (Cons a answers)
  obtain i p where a: "a = (i, p)" by force
  have "write_back (ds[i := meet (ds ! i) p]) answers ! j \<le> ds[i := meet (ds ! i) p] ! j"
    using Cons.IH [of "ds[i := meet (ds ! i) p]"] Cons.prems by simp
  also have "\<dots> \<le> ds ! j" using Cons.prems by (cases "i = j") (simp_all add: meet_inf)
  finally show ?case by (simp add: a write_back_Cons)
qed (simp add: write_back_def)

lemma write_back_denies:
  assumes "j < length ds" "(j, DDeny) \<in> set answers"
  shows "write_back ds answers ! j = DDeny"
  using assms
proof (induction answers arbitrary: ds)
  case (Cons a answers)
  obtain i p where a: "a = (i, p)" by force
  show ?case
  proof (cases "a = (j, DDeny)")
    case True
    have "write_back (ds[j := DDeny]) answers ! j \<le> DDeny"
      using write_back_below [of j "ds[j := DDeny]" answers] Cons.prems(1) by simp
    moreover have "meet x DDeny = DDeny" for x by (cases x) simp_all
    ultimately show ?thesis using True by (simp add: write_back_Cons)
  next
    case False
    with Cons.prems have "(j, DDeny) \<in> set answers" by auto
    with Cons.IH [of "ds[i := meet (ds ! i) p]"] Cons.prems(1) show ?thesis by (simp add: a write_back_Cons)
  qed
qed simp

section \<open>The misses\<close>

lemma decide_misses_answers:
  assumes "decide_misses ph s a misses d = (Inr ds, d')"
  obtains hs sm cm d1 where "host_decide s misses d = (Inr (hs, sm, cm), d1)" "sj_admin_override s" "ds = hs" "d' = d1"
  | hs sm cm d1 idx targets pds where "host_decide s misses d = (Inr (hs, sm, cm), d1)" "\<not> sj_admin_override s"
      "idx = filter (\<lambda>i. \<not> is_denied (hs ! i)) [0..<length hs]" "targets = map (\<lambda>i. misses ! i) idx"
      "query_plugins ph s a (contest_scope targets) targets (map (resource_contest_id sm cm) targets) d1 = (pds, d')"
      "ds = write_back hs (zip idx pds)"
proof -
  from assms obtain hs sm cm d1 where host: "host_decide s misses d = (Inr (hs, sm, cm), d1)"
    by (auto simp: decide_misses_def hbind_Inr)
  define idx where "idx = filter (\<lambda>i. \<not> is_denied (hs ! i)) [0..<length hs]"
  define targets where "targets = map (\<lambda>i. misses ! i) idx"
  let ?q = "query_plugins ph s a (contest_scope targets) targets (map (resource_contest_id sm cm) targets) d1"
  have run: "(if sj_admin_override s then (Inr hs, d1) else if targets = [] then (Inr hs, d1)
      else case ?q of (pds, d') \<Rightarrow> (Inr (write_back hs (zip idx pds)), d')) = (Inr ds :: app_error + decision list, d')"
    using assms host by (simp add: decide_misses_def hbind_def hret_def Let_def idx_def targets_def split: if_splits)
  show ?thesis
  proof (cases "sj_admin_override s")
    case True
    with run that(1) [OF host] show ?thesis by simp
  next
    case False
    show ?thesis
    proof (cases "targets = []")
      case True
      then have "?q = ([], d1)" "idx = []" by (simp_all add: query_plugins_def targets_def)
      with run True False that(2) [OF host False idx_def targets_def, of "[]"] show ?thesis by (simp add: write_back_def)
    next
      case ne: False
      obtain pds d2 where q: "?q = (pds, d2)" by force
      with run ne False that(2) [OF host False idx_def targets_def, of pds] show ?thesis by simp
    qed
  qed
qed

lemma decide_misses_below:
  assumes "decide_misses ph s a misses d = (Inr ds, d')"
  shows "length ds = length misses \<and> (\<forall>i < length misses. ds ! i \<le> host_rule s d (misses ! i))"
  using assms
proof (cases rule: decide_misses_answers)
  case (1 hs sm cm d1)
  with host_decide_rules [OF 1(1)] show ?thesis by simp
next
  case (2 hs sm cm d1 idx targets pds)
  note hs = host_decide_rules [OF 2(1)]
  have "ds ! i \<le> hs ! i" if "i < length hs" for i using write_back_below [OF that] 2(6) by simp
  with hs 2(6) show ?thesis by simp
qed

lemma decide_misses_broken:
  assumes run: "decide_misses ph s a misses d = (Inr ds, d')" and "\<not> sj_admin_override s"
    and reg: "ph_registry ph = Some registry" "(p, f) \<in> set (visibility_queriers registry)"
    and broken: "\<And>q st. broken_answer (length (vq_resources q)) (fst (ph_call ph p f q st))"
  shows "ds = replicate (length misses) DDeny"
  using run
proof (cases rule: decide_misses_answers)
  case (2 hs sm cm d1 idx targets pds)
  have len: "length hs = length misses" using host_decide_rules [OF 2(1)] by simp
  have pds: "pds = replicate (length idx) DDeny"
    using query_plugins_broken [OF 2(5) _ reg broken] 2(4) by simp
  have "ds ! i = DDeny" if i: "i < length hs" for i
  proof (cases "i \<in> set idx")
    case True
    then have "(i, DDeny) \<in> set (zip idx pds)"
      unfolding pds by (auto simp: in_set_zip in_set_conv_nth)
    with i 2(6) show ?thesis by (simp add: write_back_denies)
  next
    case False
    then have "hs ! i = DDeny" using i 2(3) by (auto simp: is_denied_def)
    with write_back_below [OF i, of "zip idx pds"] 2(6) show ?thesis by simp
  qed
  with 2(6) len show ?thesis by (intro nth_equalityI) auto
qed (use assms(2) in simp)

lemma query_plugins_none:
  assumes "ph_registry ph = Some registry" "visibility_queriers registry = []"
  shows "query_plugins ph s a c rs cs st = (map (\<lambda>_. DAllow) rs, st)"
  using assms by (simp add: query_plugins_def)

lemma write_back_allow: "list_all (\<lambda>(i, p). i < length ds \<and> p = DAllow) answers \<Longrightarrow> write_back ds answers = ds"
proof (induction answers)
  case (Cons a answers)
  obtain i p where a: "a = (i, p)" by force
  have "meet x DAllow = x" for x by (cases x) simp_all
  with Cons a show ?case by (simp add: write_back_Cons)
qed (simp add: write_back_def)

lemma decide_misses_unrestricted:
  assumes run: "decide_misses ph s a misses d = (Inr ds, d')"
    and reg: "ph_registry ph = Some registry" "visibility_queriers registry = []"
  shows "ds = map (host_rule s d) misses"
  using run
proof (cases rule: decide_misses_answers)
  case (1 hs sm cm d1)
  with host_decide_rules [OF 1(1)] show ?thesis by simp
next
  case (2 hs sm cm d1 idx targets pds)
  have "pds = map (\<lambda>_. DAllow) targets" using 2(5) by (simp add: query_plugins_none [OF reg])
  then have "list_all (\<lambda>(i, p). i < length hs \<and> p = DAllow) (zip idx pds)"
    using 2(3) by (auto simp: list_all_iff dest: set_zip_leftD set_zip_rightD)
  then have "write_back hs (zip idx pds) = hs" by (rule write_back_allow)
  with host_decide_rules [OF 2(1)] 2(6) show ?thesis by simp
qed

section \<open>Batches and the memo\<close>

lemma first_seen_props: "distinct (first_seen xs) \<and> set (first_seen xs) = set xs"
proof -
  have "distinct (foldl (\<lambda>seen x. if x \<in> set seen then seen else x # seen) acc xs) \<and>
      set (foldl (\<lambda>seen x. if x \<in> set seen then seen else x # seen) acc xs) = set acc \<union> set xs" if "distinct acc" for acc
    using that by (induction xs arbitrary: acc) auto
  then show ?thesis by (simp add: first_seen_def)
qed

lemma foldl_memo:
  assumes "distinct rs" "length ds = length rs"
  shows "foldl (\<lambda>m (r, d). m((a, r) \<mapsto> d)) m (zip rs ds) (b, x) =
    (if b = a \<and> x \<in> set rs then map_of (zip rs ds) x else m (b, x))"
  using assms
proof (induction rs arbitrary: ds m)
  case (Cons r rs)
  then obtain d ds' where ds: "ds = d # ds'" "length ds' = length rs" by (cases ds) auto
  from Cons.IH [OF _ ds(2), of "m((a, r) \<mapsto> d)"] Cons.prems(1) ds show ?case by auto
qed simp

definition batch_misses :: "kernel \<Rightarrow> vaction \<Rightarrow> resource list \<Rightarrow> resource list" where
  "batch_misses k a rs = filter (\<lambda>r. k_memo k (a, r) = None) (first_seen rs)"

lemma batch_misses_props: "distinct (batch_misses k a rs)" "set (batch_misses k a rs) = {r \<in> set rs. k_memo k (a, r) = None}"
  using first_seen_props [of rs] by (auto simp: batch_misses_def)

text \<open>A batch keeps the memo, adds the decisions of the misses, and answers from it.\<close>

lemma decide_batch_memo:
  assumes "decide_batch ph k a rs d = (Inr (ds, k'), d')"
  shows "k_subject k' = k_subject k \<and> k_memo k \<subseteq>\<^sub>m k_memo k' \<and>
    (\<forall>r \<in> set rs. k_memo k' (a, r) \<noteq> None) \<and> ds = map (\<lambda>r. the (k_memo k' (a, r))) rs \<and>
    (batch_misses k a rs = [] \<or> (\<exists>ms. decide_misses ph (k_subject k) a (batch_misses k a rs) d = (Inr ms, d') \<and>
      (\<forall>i < length (batch_misses k a rs). k_memo k' (a, batch_misses k a rs ! i) = Some (ms ! i))))"
proof (cases "rs = []")
  case True
  then have "batch_misses k a rs = []" using batch_misses_props(2) [of k a rs] by auto
  with True assms show ?thesis by (auto simp: decide_batch_def hret_def map_le_def)
next
  case False
  show ?thesis
  proof (cases "batch_misses k a rs = []")
    case True
    with assms False have "k' = k" "ds = map (\<lambda>r. the (k_memo k (a, r))) rs"
      by (auto simp: decide_batch_def hret_def hbind_def Let_def simp flip: batch_misses_def)
    moreover from True have "\<forall>r \<in> set rs. k_memo k (a, r) \<noteq> None" using batch_misses_props(2) [of k a rs] by auto
    ultimately show ?thesis using True by (simp add: map_le_def)
  next
    case ne: False
    let ?ms = "batch_misses k a rs"
    from assms False ne obtain ms where run: "decide_misses ph (k_subject k) a ?ms d = (Inr ms, d')"
      and k': "k' = k\<lparr>k_memo := foldl (\<lambda>m (r, d). m((a, r) \<mapsto> d)) (k_memo k) (zip ?ms ms)\<rparr>"
      and ds: "ds = map (\<lambda>r. the (k_memo k' (a, r))) rs"
      by (auto simp: decide_batch_def hret_def hbind_Inr Let_def simp flip: batch_misses_def)
    have len: "length ms = length ?ms" using decide_misses_below [OF run] by simp
    note memo = foldl_memo [OF batch_misses_props(1) len, of a "k_memo k"]
    have at: "k_memo k' (a, ?ms ! i) = Some (ms ! i)" if "i < length ?ms" for i
      using that len batch_misses_props(1) [of k a rs] by (simp add: k' memo map_of_zip_nth)
    moreover have "k_memo k \<subseteq>\<^sub>m k_memo k'"
      using batch_misses_props(2) [of k a rs] by (auto simp: map_le_def k' memo)
    moreover have "k_memo k' (a, r) \<noteq> None" if "r \<in> set rs" for r
    proof (cases "r \<in> set ?ms")
      case True
      then obtain i where "i < length ?ms" "?ms ! i = r" by (auto simp: in_set_conv_nth)
      with at [of i] show ?thesis by simp
    next
      case False
      with that batch_misses_props(2) [of k a rs] show ?thesis by (auto simp: k' memo)
    qed
    ultimately show ?thesis using run ds k' by auto
  qed
qed

lemma fresh_answers:
  assumes "decide_batch ph (kernel_new s) a rs d = (Inr (ds, k'), d')" "i < length rs"
  obtains ms j where "decide_misses ph s a (batch_misses (kernel_new s) a rs) d = (Inr ms, d')"
    "j < length (batch_misses (kernel_new s) a rs)" "batch_misses (kernel_new s) a rs ! j = rs ! i" "ds ! i = ms ! j"
proof -
  let ?b = "batch_misses (kernel_new s) a rs"
  have "set ?b = set rs" using batch_misses_props(2) [of "kernel_new s" a rs] by (simp add: kernel_new_def)
  with assms(2) have "rs ! i \<in> set ?b" by simp
  then obtain j where j: "j < length ?b" "?b ! j = rs ! i" by (auto simp: in_set_conv_nth)
  with decide_batch_memo [OF assms(1)] obtain ms where ms: "decide_misses ph s a ?b d = (Inr ms, d')"
    "k_memo k' (a, ?b ! j) = Some (ms ! j)" "ds = map (\<lambda>r. the (k_memo k' (a, r))) rs"
    by (auto simp: kernel_new_def)
  with assms(2) j that [OF ms(1) j] show ?thesis by simp
qed

text \<open>
  The states a kernel goes through in one request: batches it answers, and anything others do to
  the database in between.
\<close>

inductive kernel_step :: "kernel \<times> ('v, 'm, 'z) vis_db_scheme \<Rightarrow> kernel \<times> ('v, 'm, 'z) vis_db_scheme \<Rightarrow> bool" where
  batch: "decide_batch ph k a rs d = (Inr (ds, k'), d') \<Longrightarrow> kernel_step (k, d) (k', d')"
| other: "kernel_step (k, d) (k, d')"

lemma kernel_run_memo: "kernel_step\<^sup>*\<^sup>* x y \<Longrightarrow> k_memo (fst x) \<subseteq>\<^sub>m k_memo (fst y)"
proof (induction rule: rtranclp_induct)
  case (step y z)
  from step.hyps(2) have "k_memo (fst y) \<subseteq>\<^sub>m k_memo (fst z)"
    by cases (auto dest: decide_batch_memo)
  with step.IH show ?case by (rule map_le_trans)
qed simp

end
