(* ===== verification/JsonLaws.thy ===== *)
theory JsonLaws
  imports JsonMask VisibilityLaws
begin

text \<open>
  Masking and cutting only take away: the value that leaves shows no more than the value it was
  made of, and nothing at the paths of the mask.
\<close>

section \<open>Values that show less\<close>

inductive reduced :: "json \<Rightarrow> json \<Rightarrow> bool" where
  red_refl: "reduced v v"
| red_null: "reduced v JNull"
| red_empty: "reduced (JArr xs) (JArr [])"
| red_text: "reduced (JStr s) (JStr (take n s))"
| red_arr: "list_all2 reduced xs ys \<Longrightarrow> reduced (JArr xs) (JArr ys)"
| red_obj: "list_all2 (\<lambda>a b. fst a = fst b \<and> reduced (snd a) (snd b)) ms ns \<Longrightarrow> reduced (JObj ms) (JObj ns)"

inductive_cases reduced_nullE: "reduced JNull w"
inductive_cases reduced_arrE: "reduced (JArr xs) w"
inductive_cases reduced_to_arrE: "reduced v (JArr ys)"
inductive_cases reduced_to_objE: "reduced v (JObj ns)"

inductive_cases reduced_strE: "reduced (JStr s) w"
inductive_cases reduced_objE: "reduced (JObj ms) w"

lemma reduced_trans: "reduced u v \<Longrightarrow> reduced v w \<Longrightarrow> reduced u w"
proof (induction arbitrary: w rule: reduced.induct)
  case (red_refl v)
  then show ?case .
next
  case (red_null v)
  then show ?case by (auto elim: reduced_nullE intro: reduced.intros)
next
  case (red_empty xs)
  then show ?case by (auto elim: reduced_arrE intro: reduced.intros)
next
  case (red_text s n)
  from red_text.prems show ?case by (rule reduced_strE) (auto intro: reduced.intros)
next
  case (red_arr xs ys)
  from red_arr.prems show ?case
  proof (rule reduced_arrE)
    fix zs
    assume w: "w = JArr zs" and "list_all2 reduced ys zs"
    with red_arr.IH have "list_all2 reduced xs zs" by (rule_tac list_all2_trans [rotated]) (assumption | blast)+
    with w show ?thesis by (simp add: reduced.red_arr)
  qed (use red_arr.IH in \<open>auto intro!: reduced.intros elim: list_all2_mono\<close>)
next
  case (red_obj ms ns)
  from red_obj.prems show ?case
  proof (rule reduced_objE)
    fix os
    assume w: "w = JObj os" and "list_all2 (\<lambda>a b. fst a = fst b \<and> reduced (snd a) (snd b)) ns os"
    with red_obj.IH have "list_all2 (\<lambda>a b. fst a = fst b \<and> reduced (snd a) (snd b)) ms os"
      by (rule_tac list_all2_trans [rotated]) (assumption | force)+
    with w show ?thesis by (simp add: reduced.red_obj)
  qed (use red_obj.IH in \<open>auto intro!: reduced.intros elim: list_all2_mono\<close>)
qed

definition blank :: "json \<Rightarrow> bool" where
  "blank v \<longleftrightarrow> v = JNull \<or> v = JArr []"

lemma reduced_blank: "reduced v w \<Longrightarrow> blank v \<Longrightarrow> blank w"
  by (auto simp: blank_def elim: reduced_nullE reduced_arrE)

text \<open>The values a path leads to; a star stands for every element of an array.\<close>

fun json_at :: "string list \<Rightarrow> json \<Rightarrow> json list" where
  "json_at [] v = [v]"
| "json_at (seg # rest) v =
     (if seg = ''*'' then (case v of JArr es \<Rightarrow> concat (map (json_at rest) es) | _ \<Rightarrow> [])
      else (case json_get seg v of Some x \<Rightarrow> json_at rest x | None \<Rightarrow> []))"

lemma reduced_get:
  assumes "reduced v w" "json_get key w = Some y"
  shows "\<exists>x. json_get key v = Some x \<and> reduced x y"
proof -
  from assms(2) obtain ns where w: "w = JObj ns" "map_of ns key = Some y" by (cases w) auto
  from assms(1) w(1) consider "v = JObj ns" |
      ms where "v = JObj ms" "list_all2 (\<lambda>a b. fst a = fst b \<and> reduced (snd a) (snd b)) ms ns"
    by (auto elim: reduced_to_objE)
  then show ?thesis
  proof cases
    case 1
    with w show ?thesis by (auto intro: red_refl)
  next
    case 2
    from 2(2) w(2) have "\<exists>x. map_of ms key = Some x \<and> reduced x y"
    proof (induction ms ns rule: list_all2_induct)
      case (Cons a ms b ns)
      obtain k x l z where ab: "a = (k, x)" "b = (l, z)" by (metis prod.exhaust)
      with Cons show ?case by (cases "l = key") auto
    qed simp
    with 2(1) show ?thesis by simp
  qed
qed

lemma reduced_elements:
  assumes "reduced v (JArr ys)" "y \<in> set ys"
  shows "\<exists>xs x. v = JArr xs \<and> x \<in> set xs \<and> reduced x y"
proof -
  from assms consider "v = JArr ys" | xs where "v = JArr xs" "list_all2 reduced xs ys"
    by (auto elim: reduced_to_arrE)
  then show ?thesis
  proof cases
    case 1
    with assms(2) show ?thesis by (auto intro: red_refl)
  next
    case 2
    from 2(2) assms(2) have "\<exists>x \<in> set xs. reduced x y"
      by (metis in_set_conv_nth list_all2_conv_all_nth)
    with 2 show ?thesis by blast
  qed
qed

lemma reduced_at:
  assumes "reduced v w" "y \<in> set (json_at p w)"
  shows "\<exists>x \<in> set (json_at p v). reduced x y"
  using assms
proof (induction p arbitrary: v w)
  case (Cons seg rest)
  show ?case
  proof (cases "seg = ''*''")
    case True
    with Cons.prems(2) obtain ys z where w: "w = JArr ys" "z \<in> set ys" "y \<in> set (json_at rest z)"
      by (cases w) auto
    from reduced_elements [OF Cons.prems(1) [unfolded w(1)] w(2)] obtain xs x where
      "v = JArr xs" "x \<in> set xs" "reduced x z" by blast
    with Cons.IH [OF \<open>reduced x z\<close> w(3)] True show ?thesis by auto
  next
    case False
    with Cons.prems(2) obtain z where z: "json_get seg w = Some z" "y \<in> set (json_at rest z)"
      by (cases "json_get seg w") auto
    from reduced_get [OF Cons.prems(1) z(1)] obtain x where "json_get seg v = Some x" "reduced x z" by blast
    with Cons.IH [OF \<open>reduced x z\<close> z(2)] False show ?thesis by auto
  qed
qed auto

lemma reduced_keeps_blank:
  assumes "\<forall>x \<in> set (json_at p v). blank x" "reduced v w"
  shows "\<forall>y \<in> set (json_at p w). blank y"
  using reduced_at [OF assms(2)] assms(1) reduced_blank by blast

section \<open>Blanking\<close>

lemma reduced_blank_in_place: "reduced v (blank_in_place v)"
  by (cases v) (auto intro: reduced.intros)

lemma update_member_reduced:
  assumes "\<And>v. reduced v (f v)"
  shows "list_all2 (\<lambda>a b. fst a = fst b \<and> reduced (snd a) (snd b)) ms (update_member f key ms)"
proof (induction ms)
  case (Cons m ms)
  obtain k v where "m = (k, v)" by force
  with Cons assms show ?case by (auto intro: red_refl intro!: list_all2_refl)
qed simp

lemma reduced_update_member: "(\<And>v. reduced v (f v)) \<Longrightarrow> reduced (JObj ms) (JObj (update_member f key ms))"
  by (rule red_obj [OF update_member_reduced])

lemma map_of_update_member: "map_of (update_member f key ms) k = (if k = key then map_option f (map_of ms k) else map_of ms k)"
  by (induction ms) auto

lemma reduced_map: "(\<And>v. reduced v (f v)) \<Longrightarrow> reduced (JArr xs) (JArr (map f xs))"
  by (rule red_arr) (simp add: list_all2_conv_all_nth)

lemma blank_segments_reduced: "reduced v (blank_segments segs v)"
proof (induction segs arbitrary: v)
  case (Cons seg rest)
  let ?f = "if rest = [] then blank_in_place else blank_segments rest"
  have f: "reduced v (?f v)" for v using Cons reduced_blank_in_place by simp
  show ?case
  proof (cases "seg = ''*''")
    case True
    then show ?thesis using f by (cases v) (auto intro: red_refl reduced_map)
  next
    case False
    then show ?thesis using f by (cases v) (auto intro: red_refl reduced_update_member)
  qed
qed (simp add: red_refl)

lemma blank_blank_in_place: "blank (blank_in_place v)"
  by (cases v) (simp_all add: blank_def)

lemma blank_segments_blanks: "segs \<noteq> [] \<Longrightarrow> \<forall>x \<in> set (json_at segs (blank_segments segs v)). blank x"
proof (induction segs arbitrary: v)
  case (Cons seg rest)
  let ?f = "if rest = [] then blank_in_place else blank_segments rest"
  have f: "\<forall>x \<in> set (json_at rest (?f v)). blank x" for v
    using Cons.IH blank_blank_in_place by (cases "rest = []") auto
  show ?case
  proof (cases "seg = ''*''")
    case True
    then show ?thesis using f by (cases v) auto
  next
    case False
    then show ?thesis using f by (cases v) (auto simp: map_of_update_member split: option.splits)
  qed
qed simp

lemma mask_paths_set: "finite m \<Longrightarrow> set (mask_paths m) = m"
  by (simp add: mask_paths_def image_image comp_def)

lemma reduced_trans_blanks:
  assumes "\<forall>x \<in> set (json_at q v). blank x"
  shows "\<forall>x \<in> set (json_at q (foldl (\<lambda>v path. blank_path path v) v ps)). blank x"
  using assms
proof (induction ps arbitrary: v)
  case (Cons p ps)
  have "\<forall>x \<in> set (json_at q (blank_path p v)). blank x"
    by (rule reduced_keeps_blank [OF Cons.prems]) (simp add: blank_path_def blank_segments_reduced)
  from Cons.IH [OF this] show ?case by simp
qed simp

lemma foldl_blanks:
  "p \<in> set ps \<Longrightarrow> \<forall>x \<in> set (json_at (split_on (CHR ''.'') p) (foldl (\<lambda>v path. blank_path path v) v ps)). blank x"
proof (induction ps arbitrary: v)
  case (Cons q ps)
  show ?case
  proof (cases "p = q")
    case True
    have "\<forall>x \<in> set (json_at (split_on (CHR ''.'') p) (blank_path p v)). blank x"
      unfolding blank_path_def by (rule blank_segments_blanks [OF split_on_ne])
    from reduced_trans_blanks [OF this] True show ?thesis by simp
  next
    case False
    with Cons show ?thesis by simp
  qed
qed simp

section \<open>Cutting\<close>

lemma cap_string_reduced: "reduced v (cap_string v)"
  by (cases v) (auto simp: cap_detail_text_def intro: red_refl red_text)

lemma cap_fields_reduced: "reduced (JObj ms) (JObj (cap_fields keys ms))"
proof (induction keys arbitrary: ms)
  case Nil
  show ?case by (simp add: cap_fields_def red_refl)
next
  case (Cons key keys)
  have "reduced (JObj ms) (JObj (update_member cap_string key ms))"
    by (rule reduced_update_member) (rule cap_string_reduced)
  with Cons [of "update_member cap_string key ms"] show ?case
    by (auto simp: cap_fields_def intro: reduced_trans)
qed

lemma cap_test_cases_reduced: "reduced v (cap_test_cases v)"
proof (cases v)
  case (JArr xs)
  have "reduced x (cap_test_case x)" for x
  proof (cases x)
    case (JObj ms)
    then show ?thesis using cap_fields_reduced by simp
  qed (auto intro: red_refl)
  with JArr show ?thesis by (simp add: reduced_map)
qed (auto intro: red_refl)

lemma cap_result_reduced: "reduced v (cap_result v)"
proof (cases v)
  case (JObj ms)
  have "reduced (JObj (cap_fields ks ms)) (JObj (update_member cap_test_cases k (cap_fields ks ms)))" for ks k
    by (rule reduced_update_member) (rule cap_test_cases_reduced)
  with JObj show ?thesis by (auto intro: reduced_trans [OF cap_fields_reduced])
qed (auto intro: red_refl)

lemma cap_submission_reduced: "reduced v (cap_submission_detail_texts v)"
proof (cases v)
  case (JObj ms)
  then show ?thesis by (auto intro: reduced_update_member cap_result_reduced)
qed (auto intro: red_refl)

lemma apply_mask_reduced: "reduced v (apply_mask m v)"
proof -
  have "reduced v (foldl (\<lambda>v path. blank_path path v) v ps)" for ps
  proof (induction ps arbitrary: v)
    case (Cons p ps)
    have "reduced v (blank_path p v)" by (simp add: blank_path_def blank_segments_reduced)
    with Cons show ?case by (auto intro: reduced_trans)
  qed (simp add: red_refl)
  then show ?thesis by (simp add: apply_mask_def)
qed

lemma apply_mask_blanks:
  assumes "finite m" "p \<in> m"
  shows "\<forall>x \<in> set (json_at (split_on (CHR ''.'') p) (apply_mask m v)). blank x"
  unfolding apply_mask_def by (rule foldl_blanks) (use assms mask_paths_set in blast)

end
