(* ===== verification/VisibilityClaims.thy ===== *)
theory VisibilityClaims
  imports JsonLaws
begin

text \<open>
  The claims about the visibility kernel and what it renders, and how the access rule the plugins
  use relates to it.
\<close>

section \<open>A small site\<close>

definition sample_contest :: contest_row where
  "sample_contest = \<lparr>ct_id = 5, ct_contest_type = Some ''icpc'', ct_is_public = True, ct_activate_time = Some 0,
     ct_deactivate_time = None, ct_start_time = 0, ct_end_time = 1000, ct_submissions_visible = True, ct_deleted_at = None\<rparr>"

definition sample_vis_sub :: submission_row where
  "sample_vis_sub = \<lparr>s_id = 1, s_user_id = 7, s_problem_id = 3, s_contest_id = Some 5,
     s_language = lit ''cpp'', s_mode = lit ''Submit'', s_created_at = 0, s_judge_epoch = 1,
     s_cols = \<lparr>c_status = Judged, c_verdict = None, c_score = None, c_time_used = None,
       c_memory_used = None, c_compile_output = None, c_error_code = None, c_error_message = None\<rparr>, s_judged_at = None\<rparr>"

definition sample_site :: "(unit, unit) vis_db" where
  "sample_site = \<lparr>db_submissions = [sample_vis_sub], db_judgements = [], db_results = [], db_faults = [], db_now = 100,
     h_contests = [sample_contest], h_contest_users = [(5, \<lparr>ui_user_id = 8, ui_username = lit ''b'', ui_display_name = None\<rparr>)],
     h_contest_problems = [], h_entries = [], p_feedback = [], p_timers = [], p_representable = (\<lambda>_. True),
     v_problems = [], v_clarifications = [], v_replies = []\<rparr>"

text \<open>A host with one visibility plugin that gives the same answer to every query.\<close>

definition one_plugin :: "(rstr + wire_decision list) \<Rightarrow> (unit, unit) vis_db plugin_host" where
  "one_plugin out = \<lparr>ph_registry = Some [\<lparr>pe_id = ''p'', pe_status = Loaded, pe_queries = Some [(''visibility'', ''f'')]\<rparr>],
     ph_call = (\<lambda>_ _ _ d. (out, d))\<rparr>"

lemmas site_defs = sample_site_def sample_contest_def sample_vis_sub_def one_plugin_def

lemmas kernel_eval = decide_batch_def kernel_new_def first_seen_def decide_misses_def host_decide_def Let_def
  map_filter_simps fetch_def app_query_def db_query_def hbind_def hret_def needs_contest_check_def fetch_members_def
  by_key_def decide_contest_def decide_submission_def check_contest_access_decision_def window_is_closed_def sj_has_def
  is_denied_def query_plugins_def visibility_queriers_def decisions_from_output_def meet_positionally_def
  enforce_mask_cap_post_union_def write_back_def contest_scope_def vis_query_of_def validate_redact_fields_def
  from_auth_user_def

lemma sample_batch:
  "\<exists>k. decide_batch (one_plugin (Inr [Redact [''result.verdict'']])) (kernel_new (from_auth_user 8 [])) VRead [RSubmission 1] sample_site
     = (Inr ([DRedact {''result.verdict''}], k), sample_site)"
  by (simp add: kernel_eval site_defs MAX_MASK_FIELDS_def MAX_MASK_PATH_BYTES_def MAX_MASK_PATH_SEGMENTS_def)

section \<open>Decisions\<close>

text \<open>
  C29: the decisions of a new kernel for a batch are one per resource, each at most what the host's
  rules say of that resource on its own, looked up in the whole tables: plugins, whatever they
  answer, only narrow. Where no visibility plugin is loaded they are exactly the host's.
\<close>

theorem kernel_only_narrows:
  assumes "decide_batch ph (kernel_new s) a rs d = (Inr (ds, k'), d')"
  shows "length ds = length rs \<and> (\<forall>i < length rs. ds ! i \<le> host_rule s d (rs ! i)) \<and>
    (\<forall>registry. ph_registry ph = Some registry \<and> visibility_queriers registry = [] \<longrightarrow> ds = map (host_rule s d) rs)"
proof -
  have len: "length ds = length rs" using decide_batch_memo [OF assms] by simp
  have le: "ds ! i \<le> host_rule s d (rs ! i)" if "i < length rs" for i
    using assms that by (rule fresh_answers) (use decide_misses_below in metis)
  have eq: "ds = map (host_rule s d) rs" if "ph_registry ph = Some registry" "visibility_queriers registry = []" for registry
  proof (rule nth_equalityI)
    fix i
    assume "i < length ds"
    then have i: "i < length rs" using len by simp
    obtain ms j where "decide_misses ph s a (batch_misses (kernel_new s) a rs) d = (Inr ms, d')"
        "j < length (batch_misses (kernel_new s) a rs)" "batch_misses (kernel_new s) a rs ! j = rs ! i" "ds ! i = ms ! j"
      by (rule fresh_answers [OF assms i])
    with decide_misses_unrestricted [OF this(1) that] i show "ds ! i = map (host_rule s d) rs ! i" by simp
  qed (simp add: len)
  show ?thesis using len le eq by blast
qed

theorem kernel_only_narrows_witness:
  "DRedact {''result.verdict''} \<le> host_rule (from_auth_user 8 []) sample_site (RSubmission 1)"
proof -
  obtain k where "decide_batch (one_plugin (Inr [Redact [''result.verdict'']])) (kernel_new (from_auth_user 8 [])) VRead [RSubmission 1] sample_site
     = (Inr ([DRedact {''result.verdict''}], k), sample_site)"
    using sample_batch by blast
  from kernel_only_narrows [OF this] show ?thesis by simp
qed

lemma host_rule_submission:
  assumes "host_rule s d (RSubmission x) \<noteq> DDeny" "\<not> sj_admin_override s"
  shows "\<exists>sub \<in> set (db_submissions d). s_id sub = x \<and>
    (sj_has s SUBMISSION_VIEW_ALL \<or> sj_user_id s = Some (s_user_id sub) \<or>
     (\<exists>c \<in> set (h_contests d). s_contest_id sub = Some (ct_id c) \<and> ct_deleted_at c = None \<and> ct_submissions_visible c \<and>
       (sj_has s CONTEST_MANAGE \<or> \<not> window_is_closed c (db_now d)) \<and>
       (\<exists>u. (ct_id c, u) \<in> set (h_contest_users d) \<and> sj_user_id s = Some (ui_user_id u))))"
proof -
  let ?t = "full_tables s d"
  from assms have dec: "decide_submission s (db_now d) x ?t \<noteq> DDeny" by (simp add: host_rule_def)
  then obtain sub where sub: "ht_submissions ?t x = Some sub"
    by (cases "ht_submissions ?t x") (auto simp: decide_submission_def)
  then have mem: "sub \<in> set (db_submissions d)" "s_id sub = x" by (auto simp: full_tables_def dest: by_key_Some)
  show ?thesis
  proof (cases "sj_has s SUBMISSION_VIEW_ALL \<or> sj_user_id s = Some (s_user_id sub)")
    case True
    with mem show ?thesis by blast
  next
    case False
    with dec sub obtain cid c where c: "s_contest_id sub = Some cid" "ht_contests ?t cid = Some c"
      and ok: "\<not> is_denied (check_contest_access_decision s c (db_now d) (ht_member_of ?t))"
        "cid \<in> ht_member_of ?t" "ct_submissions_visible c"
      by (auto simp: decide_submission_def split: option.splits if_splits)
    from c(2) have row: "c \<in> set (h_contests d)" "ct_deleted_at c = None" "ct_id c = cid"
      by (auto simp: full_tables_def dest!: by_key_Some)
    from ok(1) have "sj_has s CONTEST_MANAGE \<or> \<not> window_is_closed c (db_now d)"
      by (auto simp: check_contest_access_decision_def is_denied_def split: if_splits)
    moreover from ok(2) have "\<exists>u. (cid, u) \<in> set (h_contest_users d) \<and> sj_user_id s = Some (ui_user_id u)"
      by (auto simp: full_tables_def)
    ultimately show ?thesis using mem c(1) ok(3) row by blast
  qed
qed

text \<open>
  C30: a viewer gets to a submission only as its owner, with the permission to view all, or as a
  participant of its contest when that contest is not deleted, is within its activation window
  (or the viewer manages contests) and lets participants see each other's submissions.
\<close>

theorem peer_submissions_guarded:
  assumes "decide_batch ph (kernel_new s) a rs d = (Inr (ds, k'), d')" and "\<not> sj_admin_override s"
    and "i < length rs" and "rs ! i = RSubmission x" and "ds ! i \<noteq> DDeny"
  shows "\<exists>sub \<in> set (db_submissions d). s_id sub = x \<and>
    (sj_has s SUBMISSION_VIEW_ALL \<or> sj_user_id s = Some (s_user_id sub) \<or>
     (\<exists>c \<in> set (h_contests d). s_contest_id sub = Some (ct_id c) \<and> ct_deleted_at c = None \<and> ct_submissions_visible c \<and>
       (sj_has s CONTEST_MANAGE \<or> \<not> window_is_closed c (db_now d)) \<and>
       (\<exists>u. (ct_id c, u) \<in> set (h_contest_users d) \<and> sj_user_id s = Some (ui_user_id u))))"
proof -
  have "ds ! i \<le> host_rule s d (rs ! i)"
    using assms(1,3) by (rule fresh_answers) (use decide_misses_below in metis)
  with assms(4,5) have "host_rule s d (RSubmission x) \<noteq> DDeny" by auto
  from host_rule_submission [OF this assms(2)] show ?thesis .
qed

theorem peer_submissions_guarded_witness:
  "\<exists>sub \<in> set (db_submissions sample_site). s_id sub = 1 \<and> s_user_id sub \<noteq> 8 \<and>
    (\<exists>c \<in> set (h_contests sample_site). ct_id c = 5 \<and> ct_submissions_visible c)"
proof -
  obtain k where run: "decide_batch (one_plugin (Inr [Redact [''result.verdict'']])) (kernel_new (from_auth_user 8 [])) VRead [RSubmission 1] sample_site
     = (Inr ([DRedact {''result.verdict''}], k), sample_site)"
    using sample_batch by blast
  from peer_submissions_guarded [OF run, of 0 1] show ?thesis
    by (simp add: from_auth_user_def sj_has_def) (auto simp: site_defs)
qed



text \<open>
  C32: a visibility plugin that fails, or whose answer has the wrong number of decisions or a
  malformed mask, denies the whole batch, whatever the other plugins answer.
\<close>

theorem broken_plugin_denies:
  assumes "decide_batch ph (kernel_new s) a rs d = (Inr (ds, k'), d')" and "\<not> sj_admin_override s"
    and "ph_registry ph = Some registry" and "(p, f) \<in> set (visibility_queriers registry)"
    and "\<And>q st. broken_answer (length (vq_resources q)) (fst (ph_call ph p f q st))"
  shows "ds = map (\<lambda>_. DDeny) rs"
proof (rule nth_equalityI)
  show len: "length ds = length (map (\<lambda>_. DDeny) rs)" using decide_batch_memo [OF assms(1)] by simp
  fix i
  assume "i < length ds"
  then have i: "i < length rs" using len by simp
  obtain ms j where "decide_misses ph s a (batch_misses (kernel_new s) a rs) d = (Inr ms, d')"
      "j < length (batch_misses (kernel_new s) a rs)" "ds ! i = ms ! j"
    by (rule fresh_answers [OF assms(1) i])
  with decide_misses_broken [OF this(1) assms(2-5)] i show "ds ! i = map (\<lambda>_. DDeny) rs ! i" by simp
qed

lemma one_plugin_queriers:
  "visibility_queriers [\<lparr>pe_id = ''p'', pe_status = Loaded, pe_queries = Some [(''visibility'', ''f'')]\<rparr>] = [(''p'', ''f'')]"
  by code_simp

theorem broken_plugin_denies_witness:
  "\<exists>k d'. decide_batch (one_plugin (Inl (lit ''trap''))) (kernel_new (from_auth_user 8 [])) VRead [RContest 5] sample_site
    = (Inr ([DDeny], k), d')"
proof -
  obtain ds k d' where run: "decide_batch (one_plugin (Inl (lit ''trap''))) (kernel_new (from_auth_user 8 [])) VRead [RContest 5] sample_site
      = (Inr (ds, k), d')"
    by (simp add: kernel_eval site_defs)
  have "ds = map (\<lambda>_. DDeny) [RContest 5]"
    by (rule broken_plugin_denies [OF run, where p = "''p''" and f = "''f''"
          and registry = "[\<lparr>pe_id = ''p'', pe_status = Loaded, pe_queries = Some [(''visibility'', ''f'')]\<rparr>]"])
       (simp_all add: from_auth_user_def one_plugin_def one_plugin_queriers broken_answer_def)
  with run show ?thesis by simp
qed

section \<open>What is rendered\<close>

text \<open>
  C33: the JSON of an entity that is visible with a mask has nothing but null or an empty array at
  every path of the mask, stars included, and otherwise shows no more than the entity with its
  feedback laid over it: members are kept in place, texts are at most cut, nothing is added.
\<close>

theorem redacted_json_hides:
  assumes "into_masked_json ser x = Inr w" and "vi_decision x = DRedact m" and "finite m"
  shows "(\<forall>p \<in> m. \<forall>y \<in> set (json_at (split_on (CHR ''.'') p) w). y = JNull \<or> y = JArr []) \<and>
    (\<exists>v. (case vi_feedback x of None \<Rightarrow> ser (vi_inner x) = Inr v
           | Some fb \<Rightarrow> \<exists>j. ser (vi_inner x) = Inr j \<and> project fb j = Some v) \<and> reduced v w)"
proof -
  from assms(1,2) obtain j v where ser: "ser (vi_inner x) = Inr j"
    and v: "(case vi_feedback x of None \<Rightarrow> Some j | Some fb \<Rightarrow> project fb j) = Some v"
    and w: "w = cap_submission_detail_texts (apply_mask m v)"
    by (auto simp: into_masked_json_def split: sum.splits option.splits)
  have "blank y" if "p \<in> m" "y \<in> set (json_at (split_on (CHR ''.'') p) w)" for p y
    using reduced_keeps_blank [OF apply_mask_blanks [OF assms(3) that(1), of v] cap_submission_reduced] that(2) w by simp
  moreover have "reduced v w" unfolding w by (rule reduced_trans [OF apply_mask_reduced cap_submission_reduced])
  moreover have "case vi_feedback x of None \<Rightarrow> ser (vi_inner x) = Inr v
      | Some fb \<Rightarrow> \<exists>j. ser (vi_inner x) = Inr j \<and> project fb j = Some v"
    using ser v by (auto split: option.splits)
  ultimately show ?thesis unfolding blank_def by blast
qed

definition sample_json :: json where
  "sample_json = JObj [(''id'', JInt 1), (''result'', JObj [(''verdict'', JStr ''Accepted''), (''score'', JInt 100)])]"

theorem redacted_json_hides_witness:
  "\<exists>w. into_masked_json (\<lambda>v. Inr v) \<lparr>vi_inner = sample_json, vi_decision = DRedact {''result.verdict''}, vi_feedback = None\<rparr> = Inr w \<and>
    (\<forall>y \<in> set (json_at [''result'', ''verdict''] w). y = JNull \<or> y = JArr []) \<and> reduced sample_json w"
proof -
  let ?x = "\<lparr>vi_inner = sample_json, vi_decision = DRedact {''result.verdict''}, vi_feedback = None\<rparr>"
  obtain w where w: "into_masked_json (\<lambda>v. Inr v) ?x = Inr w" by (simp add: into_masked_json_def)
  have "split_on (CHR ''.'') ''result.verdict'' = [''result'', ''verdict'']" by simp
  with redacted_json_hides [OF w] w show ?thesis by simp
qed

section \<open>The access rule of the plugins\<close>

lemma by_key_unique:
  assumes "distinct (map key rows)" "r \<in> set rows" "P r"
  shows "by_key key (filter P rows) (key r) = Some r"
proof -
  have "map_of (rev (map (\<lambda>r. (key r, r)) (filter P rows))) (key r) = Some r"
    using assms by (intro map_of_is_SomeI) (auto simp: rev_map [symmetric] comp_def distinct_map inj_on_def)
  then show ?thesis by (simp add: by_key_def)
qed

lemma by_key_absent: "\<forall>r \<in> set rows. key r = i \<longrightarrow> \<not> P r \<Longrightarrow> by_key key (filter P rows) i = None"
  by (auto simp: by_key_def map_of_eq_None_iff)

text \<open>What the two rules come to for a contest of the tables.\<close>

lemma check_access_char:
  fixes d :: "('v, 'm, 'z) vis_db_scheme"
  assumes "db_faults d = []" "distinct (map ct_id (h_contests d))" "c \<in> set (h_contests d)"
  shows "(\<exists>info. fst (check_access req (ct_id c) d) = Inr info) \<longleftrightarrow>
    has_permission req CONTEST_MANAGE \<or> contest_is_active (db_now d) c \<and>
      (ct_is_public c \<or> (\<exists>u. (ct_id c, u) \<in> set (h_contest_users d) \<and> req_user_id req = Some (ui_user_id u)))"
proof -
  have find: "find_contest (ct_id c) d = Some c"
  proof -
    from assms(3) obtain c' where c': "List.find (\<lambda>x. ct_id x = ct_id c) (h_contests d) = Some c'"
      by (cases "List.find (\<lambda>x. ct_id x = ct_id c) (h_contests d)") (auto simp: find_None_iff)
    then have "c' \<in> set (h_contests d)" "ct_id c' = ct_id c" by (auto simp: find_Some_iff)
    with assms(2,3) have "c' = c" by (auto simp: distinct_map inj_on_def)
    with c' show ?thesis by (simp add: find_contest_def)
  qed
  show ?thesis
    using assms(1) find
    by (auto simp: check_access_def load_info_def can_view_def is_participant_def lift_sdk_def db_query_def hbind_def
        hret_def api_fail_def hthrow_def split: option.splits if_splits)
qed

lemma host_rule_contest:
  fixes d :: "('v, 'm, 'z) vis_db_scheme"
  assumes "\<not> sj_admin_override s" "distinct (map ct_id (h_contests d))" "c \<in> set (h_contests d)"
  shows "host_rule s d (RContest (ct_id c)) = (if ct_deleted_at c = None \<and> (sj_has s CONTEST_MANAGE \<or>
      \<not> window_is_closed c (db_now d) \<and>
      (ct_is_public c \<or> (\<exists>u. (ct_id c, u) \<in> set (h_contest_users d) \<and> sj_user_id s = Some (ui_user_id u))))
    then DAllow else DDeny)"
proof (cases "ct_deleted_at c = None")
  case True
  then have "ht_contests (full_tables s d) (ct_id c) = Some c"
    by (simp add: full_tables_def by_key_unique [OF assms(2,3)])
  with assms(1) True show ?thesis
    by (auto simp: host_rule_def decide_contest_def check_contest_access_decision_def full_tables_def)
next
  case False
  have "ht_contests (full_tables s d) (ct_id c) = None"
    unfolding full_tables_def host_tables.select_convs
    by (rule by_key_absent) (use assms(2,3) False in \<open>auto simp: distinct_map inj_on_def\<close>)
  with assms(1) False show ?thesis by (simp add: host_rule_def decide_contest_def)
qed

text \<open>
  C34: the access check that contest plugins run for their own endpoints agrees with the rule of
  the kernel for every contest that has an activation time and is not deleted. For a contest
  without an activation time, which the host keeps closed, and for a deleted one, the plugins let
  everybody in where the contest is public and not deactivated, while the kernel denies it to all
  who do not manage contests.
\<close>

theorem plugin_access_and_kernel:
  fixes d :: "('v, 'm, 'z) vis_db_scheme"
  assumes "db_faults d = []" and "distinct (map ct_id (h_contests d))" and "c \<in> set (h_contests d)"
    and "\<not> sj_admin_override s" and "sj_user_id s = req_user_id req" and "\<And>p. sj_has s p = has_permission req p"
  shows "(ct_activate_time c \<noteq> None \<and> ct_deleted_at c = None \<longrightarrow>
      ((\<exists>info. fst (check_access req (ct_id c) d) = Inr info) \<longleftrightarrow> host_rule s d (RContest (ct_id c)) = DAllow)) \<and>
    ((ct_activate_time c = None \<or> ct_deleted_at c \<noteq> None) \<and> ct_is_public c \<and> ct_deactivate_time c = None \<and>
       (\<forall>t. ct_activate_time c = Some t \<longrightarrow> t \<le> db_now d) \<and> \<not> has_permission req CONTEST_MANAGE \<longrightarrow>
      (\<exists>info. fst (check_access req (ct_id c) d) = Inr info) \<and> host_rule s d (RContest (ct_id c)) = DDeny)"
  unfolding check_access_char [OF assms(1-3)] host_rule_contest [OF assms(4,2,3)] assms(5,6)
  by (auto simp: contest_is_active_def window_is_closed_def split: option.splits)

theorem plugin_access_and_kernel_witness:
  "(\<exists>info. fst (check_access sample_viewer 5 (sample_site\<lparr>h_contests := [sample_contest\<lparr>ct_activate_time := None\<rparr>]\<rparr>)) = Inr info) \<and>
    host_rule anonymous (sample_site\<lparr>h_contests := [sample_contest\<lparr>ct_activate_time := None\<rparr>]\<rparr>) (RContest 5) = DDeny"
  using plugin_access_and_kernel [where d = "sample_site\<lparr>h_contests := [sample_contest\<lparr>ct_activate_time := None\<rparr>]\<rparr>"
      and c = "sample_contest\<lparr>ct_activate_time := None\<rparr>" and s = anonymous and req = sample_viewer]
  by (simp add: anonymous_def sample_viewer_def req_user_id_def has_permission_def sj_has_def) (simp add: site_defs)

end
