(* ===== verification/PluginConfig.thy ===== *)
theory PluginConfig
  imports JsonMask
begin

text \<open>
  The configuration of a plugin: rows per scope, resource and namespace behind the host functions
  \<open>config_get\<close> and \<open>config_set\<close> (\<open>server/src/host_funcs/config.rs\<close>), and the effective configuration
  of a problem, found by looking at the contest's problem, the contest and the problem in turn
  (\<open>server-sdk/src/sdk/config.rs\<close>).
\<close>

section \<open>Tables\<close>

text \<open>
  A limit row counts the submissions of a user for a problem of a contest (0 for none). The two
  claim tables belong to plugins that create them on load; \<open>None\<close> is a table that does not exist.
\<close>

record limit_row =
  lr_confirmed :: nat
  lr_pending :: nat
  lr_oldest_pending_at :: "i64 option"

type_synonym slot_id = "i32 \<times> i32 \<times> i32"

record 'v gate_db = "'v host_db" +
  g_config :: "string \<times> string \<times> string \<rightharpoonup> json \<times> bool option"
  g_defaults :: "string \<Rightarrow> string \<rightharpoonup> json"
  g_cooldown_claim :: "(slot_id \<rightharpoonup> i64) option"
  g_limit_claim :: "(slot_id \<rightharpoonup> limit_row) option"

type_synonym ('v, 'z, 'a) gatecall = "(('v, 'z) gate_db_scheme, sdk_error, 'a) call"

section \<open>Host functions\<close>

definition VALID_SCOPES :: "string list" where
  "VALID_SCOPES = [''problem'', ''contest_problem'', ''contest'', ''plugin'']"

definition is_ascii_alphanumeric :: "char \<Rightarrow> bool" where
  "is_ascii_alphanumeric c \<longleftrightarrow>
    (let n = (of_char c :: nat) in (48 \<le> n \<and> n \<le> 57) \<or> (65 \<le> n \<and> n \<le> 90) \<or> (97 \<le> n \<and> n \<le> 122))"

definition validate_raw_namespace :: "string \<Rightarrow> string + unit" where
  "validate_raw_namespace namespace =
    (if namespace = [] \<or> length namespace > 128 then Inl ''namespace must be 1-128 characters''
     else if \<not> list_all (\<lambda>c. is_ascii_alphanumeric c \<or> c = CHR ''-'' \<or> c = CHR ''_'') namespace
     then Inl ''namespace must contain only alphanumeric, hyphen, or underscore characters''
     else Inr ())"

definition validate_config_input :: "string \<Rightarrow> string \<Rightarrow> string \<Rightarrow> string + unit" where
  "validate_config_input scope ref_id namespace =
    (if scope \<notin> set VALID_SCOPES
     then Inl (''Invalid scope '' @ scope @ '': must be one of problem, contest_problem, contest, plugin'')
     else if ref_id = [] then Inl ''ref_id must not be empty''
     else if namespace = [] \<or> length namespace > 256 then Inl ''namespace must be 1-256 characters''
     else if \<not> list_all (\<lambda>c. is_ascii_alphanumeric c \<or> c = CHR ''-'' \<or> c = CHR ''_'' \<or> c = CHR '':'') namespace
     then Inl ''namespace must contain only alphanumeric, hyphen, underscore, or colon characters''
     else Inr ())"

definition resolve_namespace :: "string \<Rightarrow> string \<Rightarrow> string \<Rightarrow> string" where
  "resolve_namespace scope plugin_id namespace =
    (if scope = ''plugin'' then namespace else plugin_id @ '':'' @ namespace)"

text \<open>The key of a row: a plugin's own scope always refers to the plugin.\<close>

definition config_key :: "string \<Rightarrow> string \<Rightarrow> string \<Rightarrow> string \<Rightarrow> string + (string \<times> string \<times> string)" where
  "config_key plugin_id scope ref_id raw_namespace =
    (let ref_id = (if scope = ''plugin'' then plugin_id else ref_id) in
     case validate_raw_namespace raw_namespace of
       Inl e \<Rightarrow> Inl e
     | Inr _ \<Rightarrow>
         (let namespace = resolve_namespace scope plugin_id raw_namespace in
          case validate_config_input scope ref_id namespace of
            Inl e \<Rightarrow> Inl e
          | Inr _ \<Rightarrow> Inr (scope, ref_id, namespace)))"

record config_result =
  cr_config :: json
  cr_is_default :: bool
  cr_enabled :: "bool option"

definition config_get :: "string \<Rightarrow> string \<Rightarrow> string \<Rightarrow> string \<Rightarrow> ('v, 'z, config_result) gatecall" where
  "config_get plugin_id scope ref_id namespace =
    (case config_key plugin_id scope ref_id namespace of
       Inl e \<Rightarrow> hthrow (HostCall (lit e))
     | Inr key \<Rightarrow>
         trap (db_query (\<lambda>d.
           case g_config d key of
             Some (config, enabled) \<Rightarrow> \<lparr>cr_config = config, cr_is_default = False, cr_enabled = enabled\<rparr>
           | None \<Rightarrow> \<lparr>cr_config = (case g_defaults d plugin_id namespace of Some v \<Rightarrow> v | None \<Rightarrow> JObj []),
                      cr_is_default = True, cr_enabled = None\<rparr>)))"

text \<open>What the database cannot store in a text becomes the replacement character (\<open>utils/text.rs\<close>).\<close>

definition sanitize_json_text :: "string \<Rightarrow> string" where
  "sanitize_json_text s = concat (map (\<lambda>c. if c = CHR 0x00 then [CHR 0xEF, CHR 0xBF, CHR 0xBD] else [c]) s)"

definition collect_members :: "(string \<times> json) list \<Rightarrow> (string \<times> json) list" where
  "collect_members ms = foldl (\<lambda>acc (k, v). AList.update k v acc) [] ms"

fun sanitize_db_json :: "json \<Rightarrow> json" where
  "sanitize_db_json (JStr s) = JStr (sanitize_json_text s)"
| "sanitize_db_json (JArr items) = JArr (map sanitize_db_json items)"
| "sanitize_db_json (JObj entries) =
     JObj (collect_members (map (\<lambda>m. (sanitize_json_text (fst m), sanitize_db_json (snd m))) entries))"
| "sanitize_db_json v = v"

text \<open>An update keeps the switch of the row; a new row has none.\<close>

definition config_set :: "string \<Rightarrow> string \<Rightarrow> string \<Rightarrow> string \<Rightarrow> json \<Rightarrow> ('v, 'z, unit) gatecall" where
  "config_set plugin_id scope ref_id namespace v =
    (case config_key plugin_id scope ref_id namespace of
       Inl e \<Rightarrow> hthrow (HostCall (lit e))
     | Inr key \<Rightarrow>
         trap (hbind (execute (\<lambda>d. (1, d\<lparr>g_config := (g_config d)(key \<mapsto>
             (sanitize_db_json v, case g_config d key of Some (_, enabled) \<Rightarrow> enabled | None \<Rightarrow> None))\<rparr>)))
           (\<lambda>_. hret ())))"

section \<open>The cascade\<close>

datatype config_source = FromContestProblem | FromContest | FromProblem | FromDefault | FromDisabled

record effective_config =
  ec_config :: json
  ec_source :: config_source
  ec_is_enabled :: bool
  ec_levels :: "config_result option \<times> config_result option \<times> config_result"

definition resolve_cascade :: "config_result option \<Rightarrow> config_result option \<Rightarrow> config_result \<Rightarrow> effective_config" where
  "resolve_cascade cp c p =
    (let ordered = [(cp, FromContestProblem), (c, FromContest), (Some p, FromProblem)];
         explicit = List.map_filter (\<lambda>(r, source).
           case r of Some r \<Rightarrow> if cr_is_default r then None else Some (r, source) | None \<Rightarrow> None) ordered
     in case explicit of
          [] \<Rightarrow> \<lparr>ec_config = cr_config p, ec_source = FromDefault, ec_is_enabled = False, ec_levels = (cp, c, p)\<rparr>
        | (most_specific, source) # _ \<Rightarrow>
            (case List.map_filter (cr_enabled \<circ> fst) explicit of
               True # _ \<Rightarrow> \<lparr>ec_config = cr_config most_specific, ec_source = source, ec_is_enabled = True, ec_levels = (cp, c, p)\<rparr>
             | False # _ \<Rightarrow> \<lparr>ec_config = cr_config most_specific, ec_source = FromDisabled, ec_is_enabled = False,
                           ec_levels = (cp, c, p)\<rparr>
             | [] \<Rightarrow> \<lparr>ec_config = cr_config most_specific, ec_source = source, ec_is_enabled = False, ec_levels = (cp, c, p)\<rparr>))"

definition get_problem :: "string \<Rightarrow> i32 \<Rightarrow> string \<Rightarrow> ('v, 'z, config_result) gatecall" where
  "get_problem plugin_id problem_id ns = config_get plugin_id ''problem'' (show_int problem_id) ns"

definition get_contest :: "string \<Rightarrow> i32 \<Rightarrow> string \<Rightarrow> ('v, 'z, config_result) gatecall" where
  "get_contest plugin_id contest_id ns = config_get plugin_id ''contest'' (show_int contest_id) ns"

definition get_contest_problem :: "string \<Rightarrow> i32 \<Rightarrow> i32 \<Rightarrow> string \<Rightarrow> ('v, 'z, config_result) gatecall" where
  "get_contest_problem plugin_id contest_id problem_id ns =
    config_get plugin_id ''contest_problem'' (show_int contest_id @ '':'' @ show_int problem_id) ns"

definition get_effective :: "string \<Rightarrow> string \<Rightarrow> i32 \<Rightarrow> i32 option \<Rightarrow> ('v, 'z, effective_config) gatecall" where
  "get_effective plugin_id ns problem_id contest_id =
    hbind (case contest_id of
             Some cid \<Rightarrow>
               hbind (get_contest_problem plugin_id cid problem_id ns) (\<lambda>cp.
                 hbind (get_contest plugin_id cid ns) (\<lambda>c. hret (Some cp, Some c)))
           | None \<Rightarrow> hret (None, None))
      (\<lambda>(cp, c). hbind (get_problem plugin_id problem_id ns) (\<lambda>p. hret (resolve_cascade cp c p)))"

text \<open>
  A struct with one optional 32-bit number, read from JSON: from an object, whose other members are
  ignored, or from an array of at most one element. Null and a missing member are none.
\<close>

fun opt_u32_of_json :: "json \<Rightarrow> nat option option" where
  "opt_u32_of_json JNull = Some None"
| "opt_u32_of_json (JInt i) = (if 0 \<le> i \<and> i < 2 ^ 32 then Some (Some (nat i)) else None)"
| "opt_u32_of_json _ = None"

fun parse_one_u32 :: "string \<Rightarrow> json \<Rightarrow> nat option option" where
  "parse_one_u32 name (JObj ms) = (case map_of ms name of None \<Rightarrow> Some None | Some v \<Rightarrow> opt_u32_of_json v)"
| "parse_one_u32 name (JArr []) = Some None"
| "parse_one_u32 name (JArr [v]) = opt_u32_of_json v"
| "parse_one_u32 name _ = None"

text \<open>\<open>eff.parse_config().unwrap_or_default()\<close> and the number in it, 0 if there is none.\<close>

definition number_or_zero :: "string \<Rightarrow> effective_config \<Rightarrow> nat" where
  "number_or_zero name eff =
    (case parse_one_u32 name (ec_config eff) of Some (Some n) \<Rightarrow> n | _ \<Rightarrow> 0)"

end
