(* ===== verification/SubmissionGates.thy ===== *)
theory SubmissionGates
  imports PluginConfig
begin

text \<open>
  Two plugins that stand before a submission: the cooldown between submissions of a user for a
  problem (\<open>plugins/cooldown/src/lib.rs\<close>) and the limit on their number
  (\<open>plugins/submission-limit/src/lib.rs\<close>). Each statement is atomic; what other requests and the
  clock do between the statements of one hook is a parameter of the hook.
\<close>

section \<open>Statements\<close>

record hook_event =
  he_user_id :: i32
  he_problem_id :: i32
  he_contest_id :: "i32 option"

datatype gate_response = GatePass | GateReject string string nat json

text \<open>A statement that may fail by itself, for instance on a table that does not exist.\<close>

definition try_execute :: "('z db_scheme \<Rightarrow> rstr + 'a \<times> 'z db_scheme) \<Rightarrow> ('z, 'a) dbcall" where
  "try_execute stmt d =
    (case db_faults d of
       Some msg # rest \<Rightarrow> (Inl (Database msg), d\<lparr>db_faults := rest\<rparr>)
     | fs \<Rightarrow> (let d1 = d\<lparr>db_faults := tl fs\<rparr> in
              case stmt d1 of Inl e \<Rightarrow> (Inl (Database e), d1) | Inr (x, d2) \<Rightarrow> (Inr x, d2)))"

definition no_table :: rstr where "no_table = lit ''relation does not exist''"
definition out_of_range :: rstr where "out_of_range = lit ''integer out of range''"

text \<open>What happens between two statements of a hook.\<close>

definition after_env :: "(nat \<Rightarrow> 's \<Rightarrow> 's) \<Rightarrow> nat \<Rightarrow> ('s, 'e, 'a) call \<Rightarrow> ('s, 'e, 'a) call" where
  "after_env env n m s = m (env n s)"

text \<open>
  \<open>EXTRACT(EPOCH FROM interval)::int\<close>: seconds, to the nearest integer, halves away from zero. Times
  are microseconds.
\<close>

definition second :: i64 where "second = 1000000"

definition epoch_int :: "i64 \<Rightarrow> int" where
  "epoch_int us = (if 0 \<le> us then (us + 500000) div second else - ((- us + 500000) div second))"

text \<open>The contest of a slot, 0 for none.\<close>

definition contest_key_of :: "i32 option \<Rightarrow> i32" where
  "contest_key_of contest_id = (case contest_id of Some c \<Rightarrow> c | None \<Rightarrow> 0)"

definition slot_of :: "i32 \<Rightarrow> i32 \<Rightarrow> i32 option \<Rightarrow> slot_id" where
  "slot_of user_id problem_id contest_id = (user_id, problem_id, contest_key_of contest_id)"

section \<open>Cooldown\<close>

definition CLAIM_GRACE_SECS :: nat where "CLAIM_GRACE_SECS = 15"

definition cooldown_ensure_schema :: "('v, 'z, unit) gatecall" where
  "cooldown_ensure_schema =
    hbind (execute (\<lambda>d. (0, if g_cooldown_claim d = None then d\<lparr>g_cooldown_claim := Some Map.empty\<rparr> else d)))
      (\<lambda>_. hret ())"

definition claim_statement :: "slot_id \<Rightarrow> nat \<Rightarrow> ('v, 'z) gate_db_scheme \<Rightarrow> rstr + nat \<times> ('v, 'z) gate_db_scheme" where
  "claim_statement slot claim_window d =
    (case g_cooldown_claim d of
       None \<Rightarrow> Inl no_table
     | Some claims \<Rightarrow>
         let won = (1, d\<lparr>g_cooldown_claim := Some (claims(slot \<mapsto> db_now d))\<rparr>) in
         Inr (case claims slot of
                None \<Rightarrow> won
              | Some last_claim_at \<Rightarrow> if last_claim_at \<le> db_now d - int claim_window * second then won else (0, d)))"

definition cooldown_try_claim :: "slot_id \<Rightarrow> nat \<Rightarrow> ('v, 'z, bool) gatecall" where
  "cooldown_try_claim slot claim_window = hbind (try_execute (claim_statement slot claim_window)) (\<lambda>n. hret (0 < n))"

definition clamp_remaining :: "nat \<Rightarrow> int \<Rightarrow> nat" where
  "clamp_remaining cooldown r = nat (max 1 (min r (int cooldown)))"

definition remaining_from_claim :: "slot_id \<Rightarrow> nat \<Rightarrow> ('v, 'z, nat) gatecall" where
  "remaining_from_claim slot cooldown =
    try_execute (\<lambda>d.
      case g_cooldown_claim d of
        None \<Rightarrow> Inl no_table
      | Some claims \<Rightarrow> Inr (case claims slot of
            Some last_claim_at \<Rightarrow>
              clamp_remaining cooldown (- ((db_now d - last_claim_at - int cooldown * second) div second))
          | None \<Rightarrow> 1, d))"

definition reject_response :: "nat \<Rightarrow> nat \<Rightarrow> gate_response" where
  "reject_response remaining cooldown =
    GateReject ''COOLDOWN_ACTIVE''
      (''Please wait '' @ show_nat remaining @ '' more second'' @ (if remaining = 1 then '''' else ''s'')) 429
      (JObj [(''remaining_seconds'', JInt (int remaining)), (''cooldown_seconds'', JInt (int cooldown))])"

text \<open>The seconds since the last submission of the slot.\<close>

definition query_submission_elapsed :: "i32 \<Rightarrow> i32 \<Rightarrow> i32 option \<Rightarrow> ('v, 'z, int option) gatecall" where
  "query_submission_elapsed user_id problem_id contest_id =
    try_execute (\<lambda>d.
      case opt_max (map s_created_at (filter (\<lambda>s. s_user_id s = user_id \<and> s_problem_id s = problem_id
              \<and> s_contest_id s = contest_id) (db_submissions d))) of
        None \<Rightarrow> Inr (None, d)
      | Some last_at \<Rightarrow> if is_i32 (epoch_int (db_now d - last_at)) then Inr (Some (epoch_int (db_now d - last_at)), d)
                        else Inl out_of_range)"

text \<open>Whether the seconds that have passed, if any are known, are enough; negative ones count as 0.\<close>

definition enough :: "int option \<Rightarrow> nat \<Rightarrow> bool" where
  "enough elapsed n = (case elapsed of None \<Rightarrow> True | Some s \<Rightarrow> n \<le> nat s)"

definition cooldown_claim_retry :: "(nat \<Rightarrow> ('v, 'z) gate_db_scheme \<Rightarrow> ('v, 'z) gate_db_scheme) \<Rightarrow> slot_id \<Rightarrow> nat
    \<Rightarrow> ('v, 'z, bool) gatecall" where
  "cooldown_claim_retry env slot claim_window d =
    (case after_env env 1 (cooldown_try_claim slot claim_window) d of
       (Inr claimed, d') \<Rightarrow> (Inr claimed, d')
     | (Inl _, d') \<Rightarrow> hbind (after_env env 2 cooldown_ensure_schema) (\<lambda>_.
           after_env env 3 (cooldown_try_claim slot claim_window)) d')"

definition check_cooldown :: "(nat \<Rightarrow> ('v, 'z) gate_db_scheme \<Rightarrow> ('v, 'z) gate_db_scheme) \<Rightarrow> hook_event
    \<Rightarrow> ('v, 'z, gate_response) gatecall" where
  "check_cooldown env event d =
    (case get_effective ''cooldown'' ''cooldown'' (he_problem_id event) (he_contest_id event) d of
       (Inl _, d1) \<Rightarrow> (Inr GatePass, d1)
     | (Inr eff, d1) \<Rightarrow>
         let cooldown = number_or_zero ''cooldown_seconds'' eff;
             slot = slot_of (he_user_id event) (he_problem_id event) (he_contest_id event) in
         if \<not> ec_is_enabled eff \<or> cooldown = 0 then (Inr GatePass, d1)
         else hbind (after_env env 0 (query_submission_elapsed (he_user_id event) (he_problem_id event) (he_contest_id event)))
           (\<lambda>elapsed.
             if \<not> enough elapsed cooldown then hret (reject_response (cooldown - nat (the elapsed)) cooldown)
             else hbind (cooldown_claim_retry env slot (min cooldown CLAIM_GRACE_SECS)) (\<lambda>claimed.
               if claimed then hret GatePass
               else hbind (hok (after_env env 4 (remaining_from_claim slot cooldown))) (\<lambda>r.
                 hret (reject_response (case r of Some n \<Rightarrow> n | None \<Rightarrow> 1) cooldown)))) d1)"

record cooldown_status =
  cs_enabled :: bool
  cs_cooldown_seconds :: nat
  cs_seconds_since_last :: "int option"
  cs_can_submit :: bool
  cs_source :: config_source

definition query_claim_elapsed :: "slot_id \<Rightarrow> ('v, 'z, int option) gatecall" where
  "query_claim_elapsed slot =
    try_execute (\<lambda>d.
      case g_cooldown_claim d of
        None \<Rightarrow> Inl no_table
      | Some claims \<Rightarrow>
          (case claims slot of
             None \<Rightarrow> Inr (None, d)
           | Some t \<Rightarrow> if is_i32 (epoch_int (db_now d - t)) then Inr (Some (epoch_int (db_now d - t)), d)
                        else Inl out_of_range))"

definition claim_elapsed_retry :: "slot_id \<Rightarrow> ('v, 'z, int option) gatecall" where
  "claim_elapsed_retry slot d =
    (case query_claim_elapsed slot d of
       (Inr v, d') \<Rightarrow> (Inr v, d')
     | (Inl _, d') \<Rightarrow> hbind cooldown_ensure_schema (\<lambda>_. query_claim_elapsed slot) d')"

text \<open>The slot a status request asks about; a contest that is not a number is no contest.\<close>

definition status_request :: "http_request \<Rightarrow> (('v, 'z) gate_db_scheme, api_error, i32 \<times> i32 \<times> i32 option) call" where
  "status_request req =
    (case require_user_id req of
       Inl _ \<Rightarrow> api_fail 401 ''Authentication required''
     | Inr user_id \<Rightarrow>
         let contest_id = Option.bind (hr_params req ''contest_id'') parse_i32 in
         hbind (of_result (param_i32 req ''problem_id'')) (\<lambda>problem_id.
           hbind (case contest_id of
                    Some cid \<Rightarrow> check_problem_access req cid user_id problem_id
                  | None \<Rightarrow> hret ())
             (\<lambda>_. hret (user_id, problem_id, contest_id))))"

definition handle_cooldown_status :: "http_request \<Rightarrow> (('v, 'z) gate_db_scheme, api_error, cooldown_status) call" where
  "handle_cooldown_status req =
    hbind (status_request req) (\<lambda>(user_id, problem_id, contest_id).
    hbind (lift_sdk (get_effective ''cooldown'' ''cooldown'' problem_id contest_id)) (\<lambda>eff.
      if \<not> ec_is_enabled eff
      then hret \<lparr>cs_enabled = False, cs_cooldown_seconds = 0, cs_seconds_since_last = None, cs_can_submit = True,
                 cs_source = ec_source eff\<rparr>
      else let cooldown = number_or_zero ''cooldown_seconds'' eff in
        hbind (lift_sdk (query_submission_elapsed user_id problem_id contest_id)) (\<lambda>submission_elapsed.
        hbind (lift_sdk (claim_elapsed_retry (slot_of user_id problem_id contest_id))) (\<lambda>claim_elapsed.
          hret \<lparr>cs_enabled = True, cs_cooldown_seconds = cooldown, cs_seconds_since_last = submission_elapsed,
            cs_can_submit = (cooldown = 0 \<or>
              enough submission_elapsed cooldown \<and> enough claim_elapsed (min cooldown CLAIM_GRACE_SECS)),
            cs_source = ec_source eff\<rparr>))))"

section \<open>Submission limit\<close>

definition PENDING_GRACE_SECS :: nat where "PENDING_GRACE_SECS = 30"

definition limit_ensure_schema :: "('v, 'z, unit) gatecall" where
  "limit_ensure_schema =
    hbind (execute (\<lambda>d. (0, if g_limit_claim d = None then d\<lparr>g_limit_claim := Some Map.empty\<rparr> else d)))
      (\<lambda>_. hret ())"

text \<open>Whether the pending claims of a row still count.\<close>

definition pending_live :: "i64 \<Rightarrow> limit_row \<Rightarrow> bool" where
  "pending_live now r =
    (case lr_oldest_pending_at r of Some t \<Rightarrow> t > now - int PENDING_GRACE_SECS * second | None \<Rightarrow> False)"

definition active_slots :: "i64 \<Rightarrow> limit_row \<Rightarrow> nat" where
  "active_slots now r = lr_confirmed r + (if pending_live now r then lr_pending r else 0)"

definition add_pending :: "i64 \<Rightarrow> limit_row \<Rightarrow> limit_row" where
  "add_pending now r =
    (if pending_live now r then r\<lparr>lr_pending := lr_pending r + 1\<rparr>
     else r\<lparr>lr_pending := 1, lr_oldest_pending_at := Some now\<rparr>)"

definition limit_claim_statement :: "slot_id \<Rightarrow> nat \<Rightarrow> ('v, 'z) gate_db_scheme
    \<Rightarrow> rstr + nat \<times> ('v, 'z) gate_db_scheme" where
  "limit_claim_statement slot cap d =
    (case g_limit_claim d of
       None \<Rightarrow> Inl no_table
     | Some rows \<Rightarrow> Inr
         (case rows slot of
            None \<Rightarrow> (1, d\<lparr>g_limit_claim := Some (rows(slot \<mapsto>
                \<lparr>lr_confirmed = 0, lr_pending = 1, lr_oldest_pending_at = Some (db_now d)\<rparr>))\<rparr>)
          | Some r \<Rightarrow> if active_slots (db_now d) r < cap
                      then (1, d\<lparr>g_limit_claim := Some (rows(slot \<mapsto> add_pending (db_now d) r))\<rparr>) else (0, d)))"

definition limit_try_claim :: "slot_id \<Rightarrow> nat \<Rightarrow> ('v, 'z, bool) gatecall" where
  "limit_try_claim slot cap = hbind (try_execute (limit_claim_statement slot cap)) (\<lambda>n. hret (0 < n))"

definition confirm_row :: "limit_row option \<Rightarrow> limit_row" where
  "confirm_row row =
    (case row of
       None \<Rightarrow> \<lparr>lr_confirmed = 1, lr_pending = 0, lr_oldest_pending_at = None\<rparr>
     | Some r \<Rightarrow> \<lparr>lr_confirmed = lr_confirmed r + 1, lr_pending = lr_pending r - 1,
                  lr_oldest_pending_at = (if lr_pending r - 1 = 0 then None else lr_oldest_pending_at r)\<rparr>)"

definition confirm_claim :: "slot_id \<Rightarrow> ('v, 'z, unit) gatecall" where
  "confirm_claim slot =
    hbind (try_execute (\<lambda>d.
      case g_limit_claim d of
        None \<Rightarrow> Inl no_table
      | Some rows \<Rightarrow> Inr (1 :: nat, d\<lparr>g_limit_claim := Some (rows(slot \<mapsto> confirm_row (rows slot)))\<rparr>)))
      (\<lambda>_. hret ())"

definition active_count :: "slot_id \<Rightarrow> ('v, 'z, nat) gatecall" where
  "active_count slot =
    try_execute (\<lambda>d.
      case g_limit_claim d of
        None \<Rightarrow> Inl no_table
      | Some rows \<Rightarrow> Inr (case rows slot of None \<Rightarrow> 0 | Some r \<Rightarrow> active_slots (db_now d) r, d))"

definition check_limit :: "(nat \<Rightarrow> ('v, 'z) gate_db_scheme \<Rightarrow> ('v, 'z) gate_db_scheme) \<Rightarrow> hook_event
    \<Rightarrow> ('v, 'z, gate_response) gatecall" where
  "check_limit env event d =
    (case get_effective ''submission-limit'' ''limits'' (he_problem_id event) (he_contest_id event) d of
       (Inl _, d1) \<Rightarrow> (Inr GatePass, d1)
     | (Inr eff, d1) \<Rightarrow>
         let cap = number_or_zero ''max_submissions'' eff;
             slot = slot_of (he_user_id event) (he_problem_id event) (he_contest_id event) in
         if \<not> ec_is_enabled eff \<or> cap = 0 then (Inr GatePass, d1)
         else hbind (after_env env 0 (limit_try_claim slot cap)) (\<lambda>won.
           if won then hret GatePass
           else hbind (after_env env 1 (active_count slot)) (\<lambda>n.
             hret (GateReject ''SUBMISSION_LIMIT_EXCEEDED''
               (''Submission limit reached ('' @ show_nat n @ ''/'' @ show_nat cap @ '')'') 429
               (JObj [(''submissions_made'', JInt (int n)), (''max_submissions'', JInt (int cap))])))) d1)"

definition on_submission_created :: "hook_event \<Rightarrow> ('v, 'z, gate_response) gatecall" where
  "on_submission_created event d =
    (case get_effective ''submission-limit'' ''limits'' (he_problem_id event) (he_contest_id event) d of
       (Inl _, d1) \<Rightarrow> (Inr GatePass, d1)
     | (Inr eff, d1) \<Rightarrow>
         if \<not> ec_is_enabled eff \<or> number_or_zero ''max_submissions'' eff = 0 then (Inr GatePass, d1)
         else hbind (confirm_claim (slot_of (he_user_id event) (he_problem_id event) (he_contest_id event)))
           (\<lambda>_. hret GatePass) d1)"

record limit_status =
  ls_enabled :: bool
  ls_submissions_made :: nat
  ls_max_submissions :: nat
  ls_remaining :: "nat option"
  ls_unlimited :: bool
  ls_source :: config_source

definition handle_limit_status :: "http_request \<Rightarrow> (('v, 'z) gate_db_scheme, api_error, limit_status) call" where
  "handle_limit_status req =
    hbind (status_request req) (\<lambda>(user_id, problem_id, contest_id).
    hbind (lift_sdk (get_effective ''submission-limit'' ''limits'' problem_id contest_id)) (\<lambda>eff.
      if \<not> ec_is_enabled eff
      then hret \<lparr>ls_enabled = False, ls_submissions_made = 0, ls_max_submissions = 0, ls_remaining = None,
                 ls_unlimited = True, ls_source = ec_source eff\<rparr>
      else let cap = number_or_zero ''max_submissions'' eff in
        hbind (lift_sdk (active_count (slot_of user_id problem_id contest_id))) (\<lambda>n.
          hret \<lparr>ls_enabled = True, ls_submissions_made = n, ls_max_submissions = cap,
            ls_remaining = (if cap = 0 then None else Some (cap - n)), ls_unlimited = (cap = 0),
            ls_source = ec_source eff\<rparr>)))"

end
