(* ===== verification/GateClaims.thy ===== *)
theory GateClaims
  imports SubmissionGates
begin

text \<open>
  What the cooldown and the submission limit guarantee when requests run at the same time: the
  statements of all requests, interleaved in any order, are the steps of a relation on the
  database, with a log of the claims that were granted.
\<close>

section \<open>Reads of the configuration\<close>

text \<open>The parts of the database the two gates depend on; a read changes none of them.\<close>

definition gate_view :: "('v, 'z) gate_db_scheme \<Rightarrow> _" where
  "gate_view d = (g_cooldown_claim d, g_limit_claim d, db_submissions d, db_now d)"

lemma gate_view_faults [simp]: "gate_view (d\<lparr>db_faults := fs\<rparr>) = gate_view d"
  by (simp add: gate_view_def)

lemma gate_view_query: "hkeeps gate_view (db_query q :: ('v, 'z, 'a) gatecall)"
  by (auto simp: hkeeps_def db_query_def split: list.splits option.splits)

lemma gate_view_trap: "hkeeps gate_view m \<Longrightarrow> hkeeps gate_view (trap m :: ('v, 'z, 'a) gatecall)"
  by (auto simp: hkeeps_def trap_def split: prod.splits sum.splits) (metis snd_conv)+

lemma gate_view_config_get: "hkeeps gate_view (config_get p s r n :: ('v, 'z, config_result) gatecall)"
  unfolding config_get_def by (auto intro!: gate_view_trap gate_view_query split: sum.splits)

lemma gate_view_effective: "hkeeps gate_view (get_effective p ns pid cid :: ('v, 'z, effective_config) gatecall)"
  unfolding get_effective_def get_problem_def get_contest_def get_contest_problem_def
  by (cases cid) (auto intro!: hkeeps_hbind gate_view_config_get split: prod.splits)

text \<open>The reads of the two gates, and the statement that only creates a table.\<close>

lemma try_execute_read:
  assumes "\<And>d x d'. stmt d = Inr (x, d') \<Longrightarrow> d' = d"
  shows "hkeeps gate_view (try_execute stmt :: ('v, 'z, 'a) gatecall)"
proof -
  have *: "gate_view (snd (case stmt e of Inl m \<Rightarrow> (Inl (Database m), e) | Inr (x, e') \<Rightarrow> (Inr x, e'))) = gate_view e"
    for e :: "('v, 'z) gate_db_scheme"
    using assms [of e] by (auto split: sum.splits prod.splits)
  show ?thesis
    unfolding hkeeps_def try_execute_def Let_def by (auto simp: * cong: sum.case_cong split: list.splits option.splits)
qed

lemma gate_view_reads:
  "hkeeps gate_view (query_submission_elapsed u p c :: ('v, 'z, int option) gatecall)"
  "hkeeps gate_view (remaining_from_claim slot n :: ('v, 'z, nat) gatecall)"
  "hkeeps gate_view (query_claim_elapsed slot :: ('v, 'z, int option) gatecall)"
  "hkeeps gate_view (active_count slot :: ('v, 'z, nat) gatecall)"
  unfolding query_submission_elapsed_def remaining_from_claim_def query_claim_elapsed_def active_count_def
  by (rule try_execute_read; auto split: option.splits if_splits)+

section \<open>Claims of the cooldown\<close>

text \<open>
  The steps of the system as the cooldown of one slot sees them: a claim of the slot, which enters
  the log when it wins, a claim of another slot, the creation of the table, and anything that
  leaves the claims alone while the clock does not run backwards.
\<close>

inductive cooldown_step :: "slot_id \<Rightarrow> nat \<Rightarrow> ('v, 'z) gate_db_scheme \<times> i64 list \<Rightarrow>
    ('v, 'z) gate_db_scheme \<times> i64 list \<Rightarrow> bool" for slot w where
  claim: "cooldown_try_claim slot w d = (r, d') \<Longrightarrow>
    cooldown_step slot w (d, gs) (d', if r = Inr True then gs @ [db_now d] else gs)"
| claim_other: "cooldown_try_claim slot' w' d = (r, d') \<Longrightarrow> slot' \<noteq> slot \<Longrightarrow> cooldown_step slot w (d, gs) (d', gs)"
| schema: "cooldown_ensure_schema d = (r, d') \<Longrightarrow> cooldown_step slot w (d, gs) (d', gs)"
| rest: "g_cooldown_claim d' = g_cooldown_claim d \<Longrightarrow> db_now d \<le> db_now d' \<Longrightarrow> cooldown_step slot w (d, gs) (d', gs)"

definition spaced :: "i64 \<Rightarrow> i64 list \<Rightarrow> bool" where
  "spaced gap gs \<longleftrightarrow> (\<forall>i j. i < j \<and> j < length gs \<longrightarrow> gap \<le> gs ! j - gs ! i)"

lemma spaced_snoc:
  assumes "spaced gap gs" "0 \<le> gap" "gs \<noteq> [] \<Longrightarrow> gap \<le> t - last gs"
  shows "spaced gap (gs @ [t])"
  unfolding spaced_def
proof (intro allI impI)
  fix i j
  assume ij: "i < j \<and> j < length (gs @ [t])"
  show "gap \<le> (gs @ [t]) ! j - (gs @ [t]) ! i"
  proof (cases "j < length gs")
    case True
    with ij assms(1) show ?thesis by (simp add: spaced_def nth_append)
  next
    case False
    with ij have j: "j = length gs" "i < length gs" by auto
    then have ne: "gs \<noteq> []" by auto
    have "gs ! i \<le> last gs"
    proof (cases "i = length gs - 1")
      case False
      with j(2) have "i < length gs - 1" "length gs - 1 < length gs" by auto
      with assms(1,2) have "gs ! i \<le> gs ! (length gs - 1)" by (fastforce simp: spaced_def)
      then show ?thesis by (simp add: last_conv_nth [OF ne])
    qed (simp add: last_conv_nth [OF ne])
    with assms(3) [OF ne] have "gap \<le> t - gs ! i" by simp
    with j show ?thesis by (simp add: nth_append)
  qed
qed

text \<open>The claim of the slot is the last entry of the log.\<close>

definition cooldown_inv :: "slot_id \<Rightarrow> nat \<Rightarrow> ('v, 'z) gate_db_scheme \<times> i64 list \<Rightarrow> bool" where
  "cooldown_inv slot w s \<longleftrightarrow> spaced (int w * second) (snd s) \<and>
    (snd s \<noteq> [] \<longrightarrow> (\<exists>claims. g_cooldown_claim (fst s) = Some claims \<and> claims slot = Some (last (snd s))))"

lemma try_claim_cases:
  fixes d :: "('v, 'z) gate_db_scheme"
  assumes "cooldown_try_claim slot w d = (r, d')"
  obtains (kept) "g_cooldown_claim d' = g_cooldown_claim d" "db_now d' = db_now d" "db_submissions d' = db_submissions d" "r \<noteq> Inr True"
  | (won) claims where "g_cooldown_claim d = Some claims" "g_cooldown_claim d' = Some (claims(slot \<mapsto> db_now d))"
      "db_now d' = db_now d" "db_submissions d' = db_submissions d" "r = Inr True" "\<And>t. claims slot = Some t \<Longrightarrow> t \<le> db_now d - int w * second"
  using assms
  by (auto simp: cooldown_try_claim_def hbind_def hret_def try_execute_def claim_statement_def Let_def
      split: list.splits option.splits sum.splits if_splits)

lemma ensure_schema_cases:
  fixes d :: "('v, 'z) gate_db_scheme"
  assumes "cooldown_ensure_schema d = (r, d')"
  shows "db_now d' = db_now d" and "g_cooldown_claim d \<noteq> None \<Longrightarrow> g_cooldown_claim d' = g_cooldown_claim d"
  using assms by (auto simp: cooldown_ensure_schema_def hbind_def hret_def execute_def Let_def
      split: list.splits option.splits sum.splits if_splits)

lemma cooldown_step_inv:
  assumes "cooldown_step slot w s s'" "cooldown_inv slot w s"
  shows "cooldown_inv slot w s'"
  using assms
proof cases
  case (claim d r d' gs)
  from claim(3) show ?thesis
  proof (cases rule: try_claim_cases)
    case kept
    with assms(2) claim show ?thesis by (simp add: cooldown_inv_def)
  next
    case (won claims)
    have "spaced (int w * second) (gs @ [db_now d])"
      using assms(2) claim(1) won by (intro spaced_snoc) (auto simp: cooldown_inv_def second_def)
    with won claim show ?thesis by (simp add: cooldown_inv_def)
  qed
next
  case (claim_other slot' w' d r d' gs)
  from claim_other(3) show ?thesis
    by (cases rule: try_claim_cases) (use assms(2) claim_other in \<open>auto simp: cooldown_inv_def\<close>)
next
  case (schema d r d' gs)
  with assms(2) ensure_schema_cases(2) [OF schema(3)] show ?thesis by (auto simp: cooldown_inv_def)
next
  case (rest d' d gs)
  with assms(2) show ?thesis by (simp add: cooldown_inv_def)
qed

lemma cooldown_run_inv: "(cooldown_step slot w)\<^sup>*\<^sup>* s s' \<Longrightarrow> cooldown_inv slot w s \<Longrightarrow> cooldown_inv slot w s'"
  by (induction rule: rtranclp_induct) (auto intro: cooldown_step_inv)

section \<open>The hook under concurrency\<close>

text \<open>What the other requests do between two statements of a hook is a run of such steps.\<close>

definition env_ok :: "slot_id \<Rightarrow> nat \<Rightarrow> (nat \<Rightarrow> ('v, 'z) gate_db_scheme \<Rightarrow> ('v, 'z) gate_db_scheme) \<Rightarrow> bool" where
  "env_ok slot w env \<longleftrightarrow> (\<forall>n d gs. \<exists>more. (cooldown_step slot w)\<^sup>*\<^sup>* (d, gs) (env n d, gs @ more))"

lemma env_okE:
  assumes "env_ok slot w env"
  obtains more where "(cooldown_step slot w)\<^sup>*\<^sup>* (d, gs) (env n d, gs @ more)"
  using assms unfolding env_ok_def by blast

lemma gate_view_step: "gate_view d' = gate_view d \<Longrightarrow> cooldown_step slot w (d, gs) (d', gs)"
  by (rule rest) (simp_all add: gate_view_def)

lemma claim_retry_run:
  fixes d :: "('v, 'z) gate_db_scheme"
  assumes "env_ok slot w env" and "cooldown_claim_retry env slot w d = (Inr True, d')"
  obtains more t where "(cooldown_step slot w)\<^sup>*\<^sup>* (d, gs) (d', gs @ more @ [t])"
proof -
  let ?run = "(cooldown_step slot w)\<^sup>*\<^sup>*"
  obtain r d1 where first: "cooldown_try_claim slot w (env 1 d) = (r, d1)" by force
  obtain m1 where e1: "?run (d, gs) (env 1 d, gs @ m1)" using env_okE [OF assms(1)] .
  note c1 = claim [OF first, of "gs @ m1"]
  show ?thesis
  proof (cases r)
    case (Inr won)
    with assms(2) first have "won" "d1 = d'" by (auto simp: cooldown_claim_retry_def after_env_def)
    with Inr e1 c1 that [of m1 "db_now (env 1 d)"] show ?thesis by (simp add: rtranclp.rtrancl_into_rtrancl)
  next
    case (Inl e)
    with assms(2) first obtain d2 where sc: "cooldown_ensure_schema (env 2 d1) = (Inr (), d2)"
      and second': "cooldown_try_claim slot w (env 3 d2) = (Inr True, d')"
      by (auto simp: cooldown_claim_retry_def after_env_def hbind_def split: sum.splits prod.splits)
    obtain m2 where e2: "?run (d1, gs @ m1) (env 2 d1, (gs @ m1) @ m2)" using env_okE [OF assms(1)] .
    obtain m3 where e3: "?run (d2, (gs @ m1) @ m2) (env 3 d2, ((gs @ m1) @ m2) @ m3)" using env_okE [OF assms(1)] .
    have "?run (d, gs) (d1, gs @ m1)" using e1 c1 Inl by (simp add: rtranclp.rtrancl_into_rtrancl)
    also have "?run (d1, gs @ m1) (d2, (gs @ m1) @ m2)" by (rule rtranclp.rtrancl_into_rtrancl [OF e2 schema [OF sc]])
    also have "?run (d2, (gs @ m1) @ m2) (d', (((gs @ m1) @ m2) @ m3) @ [db_now (env 3 d2)])"
      using rtranclp.rtrancl_into_rtrancl [OF e3 claim [OF second']] by simp
    finally show ?thesis using that [of "m1 @ m2 @ m3"] by simp
  qed
qed

lemma elapsed_enough:
  assumes "query_submission_elapsed u p c x = (Inr elapsed, x')" and "enough elapsed n" and "0 < n"
    and "s \<in> set (db_submissions x)" "s_user_id s = u" "s_problem_id s = p" "s_contest_id s = c"
  shows "int n * second - 500000 \<le> db_now x - s_created_at s"
proof -
  let ?subs = "filter (\<lambda>s. s_user_id s = u \<and> s_problem_id s = p \<and> s_contest_id s = c) (db_submissions x)"
  have "s \<in> set ?subs" using assms(4-7) by simp
  then obtain m where m: "opt_max (map s_created_at ?subs) = Some m"
    by (cases "opt_max (map s_created_at ?subs)") (auto simp: filter_empty_conv)
  then have le: "s_created_at s \<le> m" using opt_max_Some \<open>s \<in> set ?subs\<close> by fastforce
  have el: "elapsed = Some (epoch_int (db_now x - m))"
    using assms(1) m by (auto simp: query_submission_elapsed_def try_execute_def Let_def
        split: list.splits option.splits if_splits)
  with assms(2,3) have "int n \<le> epoch_int (db_now x - m)" by (simp add: enough_def)
  then have "int n * second - 500000 \<le> db_now x - m"
    using assms(3) by (auto simp: epoch_int_def second_def split: if_splits)
  with le show ?thesis by simp
qed

text \<open>
  C35: the cooldown holds for requests that run at the same time. Whatever other requests do
  between the statements of the hook, each request that the hook lets pass has its own winning
  claim, any two winning claims of a user for a problem are at least the cooldown or 15 seconds
  apart, whichever is less, and when the hook looked at the submissions none of the user's for this
  problem and contest was younger than the cooldown, up to half a second (the database rounds the
  elapsed time to whole seconds).
\<close>

theorem cooldown_spaces_passes:
  fixes d :: "('v, 'z) gate_db_scheme"
  assumes "get_effective ''cooldown'' ''cooldown'' (he_problem_id ev) (he_contest_id ev) d = (Inr eff, d1)"
    and "ec_is_enabled eff" and "number_or_zero ''cooldown_seconds'' eff = c" and "0 < c"
    and "slot = slot_of (he_user_id ev) (he_problem_id ev) (he_contest_id ev)"
    and "env_ok slot (min c CLAIM_GRACE_SECS) env"
    and "(cooldown_step slot (min c CLAIM_GRACE_SECS))\<^sup>*\<^sup>* (d0, []) (d, gs)"
    and "check_cooldown env ev d = (Inr GatePass, d')"
  shows "\<exists>x more t. (cooldown_step slot (min c CLAIM_GRACE_SECS))\<^sup>*\<^sup>* (d, gs) (d', gs @ more @ [t]) \<and>
    spaced (int (min c CLAIM_GRACE_SECS) * second) (gs @ more @ [t]) \<and>
    x = env 0 d1 \<and> (\<forall>s \<in> set (db_submissions x). s_user_id s = he_user_id ev \<and> s_problem_id s = he_problem_id ev \<and>
      s_contest_id s = he_contest_id ev \<longrightarrow> int c * second - 500000 \<le> db_now x - s_created_at s)"
proof -
  let ?w = "min c CLAIM_GRACE_SECS" and ?run = "(cooldown_step slot (min c CLAIM_GRACE_SECS))\<^sup>*\<^sup>*"
  from assms(8) obtain elapsed x' where
    read: "query_submission_elapsed (he_user_id ev) (he_problem_id ev) (he_contest_id ev) (env 0 d1) = (Inr elapsed, x')"
    and ok: "enough elapsed c" and won: "cooldown_claim_retry env slot ?w x' = (Inr True, d')"
    unfolding check_cooldown_def assms(1) prod.case sum.case Let_def assms(3)
    using assms(2,4,5)
    by (auto simp: hbind_def hret_def after_env_def hok_def reject_response_def split: prod.splits sum.splits if_splits)
  have r1: "?run (d, gs) (d1, gs)"
    by (rule r_into_rtranclp, rule gate_view_step) (use hkeepsD [OF gate_view_effective assms(1)] in simp)
  obtain m0 where r2: "?run (d1, gs) (env 0 d1, gs @ m0)" using env_okE [OF assms(6)] .
  have r3: "?run (env 0 d1, gs @ m0) (x', gs @ m0)"
    by (rule r_into_rtranclp, rule gate_view_step) (use hkeepsD [OF gate_view_reads(1) read] in simp)
  obtain m1 t where r4: "?run (x', gs @ m0) (d', (gs @ m0) @ m1 @ [t])" using claim_retry_run [OF assms(6) won] .
  have all: "?run (d, gs) (d', gs @ (m0 @ m1) @ [t])" using rtranclp_trans [OF rtranclp_trans [OF rtranclp_trans [OF r1 r2] r3] r4] by simp
  moreover have "cooldown_inv slot ?w (d', gs @ (m0 @ m1) @ [t])"
    by (rule cooldown_run_inv [OF rtranclp_trans [OF assms(7) all]]) (simp add: cooldown_inv_def spaced_def)
  ultimately show ?thesis
    using elapsed_enough [OF read ok assms(4)] unfolding cooldown_inv_def by (intro exI conjI) (assumption | auto)+
qed

lemma check_cooldown_active:
  assumes "get_effective ''cooldown'' ''cooldown'' (he_problem_id ev) (he_contest_id ev) d = (Inr eff, d1)"
    and "ec_is_enabled eff" and "number_or_zero ''cooldown_seconds'' eff = c" and "0 < c"
  shows "check_cooldown env ev d =
    hbind (after_env env 0 (query_submission_elapsed (he_user_id ev) (he_problem_id ev) (he_contest_id ev))) (\<lambda>elapsed.
      if \<not> enough elapsed c then hret (reject_response (c - nat (the elapsed)) c)
      else hbind (cooldown_claim_retry env (slot_of (he_user_id ev) (he_problem_id ev) (he_contest_id ev)) (min c CLAIM_GRACE_SECS))
        (\<lambda>claimed. if claimed then hret GatePass
          else hbind (hok (after_env env 4 (remaining_from_claim (slot_of (he_user_id ev) (he_problem_id ev) (he_contest_id ev)) c)))
            (\<lambda>r. hret (reject_response (case r of Some n \<Rightarrow> n | None \<Rightarrow> 1) c)))) d1"
  using assms by (simp add: check_cooldown_def Let_def)

section \<open>A sample site\<close>

definition sample_gate :: "i64 \<Rightarrow> unit gate_db" where
  "sample_gate now = \<lparr>db_submissions = [], db_judgements = [], db_results = [], db_faults = [], db_now = now,
     h_contests = [], h_contest_users = [], h_contest_problems = [], h_entries = [],
     g_config = [(''problem'', ''3'', ''cooldown:cooldown'') \<mapsto> (JObj [(''cooldown_seconds'', JInt 20)], Some True),
       (''problem'', ''3'', ''submission-limit:limits'') \<mapsto> (JObj [(''max_submissions'', JInt 2)], Some True)],
     g_defaults = (\<lambda>_ _. None), g_cooldown_claim = Some Map.empty, g_limit_claim = Some Map.empty\<rparr>"

definition sample_event :: hook_event where
  "sample_event = \<lparr>he_user_id = 7, he_problem_id = 3, he_contest_id = None\<rparr>"

definition sample_eff :: "json \<Rightarrow> effective_config" where
  "sample_eff v = \<lparr>ec_config = v, ec_source = FromProblem, ec_is_enabled = True,
     ec_levels = (None, None, \<lparr>cr_config = v, cr_is_default = False, cr_enabled = Some True\<rparr>)\<rparr>"

lemma sample_config_keys:
  "config_key ''cooldown'' ''problem'' (show_int 3) ''cooldown'' = Inr (''problem'', ''3'', ''cooldown:cooldown'')"
  "config_key ''submission-limit'' ''problem'' (show_int 3) ''limits'' = Inr (''problem'', ''3'', ''submission-limit:limits'')"
  by (code_simp, code_simp)

lemma sample_effective:
  assumes "g_config d = g_config (sample_gate 0)" "db_faults d = []"
  shows "get_effective ''cooldown'' ''cooldown'' 3 None d = (Inr (sample_eff (JObj [(''cooldown_seconds'', JInt 20)])), d)"
    and "get_effective ''submission-limit'' ''limits'' 3 None d = (Inr (sample_eff (JObj [(''max_submissions'', JInt 2)])), d)"
  using assms
  by (simp_all add: get_effective_def get_problem_def config_get_def sample_config_keys trap_def db_query_def hbind_def hret_def
      sample_gate_def resolve_cascade_def map_filter_simps sample_eff_def)

lemma sample_eff_enabled [simp]: "ec_is_enabled (sample_eff v)"
  by (simp add: sample_eff_def)

lemma sample_numbers:
  "number_or_zero ''cooldown_seconds'' (sample_eff (JObj [(''cooldown_seconds'', JInt 20)])) = 20"
  "number_or_zero ''max_submissions'' (sample_eff (JObj [(''max_submissions'', JInt 2)])) = 2"
  by (simp_all add: number_or_zero_def sample_eff_def)

lemma sample_slot: "slot_of (he_user_id sample_event) (he_problem_id sample_event) (he_contest_id sample_event) = (7, 3, 0)"
  by (simp add: slot_of_def contest_key_of_def sample_event_def)

lemmas gate_eval = hbind_def hret_def hok_def after_env_def try_execute_def Let_def

theorem cooldown_spaces_passes_witness:
  "\<exists>d' more t. check_cooldown (\<lambda>_ d. d) sample_event (sample_gate 0) = (Inr GatePass, d') \<and>
    (cooldown_step (7, 3, 0) 15)\<^sup>*\<^sup>* (sample_gate 0, []) (d', more @ [t]) \<and> spaced (15 * second) (more @ [t])"
proof -
  have "db_faults (sample_gate 0) = []" by (simp add: sample_gate_def)
  note eff = sample_effective(1) [OF refl this]
  obtain d' where pass: "check_cooldown (\<lambda>_ d. d) sample_event (sample_gate 0) = (Inr GatePass, d')"
    unfolding check_cooldown_active [of sample_event, unfolded sample_event_def hook_event.select_convs, folded sample_event_def,
        OF eff sample_eff_enabled sample_numbers(1) zero_less_numeral]
    by (simp add: gate_eval query_submission_elapsed_def cooldown_claim_retry_def cooldown_try_claim_def claim_statement_def
        enough_def sample_gate_def)
  have env: "env_ok (7, 3, 0) (min 20 CLAIM_GRACE_SECS) (\<lambda>_ d. d :: unit gate_db)"
    unfolding env_ok_def by (intro allI exI [of _ "[]"]) simp
  from cooldown_spaces_passes [of sample_event "sample_gate 0", unfolded sample_slot, OF _ _ sample_numbers(1) _ refl env rtranclp.rtrancl_refl pass] pass eff
  show ?thesis by (auto simp: sample_event_def sample_eff_def CLAIM_GRACE_SECS_def)
qed

section \<open>The status of the cooldown\<close>

lemma epoch_int_enough: "0 < n \<Longrightarrow> n \<le> nat (epoch_int us) \<longleftrightarrow> int n * second - 500000 \<le> us"
  by (auto simp: epoch_int_def second_def nat_le_eq_zle split: if_splits)

lemma claim_statement_wins:
  assumes "g_cooldown_claim d = Some claims" "db_faults d = []"
  shows "fst (cooldown_claim_retry (\<lambda>_ d. d) slot w d) =
    Inr (case claims slot of None \<Rightarrow> True | Some t \<Rightarrow> t \<le> db_now d - int w * second)"
  using assms by (auto simp: cooldown_claim_retry_def cooldown_try_claim_def claim_statement_def gate_eval split: option.splits)

lemma query_claim_elapsed_result:
  assumes "query_claim_elapsed slot d = (Inr elapsed, d')" "g_cooldown_claim d = Some claims" "db_faults d = []"
  shows "elapsed = map_option (\<lambda>t. epoch_int (db_now d - t)) (claims slot)" "d' = d"
  using assms by (auto simp: query_claim_elapsed_def gate_eval split: option.splits if_splits)

lemma fault_free_elapsed:
  assumes "query_submission_elapsed u p c d = (Inr elapsed, d')" "db_faults d = []"
  shows "d' = d"
  using assms by (auto simp: query_submission_elapsed_def gate_eval split: option.splits if_splits)

lemma fault_free_effective:
  assumes "get_effective p ns pid cid d = (Inr eff, d')" "db_faults d = []"
  shows "d' = d"
  using assms
  by (auto simp: get_effective_def get_problem_def get_contest_def get_contest_problem_def config_get_def trap_def db_query_def
      hbind_def hret_def hthrow_def split: option.splits sum.splits)

lemma cooldown_status_result:
  fixes d :: "('v, 'z) gate_db_scheme"
  assumes "db_faults d = []" "g_cooldown_claim d = Some claims" "status_request req d = (Inr (u, p, c), d)"
    and "handle_cooldown_status req d = (Inr st, d')"
  obtains (disabled) eff where "get_effective ''cooldown'' ''cooldown'' p c d = (Inr eff, d)" "\<not> ec_is_enabled eff"
      "cs_can_submit st" "cs_cooldown_seconds st = 0"
  | (enabled) eff n elapsed where "get_effective ''cooldown'' ''cooldown'' p c d = (Inr eff, d)" "ec_is_enabled eff"
      "number_or_zero ''cooldown_seconds'' eff = n" "cs_cooldown_seconds st = n"
      "query_submission_elapsed u p c d = (Inr elapsed, d)"
      "cs_can_submit st \<longleftrightarrow> n = 0 \<or> enough elapsed n \<and>
        enough (map_option (\<lambda>t. epoch_int (db_now d - t)) (claims (slot_of u p c))) (min n CLAIM_GRACE_SECS)"
proof -
  from assms(4) obtain eff d1 where e: "get_effective ''cooldown'' ''cooldown'' p c d = (Inr eff, d1)"
    unfolding handle_cooldown_status_def by (auto simp: hbind_def lift_sdk_def assms(3) split: prod.splits sum.splits)
  note [simp] = fault_free_effective [OF e assms(1)]
  show ?thesis
  proof (cases "ec_is_enabled eff")
    case False
    with assms(4) e have "cs_can_submit st" "cs_cooldown_seconds st = 0"
      unfolding handle_cooldown_status_def by (auto simp: hbind_def lift_sdk_def assms(3) hret_def)
    with disabled e False show ?thesis by simp
  next
    case True
    from assms(4) e True obtain elapsed d2 where q: "query_submission_elapsed u p c d = (Inr elapsed, d2)"
      unfolding handle_cooldown_status_def by (auto simp: hbind_def lift_sdk_def assms(3) Let_def split: prod.splits sum.splits)
    note [simp] = fault_free_elapsed [OF q assms(1)]
    let ?retry = "claim_elapsed_retry (slot_of u p c) d"
    from assms(4) e True q obtain ce d3 where r: "?retry = (Inr ce, d3)"
      and st: "st = \<lparr>cs_enabled = True, cs_cooldown_seconds = number_or_zero ''cooldown_seconds'' eff, cs_seconds_since_last = elapsed,
            cs_can_submit = (number_or_zero ''cooldown_seconds'' eff = 0 \<or>
              enough elapsed (number_or_zero ''cooldown_seconds'' eff) \<and>
              enough ce (min (number_or_zero ''cooldown_seconds'' eff) CLAIM_GRACE_SECS)), cs_source = ec_source eff\<rparr>"
      unfolding handle_cooldown_status_def by (auto simp: hbind_def hret_def lift_sdk_def assms(3) Let_def split: prod.splits sum.splits)
    have "ce = map_option (\<lambda>t. epoch_int (db_now d - t)) (claims (slot_of u p c))"
      using r assms(1,2) unfolding claim_elapsed_retry_def
      by (auto simp: query_claim_elapsed_def cooldown_ensure_schema_def execute_def gate_eval split: option.splits if_splits)
    with enabled [OF _ True refl _ _] e q st show ?thesis by simp
  qed
qed

text \<open>
  C38: the status shown to the contestant and the gate, asked at the same moment, agree except in
  one half second: the status rounds the age of the last claim to whole seconds, so in the last half
  second of the claim's window it says that the user can submit while the hook still rejects.
\<close>

theorem cooldown_status_and_gate:
  fixes d :: "('v, 'z) gate_db_scheme"
  assumes "db_faults d = []" and "g_cooldown_claim d = Some claims" and "status_request req d = (Inr (u, p, c), d)"
    and "handle_cooldown_status req d = (Inr st, d')" and "w = int (min (cs_cooldown_seconds st) CLAIM_GRACE_SECS) * second"
  shows "fst (check_cooldown (\<lambda>_ d. d) \<lparr>he_user_id = u, he_problem_id = p, he_contest_id = c\<rparr> d) = Inr GatePass \<longleftrightarrow>
    cs_can_submit st \<and> \<not> (0 < cs_cooldown_seconds st \<and>
      (\<exists>t. claims (slot_of u p c) = Some t \<and> db_now d - w < t \<and> t \<le> db_now d - w + 500000))"
  using assms(1-4)
proof (cases rule: cooldown_status_result)
  case (disabled eff)
  then show ?thesis by (simp add: check_cooldown_def)
next
  case (enabled eff n elapsed)
  let ?slot = "slot_of u p c" and ?n = "min n CLAIM_GRACE_SECS"
  show ?thesis
  proof (cases "0 < n")
    case True
    let ?ev = "\<lparr>he_user_id = u, he_problem_id = p, he_contest_id = c\<rparr>"
    obtain d2 where claim: "cooldown_claim_retry (\<lambda>_ d. d) ?slot ?n d =
        (Inr (case claims ?slot of None \<Rightarrow> True | Some t \<Rightarrow> t \<le> db_now d - int ?n * second), d2)"
      using claim_statement_wins [OF assms(2,1), of ?slot ?n] by (metis prod.collapse)
    have "fst (check_cooldown (\<lambda>_ d. d) ?ev d) = Inr GatePass \<longleftrightarrow>
        enough elapsed n \<and> (case claims ?slot of None \<Rightarrow> True | Some t \<Rightarrow> t \<le> db_now d - int ?n * second)"
      using enabled(1,2,3,5) True claim
      by (subst check_cooldown_active [of ?ev d eff d n])
         (simp_all add: hbind_def hret_def hok_def after_env_def reject_response_def)
    moreover have n: "0 < ?n" using True by (simp add: CLAIM_GRACE_SECS_def)
    moreover have w: "w = int ?n * second" using assms(5) enabled(4) by simp
    moreover have "cs_can_submit st \<longleftrightarrow> enough elapsed n \<and> (\<forall>t. claims ?slot = Some t \<longrightarrow> w - 500000 \<le> db_now d - t)"
      using True enabled(6) unfolding w
      by (cases "claims ?slot") (simp_all add: enough_def epoch_int_enough [OF n])
    ultimately show ?thesis
      using True enabled(4) by (cases "claims ?slot") auto
  qed (use enabled in \<open>simp add: check_cooldown_def\<close>)
qed

definition sample_status_request :: http_request where
  "sample_status_request = \<lparr>hr_params = [''problem_id'' \<mapsto> ''3''], hr_auth = Some \<lparr>pa_user_id = 7, pa_permissions = []\<rparr>\<rparr>"

definition claimed_gate :: "unit gate_db" where
  "claimed_gate = (sample_gate 14600000)\<lparr>g_cooldown_claim := Some [(7, 3, 0) \<mapsto> 0]\<rparr>"

theorem cooldown_status_and_gate_witness:
  "\<exists>st. handle_cooldown_status sample_status_request claimed_gate = (Inr st, claimed_gate) \<and> cs_can_submit st \<and>
    fst (check_cooldown (\<lambda>_ d. d) sample_event claimed_gate) \<noteq> Inr GatePass"
proof -
  have free: "db_faults claimed_gate = []" "g_cooldown_claim claimed_gate = Some [(7, 3, 0) \<mapsto> 0]" "db_now claimed_gate = 14600000"
    by (simp_all add: claimed_gate_def sample_gate_def)
  have p3: "parse_i32 ''3'' = Some 3" by code_simp
  have req: "status_request sample_status_request claimed_gate = (Inr (7, 3, None), claimed_gate)"
    by (simp add: status_request_def sample_status_request_def require_user_id_def req_user_id_def of_result_def param_i32_def
        p3 hbind_def hret_def)
  have eff: "get_effective ''cooldown'' ''cooldown'' 3 None claimed_gate = (Inr (sample_eff (JObj [(''cooldown_seconds'', JInt 20)])), claimed_gate)"
    by (rule sample_effective(1)) (simp_all add: claimed_gate_def sample_gate_def)
  have slot: "slot_of 7 3 None = (7, 3, 0)" by (simp add: slot_of_def contest_key_of_def)
  have "query_submission_elapsed 7 3 None claimed_gate = (Inr None, claimed_gate)"
    by (simp add: query_submission_elapsed_def gate_eval claimed_gate_def sample_gate_def)
  moreover have "claim_elapsed_retry (7, 3, 0) claimed_gate = (Inr (Some 15), claimed_gate)"
    using free by (simp add: claim_elapsed_retry_def query_claim_elapsed_def gate_eval epoch_int_def second_def rust_int)
  ultimately obtain st where st: "handle_cooldown_status sample_status_request claimed_gate = (Inr st, claimed_gate)"
      "cs_can_submit st" "cs_cooldown_seconds st = 20"
    by (simp add: handle_cooldown_status_def hbind_def req lift_sdk_def eff slot sample_numbers hret_def Let_def enough_def
        CLAIM_GRACE_SECS_def)
  from cooldown_status_and_gate [OF free(1,2) req st(1) refl] st free(3) slot
  have "fst (check_cooldown (\<lambda>_ d. d) \<lparr>he_user_id = 7, he_problem_id = 3, he_contest_id = None\<rparr> claimed_gate) \<noteq> Inr GatePass"
    by (simp add: CLAIM_GRACE_SECS_def second_def)
  with st show ?thesis by (auto simp: sample_event_def)
qed

end
