(* ===== verification/LimitClaims.thy ===== *)
theory LimitClaims
  imports GateClaims
begin

text \<open>
  The limit on the number of submissions under concurrency: the claims and confirmations of all
  requests, in any order, are the steps of a relation that counts what was granted and confirmed.
\<close>

section \<open>Claims and confirmations\<close>

text \<open>No claim of the slot has been pending beyond its grace.\<close>

definition timely :: "slot_id \<Rightarrow> ('v, 'z) gate_db_scheme \<Rightarrow> bool" where
  "timely slot d \<longleftrightarrow> (\<forall>rows r. g_limit_claim d = Some rows \<and> rows slot = Some r \<and> 0 < lr_pending r \<longrightarrow>
     pending_live (db_now d) r)"

text \<open>
  One step of the system as the limit of one slot sees it, with the number of claims granted and
  confirmed so far: every confirmation belongs to a granted claim.
\<close>

inductive limit_step :: "slot_id \<Rightarrow> nat \<Rightarrow> ('v, 'z) gate_db_scheme \<times> nat \<times> nat \<Rightarrow>
    ('v, 'z) gate_db_scheme \<times> nat \<times> nat \<Rightarrow> bool" for slot cap where
  claim: "limit_try_claim slot cap d = (r, d') \<Longrightarrow> timely slot d \<Longrightarrow>
    limit_step slot cap (d, g, c) (d', if r = Inr True then Suc g else g, c)"
| confirm: "confirm_claim slot d = (r, d') \<Longrightarrow> c < g \<Longrightarrow>
    limit_step slot cap (d, g, c) (d', g, if r = Inr () then Suc c else c)"
| claim_other: "limit_try_claim slot' cap' d = (r, d') \<Longrightarrow> slot' \<noteq> slot \<Longrightarrow> limit_step slot cap (d, g, c) (d', g, c)"
| confirm_other: "confirm_claim slot' d = (r, d') \<Longrightarrow> slot' \<noteq> slot \<Longrightarrow> limit_step slot cap (d, g, c) (d', g, c)"
| schema: "limit_ensure_schema d = (r, d') \<Longrightarrow> limit_step slot cap (d, g, c) (d', g, c)"
| rest: "g_limit_claim d' = g_limit_claim d \<Longrightarrow> db_now d \<le> db_now d' \<Longrightarrow> limit_step slot cap (d, g, c) (d', g, c)"

text \<open>The row of the slot holds the counts.\<close>

definition slot_row :: "slot_id \<Rightarrow> ('v, 'z) gate_db_scheme \<Rightarrow> limit_row option" where
  "slot_row slot d = Option.bind (g_limit_claim d) (\<lambda>rows. rows slot)"

definition limit_inv :: "slot_id \<Rightarrow> nat \<Rightarrow> ('v, 'z) gate_db_scheme \<times> nat \<times> nat \<Rightarrow> bool" where
  "limit_inv slot cap s = (case s of (d, g, c) \<Rightarrow> c \<le> g \<and> g \<le> cap \<and>
    (case slot_row slot d of None \<Rightarrow> g = 0
     | Some r \<Rightarrow> lr_confirmed r = c \<and> lr_pending r = g - c))"

lemma timely_row: "timely slot d \<Longrightarrow> slot_row slot d = Some r \<Longrightarrow> 0 < lr_pending r \<Longrightarrow> pending_live (db_now d) r"
  by (auto simp: timely_def slot_row_def bind_eq_Some_conv)

text \<open>What the two statements do to the rows of the table.\<close>

lemma limit_claim_cases:
  fixes d :: "('v, 'z) gate_db_scheme"
  assumes "limit_try_claim slot cap d = (r, d')"
  obtains (kept) "g_limit_claim d' = g_limit_claim d" "r \<noteq> Inr True"
  | (new) rows where "g_limit_claim d = Some rows" "rows slot = None" "r = Inr True"
      "g_limit_claim d' = Some (rows(slot \<mapsto> \<lparr>lr_confirmed = 0, lr_pending = 1, lr_oldest_pending_at = Some (db_now d)\<rparr>))"
  | (more) rows row where "g_limit_claim d = Some rows" "rows slot = Some row" "r = Inr True"
      "active_slots (db_now d) row < cap" "g_limit_claim d' = Some (rows(slot \<mapsto> add_pending (db_now d) row))"
  using assms
  by (auto simp: limit_try_claim_def limit_claim_statement_def gate_eval split: list.splits option.splits sum.splits if_splits)

lemma confirm_claim_cases:
  fixes d :: "('v, 'z) gate_db_scheme"
  assumes "confirm_claim slot d = (r, d')"
  obtains (kept) "g_limit_claim d' = g_limit_claim d" "r \<noteq> Inr ()"
  | (done_) rows where "g_limit_claim d = Some rows" "r = Inr ()"
      "g_limit_claim d' = Some (rows(slot \<mapsto> confirm_row (rows slot)))"
  using assms
  by (auto simp: confirm_claim_def gate_eval split: list.splits option.splits sum.splits if_splits)

lemma limit_schema_row:
  fixes d :: "('v, 'z) gate_db_scheme"
  assumes "limit_ensure_schema d = (r, d')"
  shows "slot_row slot d' = slot_row slot d"
  using assms by (auto simp: limit_ensure_schema_def slot_row_def hbind_def hret_def execute_def Let_def
      split: list.splits option.splits sum.splits if_splits)

lemma limit_step_inv:
  assumes "limit_step slot cap s s'" "limit_inv slot cap s" "0 < cap"
  shows "limit_inv slot cap s'"
  using assms(1)
proof cases
  case (claim d r d' g c)
  from claim(3) show ?thesis
  proof (cases rule: limit_claim_cases)
    case kept
    with assms(2) claim show ?thesis by (simp add: limit_inv_def slot_row_def)
  next
    case (new rows)
    with assms(2) claim have "g = 0" "c = 0" by (auto simp: limit_inv_def slot_row_def)
    with new assms(3) claim show ?thesis by (simp add: limit_inv_def slot_row_def)
  next
    case (more rows row)
    with claim have row: "slot_row slot d = Some row" "slot_row slot d' = Some (add_pending (db_now d) row)"
      by (simp_all add: slot_row_def)
    with assms(2) claim have cnt: "lr_confirmed row = c" "lr_pending row = g - c" "c \<le> g"
      by (simp_all add: limit_inv_def)
    have "active_slots (db_now d) row = g" "lr_pending (add_pending (db_now d) row) = Suc g - c"
      using cnt timely_row [OF claim(4) row(1)] by (cases "c < g"; auto simp: active_slots_def add_pending_def)+
    moreover have "lr_confirmed (add_pending (db_now d) row) = c" using cnt by (simp add: add_pending_def)
    ultimately show ?thesis using claim more cnt row by (simp add: limit_inv_def)
  qed
next
  case (confirm d r d' c g)
  from confirm(3) show ?thesis
  proof (cases rule: confirm_claim_cases)
    case kept
    with assms(2) confirm show ?thesis by (simp add: limit_inv_def slot_row_def)
  next
    case (done_ rows)
    with assms(2) confirm obtain row where row: "rows slot = Some row" "lr_confirmed row = c" "lr_pending row = g - c"
      by (cases "rows slot") (auto simp: limit_inv_def slot_row_def)
    with assms(2) confirm done_ show ?thesis by (auto simp: limit_inv_def slot_row_def confirm_row_def)
  qed
next
  case (claim_other slot' cap' d r d' g c)
  from claim_other(3) have "slot_row slot d' = slot_row slot d"
    by (cases rule: limit_claim_cases) (use claim_other(4) in \<open>auto simp: slot_row_def\<close>)
  with assms(2) claim_other show ?thesis by (simp add: limit_inv_def)
next
  case (confirm_other slot' d r d' g c)
  from confirm_other(3) have "slot_row slot d' = slot_row slot d"
    by (cases rule: confirm_claim_cases) (use confirm_other(4) in \<open>auto simp: slot_row_def\<close>)
  with assms(2) confirm_other show ?thesis by (simp add: limit_inv_def)
next
  case (schema d r d' g c)
  with assms(2) limit_schema_row [OF schema(3), of slot] show ?thesis by (simp add: limit_inv_def)
next
  case (rest d' d g c)
  with assms(2) show ?thesis by (simp add: limit_inv_def slot_row_def)
qed

lemma limit_run_inv:
  assumes "(limit_step slot cap)\<^sup>*\<^sup>* s s'" "limit_inv slot cap s" "0 < cap"
  shows "limit_inv slot cap s'"
  using assms by (induction rule: rtranclp_induct) (auto intro: limit_step_inv)

section \<open>The hook\<close>

lemma check_limit_active:
  assumes "get_effective ''submission-limit'' ''limits'' (he_problem_id ev) (he_contest_id ev) d = (Inr eff, d1)"
    and "ec_is_enabled eff" and "number_or_zero ''max_submissions'' eff = cap" and "0 < cap"
    and "limit_try_claim (slot_of (he_user_id ev) (he_problem_id ev) (he_contest_id ev)) cap (env 0 d1) = (Inr won, d2)"
  shows "fst (check_limit env ev d) = Inr GatePass \<longleftrightarrow> won" and "won \<Longrightarrow> snd (check_limit env ev d) = d2"
  using assms by (auto simp: check_limit_def hbind_def hret_def after_env_def split: prod.splits sum.splits)

lemma limit_try_claim_runs:
  assumes "db_faults d = []" "g_limit_claim d \<noteq> None"
  shows "fst (limit_try_claim slot cap d) =
    Inr (case slot_row slot d of None \<Rightarrow> True | Some r \<Rightarrow> active_slots (db_now d) r < cap)"
  using assms
  by (auto simp: limit_try_claim_def limit_claim_statement_def gate_eval slot_row_def split: option.splits)



section \<open>Claims that are dropped while they are fresh\<close>

lemma sample_limit_effective:
  assumes "g_config d = g_config (sample_gate 0)" "db_faults d = []"
  shows "get_effective ''submission-limit'' ''limits'' (he_problem_id sample_event) (he_contest_id sample_event) d =
      (Inr (sample_eff (JObj [(''max_submissions'', JInt 2)])), d)"
  using sample_effective(2) [OF assms] by (simp add: sample_event_def)

lemma sample_limit_pass:
  fixes d :: "unit gate_db"
  assumes "g_config d = g_config (sample_gate 0)" "db_faults d = []" "g_limit_claim d = Some rows"
    and "\<And>r. rows (7, 3, 0) = Some r \<Longrightarrow> active_slots (db_now d) r < 2"
  shows "check_limit (\<lambda>_ d. d) sample_event d = (Inr GatePass, d\<lparr>g_limit_claim := Some (rows((7, 3, 0) \<mapsto>
    (case rows (7, 3, 0) of None \<Rightarrow> \<lparr>lr_confirmed = 0, lr_pending = 1, lr_oldest_pending_at = Some (db_now d)\<rparr>
     | Some r \<Rightarrow> add_pending (db_now d) r)))\<rparr>)"
proof -
  note eff = sample_limit_effective [OF assms(1,2)]
  have "d\<lparr>db_faults := []\<rparr> = d" using assms(2) by simp
  then show ?thesis
    using assms(2-4) unfolding check_limit_def eff prod.case sum.case Let_def sample_numbers sample_slot
    by (cases "rows (7, 3, 0)") (simp_all add: gate_eval limit_try_claim_def limit_claim_statement_def)
qed

lemma sample_confirm:
  fixes d :: "unit gate_db"
  assumes "g_config d = g_config (sample_gate 0)" "db_faults d = []" "g_limit_claim d = Some rows"
  shows "on_submission_created sample_event d =
    (Inr GatePass, d\<lparr>g_limit_claim := Some (rows((7, 3, 0) \<mapsto> confirm_row (rows (7, 3, 0))))\<rparr>)"
proof -
  note eff = sample_limit_effective [OF assms(1,2)]
  have "d\<lparr>db_faults := []\<rparr> = d" using assms(2) by simp
  then show ?thesis
    using assms(2,3) unfolding on_submission_created_def eff prod.case sum.case sample_numbers sample_slot
    by (simp add: gate_eval confirm_claim_def)
qed

text \<open>A moment of the sample site and the row of the sample slot.\<close>

definition limit_at :: "unit gate_db \<Rightarrow> i64 \<Rightarrow> limit_row option \<Rightarrow> bool" where
  "limit_at d t row \<longleftrightarrow> g_config d = g_config (sample_gate 0) \<and> db_faults d = [] \<and> db_now d = t \<and>
    (\<exists>rows. g_limit_claim d = Some rows \<and> rows (7, 3, 0) = row)"

lemma limit_at_later: "limit_at d t row \<Longrightarrow> limit_at (d\<lparr>db_now := t'\<rparr>) t' row"
  by (auto simp: limit_at_def)

lemma limit_at_pass:
  assumes "limit_at d t row" and "\<And>r. row = Some r \<Longrightarrow> active_slots t r < 2"
    and "row' = (case row of None \<Rightarrow> \<lparr>lr_confirmed = 0, lr_pending = 1, lr_oldest_pending_at = Some t\<rparr>
       | Some r \<Rightarrow> add_pending t r)"
  shows "\<exists>d'. check_limit (\<lambda>_ d. d) sample_event d = (Inr GatePass, d') \<and> limit_at d' t (Some row')"
proof -
  from assms(1) obtain rows where d: "g_config d = g_config (sample_gate 0)" "db_faults d = []" "db_now d = t"
      "g_limit_claim d = Some rows" "rows (7, 3, 0) = row"
    by (auto simp: limit_at_def)
  let ?d = "d\<lparr>g_limit_claim := Some (rows((7, 3, 0) \<mapsto> row'))\<rparr>"
  have "check_limit (\<lambda>_ d. d) sample_event d = (Inr GatePass, ?d)"
    using sample_limit_pass [OF d(1,2,4)] assms(2) unfolding d(3,5) assms(3) by blast
  moreover have "limit_at ?d t (Some row')" using d by (simp add: limit_at_def)
  ultimately show ?thesis by blast
qed

lemma limit_at_confirm:
  assumes "limit_at d t row" and "row' = confirm_row row"
  shows "\<exists>d'. on_submission_created sample_event d = (Inr GatePass, d') \<and> limit_at d' t (Some row')"
proof -
  from assms(1) obtain rows where d: "g_config d = g_config (sample_gate 0)" "db_faults d = []" "db_now d = t"
      "g_limit_claim d = Some rows" "rows (7, 3, 0) = row"
    by (auto simp: limit_at_def)
  have "limit_at (d\<lparr>g_limit_claim := Some (rows((7, 3, 0) \<mapsto> row'))\<rparr>) t (Some row')" using d by (simp add: limit_at_def)
  with sample_confirm [OF d(1,2,4)] show ?thesis unfolding d(5) assms(2) by blast
qed

text \<open>
  C37: the limit can be exceeded by claims that are all confirmed within three seconds. The age of
  the pending claims is that of the oldest one, so when it passes its grace the younger ones are
  forgotten with it: with a maximum of two, a claim that never commits (second 0), one at second 29
  and two at second 31 all pass the hook, and the last three are confirmed at second 32.
\<close>

theorem limit_drops_fresh_claims:
  "\<exists>d1 d2 d3 d4 d5 d6 d7 r.
    check_limit (\<lambda>_ d. d) sample_event (sample_gate 0) = (Inr GatePass, d1) \<and>
    check_limit (\<lambda>_ d. d) sample_event (d1\<lparr>db_now := 29 * second\<rparr>) = (Inr GatePass, d2) \<and>
    check_limit (\<lambda>_ d. d) sample_event (d2\<lparr>db_now := 31 * second\<rparr>) = (Inr GatePass, d3) \<and>
    check_limit (\<lambda>_ d. d) sample_event d3 = (Inr GatePass, d4) \<and>
    on_submission_created sample_event (d4\<lparr>db_now := 32 * second\<rparr>) = (Inr GatePass, d5) \<and>
    on_submission_created sample_event d5 = (Inr GatePass, d6) \<and>
    on_submission_created sample_event d6 = (Inr GatePass, d7) \<and>
    slot_row (7, 3, 0) d7 = Some r \<and> lr_confirmed r = 3"
proof -
  note ev = active_slots_def pending_live_def add_pending_def PENDING_GRACE_SECS_def second_def confirm_row_def
  have start: "limit_at (sample_gate 0) 0 None" by (simp add: limit_at_def sample_gate_def)
  obtain d1 where 1: "check_limit (\<lambda>_ d. d) sample_event (sample_gate 0) = (Inr GatePass, d1)" "limit_at d1 (0) (Some \<lparr>lr_confirmed = 0, lr_pending = 1, lr_oldest_pending_at = Some 0\<rparr>)"
    using limit_at_pass [OF start, of "\<lparr>lr_confirmed = 0, lr_pending = 1, lr_oldest_pending_at = Some 0\<rparr>"] by (auto simp: ev)
  obtain d2 where 2: "check_limit (\<lambda>_ d. d) sample_event (d1\<lparr>db_now := 29 * second\<rparr>) = (Inr GatePass, d2)" "limit_at d2 (29 * second) (Some \<lparr>lr_confirmed = 0, lr_pending = 2, lr_oldest_pending_at = Some 0\<rparr>)"
    using limit_at_pass [OF limit_at_later [OF 1(2), of "29 * second"], of "\<lparr>lr_confirmed = 0, lr_pending = 2, lr_oldest_pending_at = Some 0\<rparr>"] by (auto simp: ev)
  obtain d3 where 3: "check_limit (\<lambda>_ d. d) sample_event (d2\<lparr>db_now := 31 * second\<rparr>) = (Inr GatePass, d3)" "limit_at d3 (31 * second) (Some \<lparr>lr_confirmed = 0, lr_pending = 1, lr_oldest_pending_at = Some (31 * second)\<rparr>)"
    using limit_at_pass [OF limit_at_later [OF 2(2), of "31 * second"], of "\<lparr>lr_confirmed = 0, lr_pending = 1, lr_oldest_pending_at = Some (31 * second)\<rparr>"] by (auto simp: ev)
  obtain d4 where 4: "check_limit (\<lambda>_ d. d) sample_event d3 = (Inr GatePass, d4)" "limit_at d4 (31 * second) (Some \<lparr>lr_confirmed = 0, lr_pending = 2, lr_oldest_pending_at = Some (31 * second)\<rparr>)"
    using limit_at_pass [OF 3(2), of "\<lparr>lr_confirmed = 0, lr_pending = 2, lr_oldest_pending_at = Some (31 * second)\<rparr>"] by (auto simp: ev)
  obtain d5 where 5: "on_submission_created sample_event (d4\<lparr>db_now := 32 * second\<rparr>) = (Inr GatePass, d5)" "limit_at d5 (32 * second) (Some \<lparr>lr_confirmed = 1, lr_pending = 1, lr_oldest_pending_at = Some (31 * second)\<rparr>)"
    using limit_at_confirm [OF limit_at_later [OF 4(2), of "32 * second"], of "\<lparr>lr_confirmed = 1, lr_pending = 1, lr_oldest_pending_at = Some (31 * second)\<rparr>"] by (auto simp: ev)
  obtain d6 where 6: "on_submission_created sample_event d5 = (Inr GatePass, d6)" "limit_at d6 (32 * second) (Some \<lparr>lr_confirmed = 2, lr_pending = 0, lr_oldest_pending_at = None\<rparr>)"
    using limit_at_confirm [OF 5(2), of "\<lparr>lr_confirmed = 2, lr_pending = 0, lr_oldest_pending_at = None\<rparr>"] by (auto simp: ev)
  obtain d7 where 7: "on_submission_created sample_event d6 = (Inr GatePass, d7)" "limit_at d7 (32 * second) (Some \<lparr>lr_confirmed = 3, lr_pending = 0, lr_oldest_pending_at = None\<rparr>)"
    using limit_at_confirm [OF 6(2), of "\<lparr>lr_confirmed = 3, lr_pending = 0, lr_oldest_pending_at = None\<rparr>"] by (auto simp: ev)
  from 7(2) have "slot_row (7, 3, 0) d7 = Some \<lparr>lr_confirmed = 3, lr_pending = 0, lr_oldest_pending_at = None\<rparr>"
    by (auto simp: limit_at_def slot_row_def)
  with 1(1) 2(1) 3(1) 4(1) 5(1) 6(1) 7(1) show ?thesis
    by (intro exI conjI) (assumption | simp)+
qed

end
