(* ===== verification/Spec2Isabelle.thy ===== *)
theory Spec2Isabelle
  imports JudgeClaims IcpcJudge IcpcStandings BracketKeys BracketAdmission CompareMain IoiBounds VisibilityClaims LimitClaims
begin

text \<open>
  Broccoli is an online judge: contestants submit programs, a worker compiles and runs them, a
  comparator checks their output, and plugins decide what a result means in a contest. This
  development models the part of it that decides outcomes: what the judge writes about a
  submission, what a contest type makes of it, what a viewer may see of it, and the engine of the
  knockout contest. The files under \<open>src/\<close> named below are those the definitions translate.

  \<^bold>\<open>How the parts interact.\<close> A contest plugin is told of a submission and starts a judging session
  (\<open>server-sdk/src/evaluator/detached.rs\<close>) with its policy; the session asks the host to evaluate
  the cases, receives one callback per case, writes rows through the host functions
  (\<open>server/src/host_funcs/submissions.rs\<close>) and a final verdict once every case is decided. The ICPC
  plugin's policy is \<open>plugins/icpc/src/evaluate.rs\<close>; its scoreboard (\<open>standings.rs\<close>, \<open>visibility.rs\<close>)
  reads what the session wrote. The bracket plugin (\<open>plugins/codelink-bracket\<close>) admits submissions
  through the host's guarded admission (\<open>server/src/services/submission_feedback.rs\<close>), and every
  judged submission, timer, ranking and staff decision advances its match documents, which it
  keeps in the plugin storage by compare-and-set. The verdict of one case comes from the
  comparator program (\<open>packages/broccoli-compare\<close>). What a viewer is shown passes the visibility
  kernel (\<open>server/src/visibility\<close>), which asks the plugins; before a submission is accepted, the
  cooldown and limit plugins may reject it.

  \<^bold>\<open>The theories.\<close>
  \<^item> \<open>Prelude\<close>: Rust integers (ranges, wrapping and saturating operations), strings, ordering
    by keys, the type of host calls (\<open>call\<close>, with early returns) and the locale \<open>state_rel\<close> of
    relations on states kept by calls, which carries the invariants of the later theories.
  \<^item> \<open>Verdicts\<close>, \<open>F64\<close>, \<open>F64Text\<close>: verdicts and statuses of \<open>broccoli-types\<close> and \<open>common\<close>, their
    severities and text forms; binary64 values with their rounding and parsing.
  \<^item> \<open>SubmissionStore\<close>: the tables and the guarded statements of the host; every statement may
    fail, so a call leaves the effects made before the failure.
  \<^item> \<open>Detached\<close>, \<open>IcpcJudge\<close>: the session driver over any policy, whose contract is the locale
    \<open>contest_judge\<close>, and the ICPC policy, which interprets it. \<open>JudgeClaims\<close> and \<open>Samples\<close> hold the
    claims that no contest type matters for, and concrete states.
  \<^item> \<open>IcpcStandings\<close>: freeze window, problem states, board rows, ranking, the detail a viewer sees.
  \<^item> \<open>PluginHost\<close>, \<open>SubmissionFeedback\<close>: plugin storage with revisions and the bounded retry loop
    of the SDK, key-value scans, timers, admissions with slots, feedback and its release.
  \<^item> \<open>BracketModel\<close>, \<open>BracketDecide\<close>, \<open>BracketHost\<close>, \<open>BracketEngine\<close>: documents, the rules that
    decide games and matches, keys and reads, and the handlers. \<open>BracketMachine\<close> is the abstract
    state machine of a match with its invariant; each update of the engine is proved to be a run of
    it. \<open>BracketWorld\<close> has, for every operation of the engine, that it stays within any relation that
    allows its elementary writes, with arbitrary writes of others in between; \<open>BracketSafety\<close>
    instantiates it. \<open>BracketRules\<close>, \<open>BracketKeys\<close>, \<open>BracketAdmission\<close> hold the properties of the
    rules, of the keys and of the path from the gate to the score.
  \<^item> \<open>Utf8\<close>, \<open>CompareStreams\<close>, \<open>CompareItems\<close>, \<open>CompareModes\<close>, \<open>CompareMain\<close>: the comparator, from
    reads of bytes up to its exit code. The locale \<open>pull_stream\<close> is what the comparison loops rely
    on in a stream; characters, tokens and lines interpret it, and \<open>compare_streams\<close> has what both
    loops decide. \<open>reader_kept\<close> is what every operation keeps of its reader.
  \<^item> \<open>IoiScoring\<close>, \<open>IoiJudge\<close>: the scoring rules of the IOI plugin (\<open>plugins/ioi/src\<close>: subtasks, task
    scores, tokens) and its judge with the tracker that cancels cases. \<open>F64Order\<close> has the monotony of
    rounding; \<open>IoiRules\<close> interprets \<open>contest_judge\<close> for the policy and shows that cancelling keeps
    scores; \<open>IoiClaims\<close> has what a whole session leaves,
    \<open>IoiBounds\<close> the bounds of subtask scores under rounding.

  \<^item> \<open>VisibilityRules\<close>, \<open>VisibilityKernel\<close>: who may see what (\<open>packages/server/src/visibility\<close>): decisions with
    their meet, the host's rule for every kind of resource over batched queries, the query of the
    plugins with validation of their answers, the kernel with its memo. \<open>VisibilityBatch\<close> shows that a
    batch answers what the rule gives on the whole tables, \<open>VisibilityLaws\<close> what the plugins can change;
    \<open>JsonMask\<close> renders entities (masks, feedback, caps on texts) and \<open>JsonLaws\<close> orders JSON values by
    what they show; \<open>VisibilityClaims\<close> states the properties.

  \<^item> \<open>PluginConfig\<close>, \<open>SubmissionGates\<close>: the configuration of plugins with its cascade
    (\<open>server/src/host_funcs/config.rs\<close>, \<open>server-sdk/src/sdk/config.rs\<close>) and the two plugins that stand
    before a submission, the cooldown and the submission limit. \<open>GateClaims\<close> and \<open>LimitClaims\<close> show
    what they guarantee when the statements of many requests interleave, and where they do not.

  \<^bold>\<open>State and effects.\<close> A host call is a function from the state to a result or an error and the
  state it leaves. Failures of the database are an input, the list \<open>db_faults\<close>. Times of the
  database are microseconds, those of the plugins milliseconds. What other processes write between
  the read and the write of a compare-and-set is a parameter (\<open>itf\<close>) constrained only where a
  theorem says so.

  \<^bold>\<open>Bounds and fuel.\<close> The retry loops have the bound of the source, 100 attempts, and return its
  error when they run out. Opening a stage may open the next one in turn: the recursion has one
  level per stage, and the stage number is a \<open>u8\<close>, so 256 levels are enough. Reading feedback and
  scanning keys page by page is bounded by the number of rows, which is shown to be enough. The
  loops of the comparator are recursive functions with termination proofs.

  \<^bold>\<open>Parameters.\<close> The host's evaluate service, the rendering of errors, what the timestamp library
  can represent, Unicode lower-casing, the call into a visibility plugin, the serialization of a
  rendered entity and the file system of the comparator are arguments of the definitions that use
  them.

  \<^bold>\<open>Not modelled.\<close> The HTTP layer, the web client and the command line tools (input and output);
  the worker and its sandbox (processes, files and control groups of the operating system); the
  dispatcher, queues and blob storage (asynchronous services over Redis, PostgreSQL and S3);
  entities and migrations (declarations); the plugin runtime and the guest bindings (WebAssembly
  plumbing); logging everywhere. Of the IOI plugin the feedback levels,
  the scoreboard and the HTTP handlers; the qualifier plugin, the evaluators.
\<close>

section \<open>Judging and the board\<close>

text \<open>
  What the judge writes is what the board reads. The verdict of the terminal update is the
  most severe one among the cases that were neither skipped nor cancelled, while the flag
  \<open>is_accepted\<close> ranges over all of them.
\<close>

lemma terminal_verdict_partial:
  assumes "set (map co_verdict ocs) \<subseteq> {Accepted, Skipped, Cancelled}"
    and "Accepted \<in> set (map co_verdict ocs)"
  shows "terminal_verdict (non_skipped_of (map eval_outcome_from_case ocs)) = Accepted"
proof -
  let ?ns = "non_skipped_of (map eval_outcome_from_case ocs)"
  have acc: "set (map eo_verdict ?ns) \<subseteq> {Accepted}"
    using assms(1) by (auto simp: non_skipped_of_def eval_outcome_from_case_def is_skipped_or_cancelled_def)
  have "?ns \<noteq> []"
    using assms(2) by (force simp: non_skipped_of_def eval_outcome_from_case_def filter_empty_conv
        is_skipped_or_cancelled_def)
  then obtain v where "max_by_key severity (map eo_verdict ?ns) = Some v"
    by (cases "max_by_key severity (map eo_verdict ?ns)") auto
  moreover from this acc have "v = Accepted" using max_by_key_Some by fastforce
  ultimately show ?thesis using \<open>?ns \<noteq> []\<close> by (simp add: terminal_verdict_def)
qed

lemma accepted_row_solves:
  assumes "s \<in> set subs" and "ss_verdict s = Some Accepted"
  shows "\<exists>st. map_of (compute_problem_states subs cce) (row_key s) = Some st \<and> ps_solved st"
proof -
  let ?grp = "filter (\<lambda>r. row_key r = row_key s) subs"
  have "ps_solved (group_state cce ?grp)"
    using assms position_None [of "\<lambda>r. ss_verdict r = Some Accepted" "sort_key time_key ?grp"]
    by (auto simp: group_state_def time_key_fun Let_def split: option.splits)
  with assms(1) show ?thesis by (simp add: map_of_compute_problem_states)
qed

text \<open>
  C23: a run in which some cases were accepted and all the others were skipped or cancelled
  is recorded as Judged with the verdict Accepted and the score 0, and the standings count
  such a row as a solved problem although not every case was accepted.
\<close>

theorem icpc_partial_run_counts_as_solved:
  assumes "set (map co_verdict ocs) \<subseteq> {Accepted, Skipped, Cancelled}"
    and "Accepted \<in> set (map co_verdict ocs)" and "set (map co_verdict ocs) \<noteq> {Accepted}"
    and "u = terminal_update sid jid ep (icpc_eval_result ocs)"
    and "s \<in> set subs" and "u_verdict u = Some (ss_verdict s)"
  shows "u_status u = Some SJudged \<and> u_verdict u = Some (Some Accepted) \<and> u_score u = Some f64_zero \<and>
    (\<exists>st. map_of (compute_problem_states subs cce) (row_key s) = Some st \<and> ps_solved st)"
proof -
  have "u_verdict u = Some (Some Accepted)" "u_status u = Some SJudged"
    using assms(4) terminal_verdict_partial [OF assms(1,2)]
    by (simp_all add: terminal_update_def icpc_eval_result_def Let_def)
  moreover have "u_score u = Some f64_zero"
    using assms(1-4) by (auto simp: terminal_update_def icpc_eval_result_def Let_def)
  ultimately show ?thesis using assms(5,6) accepted_row_solves by simp
qed

theorem icpc_partial_run_counts_as_solved_witness:
  "\<exists>st. map_of (compute_problem_states [sample_sub 1 7 Accepted 90] False) (7, 3) = Some st \<and> ps_solved st"
proof -
  let ?oc = "\<lambda>i v. outcome_filled i v (lit ''cancelled'')"
  have "row_key (sample_sub 1 7 Accepted 90) = (7, 3)" by (simp add: row_key_def sample_sub_def)
  then show ?thesis
    using icpc_partial_run_counts_as_solved [of "[?oc 1 Accepted, ?oc 2 Cancelled]" _ 1 1 0
        "sample_sub 1 7 Accepted 90" "[sample_sub 1 7 Accepted 90]" False, OF _ _ _ refl]
    by (simp add: outcome_filled_def sample_sub_def terminal_update_def icpc_eval_result_def Let_def
        non_skipped_of_def eval_outcome_from_case_def is_skipped_or_cancelled_def terminal_verdict_def)
qed

end
